(* ===== verification/Prelude.thy ===== *)
theory Prelude
  imports Main "HOL-Library.Multiset" "HOL-Library.Word"
begin

text \<open>
  What every component shares: the types that stand for
  Go's basic values (bytes, identifiers, instants), the outcome of a call that may panic, and the
  list lemmas about rows that are updated or selected by a key.
\<close>

section \<open>Basic values\<close>

text \<open>
  A \<open>uuid.UUID\<close> is an array of 16 bytes and \<open>uuid.Nil\<close> is all zeros. A \<open>time.Time\<close> is its instant, in
  nanoseconds since Go's zero time (1 January of year 1, UTC), so that \<open>IsZero\<close> is equality with 0;
  the location, which only printing looks at, is left out. Byte slices and strings are lists of bytes.
\<close>

type_synonym uuid = "128 word"
type_synonym time = int
type_synonym bytes = "char list"
type_synonym int64 = "64 word"

abbreviation uuid_Nil :: uuid where
  "uuid_Nil \<equiv> 0"

text \<open>
  A \<open>TIMESTAMP WITH TIME ZONE\<close> column keeps microseconds: the driver cuts off the rest of an instant
  that is written to it.
\<close>

definition column_time :: "time \<Rightarrow> time" where
  "column_time t = t div 1000 * 1000"

lemma column_time_bounds: "column_time t \<le> t" "t < column_time t + 1000"
  by (simp_all add: column_time_def)

lemma column_time_idem [simp]: "column_time (column_time t) = column_time t"
  by (simp add: column_time_def)

lemma column_time_mono: "s \<le> t \<Longrightarrow> column_time s \<le> column_time t"
  by (simp add: column_time_def zdiv_mono1)

text \<open>A call returns a value or panics with the runtime's message.\<close>

datatype 'a outcome = Ret 'a | Panic string

fun outcome_bind :: "'a outcome \<Rightarrow> ('a \<Rightarrow> 'b outcome) \<Rightarrow> 'b outcome" where
  "outcome_bind (Ret x) f = f x"
| "outcome_bind (Panic m) f = Panic m"

lemma outcome_bind_Ret_iff:
  "outcome_bind x f = Ret y \<longleftrightarrow> (\<exists>z. x = Ret z \<and> f z = Ret y)"
  by (cases x) auto

section \<open>Rows selected and updated by a condition\<close>

text \<open>What \<open>UPDATE ... WHERE\<close> and \<open>DELETE ... WHERE\<close> do to the rows of a table.\<close>

definition update_where :: "('r \<Rightarrow> bool) \<Rightarrow> ('r \<Rightarrow> 'r) \<Rightarrow> 'r list \<Rightarrow> 'r list" where
  "update_where p f rs = map (\<lambda>r. if p r then f r else r) rs"

definition delete_where :: "('r \<Rightarrow> bool) \<Rightarrow> 'r list \<Rightarrow> 'r list" where
  "delete_where p rs = filter (\<lambda>r. \<not> p r) rs"

text \<open>
  \<open>ORDER BY\<close> of a result: sorted by the key, rows with equal keys in whatever order the engine
  scanned them. The plan, and with it the scan order, may be another one for every query, also when
  only the \<open>LIMIT\<close> or the \<open>OFFSET\<close> differ: it is a parameter that depends on the number of the
  call, so every order the engine may give is covered.
\<close>

type_synonym 'r scan = "nat \<Rightarrow> 'r list \<Rightarrow> 'r list"

definition order_by :: "'r scan \<Rightarrow> nat \<Rightarrow> ('r \<Rightarrow> int) \<Rightarrow> 'r list \<Rightarrow> 'r list" where
  "order_by scan k key rs = sort_key key (scan k rs)"

definition scan_ok :: "'r scan \<Rightarrow> bool" where
  "scan_ok scan \<longleftrightarrow> (\<forall>k rs. mset (scan k rs) = mset rs)"

lemma scan_ok_id [simp]: "scan_ok (\<lambda>k rs. rs)"
  by (simp add: scan_ok_def)

lemma scan_ok_rev [simp]: "scan_ok (\<lambda>k. if p k then rev else (\<lambda>rs. rs))"
  by (simp add: scan_ok_def)

lemma scan_ok_mset: "scan_ok scan \<Longrightarrow> mset (scan k rs) = mset rs"
  by (simp add: scan_ok_def)

lemma mset_order_by [simp]: "scan_ok scan \<Longrightarrow> mset (order_by scan k key rs) = mset rs"
  by (simp add: order_by_def scan_ok_def)

lemma set_order_by [simp]: "scan_ok scan \<Longrightarrow> set (order_by scan k key rs) = set rs"
  by (metis mset_order_by set_mset_mset)

lemma length_order_by [simp]: "scan_ok scan \<Longrightarrow> length (order_by scan k key rs) = length rs"
  by (metis mset_order_by size_mset)

lemma sorted_order_by [simp]: "sorted (map key (order_by scan k key rs))"
  by (simp add: order_by_def)

text \<open>Without ties the order does not depend on the plan.\<close>

lemma order_by_distinct:
  assumes "scan_ok scan" and "distinct (map key rs)"
  shows "order_by scan k key rs = sort_key key rs"
proof -
  have "mset (scan k rs) = mset rs"
    using assms(1) by (rule scan_ok_mset)
  moreover from this have "set (scan k rs) = set rs"
    by (metis set_mset_mset)
  ultimately show ?thesis
    using assms(2) unfolding order_by_def
    by (intro sort_key_inj_key_eq) (simp_all add: distinct_map)
qed

lemma distinct_map_mset: "mset xs = mset ys \<Longrightarrow> distinct (map f xs) = distinct (map f ys)"
  by (metis mset_eq_imp_distinct_iff mset_map)

lemma distinct_order_by [simp]:
  "scan_ok scan \<Longrightarrow> distinct (map f (order_by scan k key rs)) = distinct (map f rs)"
  by (rule distinct_map_mset) simp

lemma sorted_split:
  assumes "sorted (map key xs)" and "x \<in> set (take n xs)" and "y \<in> set (drop n xs)"
  shows "key x \<le> key y"
proof -
  have "sorted (map key (take n xs) @ map key (drop n xs))"
    using assms(1) by (simp flip: map_append)
  with assms(2,3) show ?thesis by (auto simp: sorted_append)
qed

lemma set_take_or_drop: "x \<in> set xs \<Longrightarrow> x \<in> set (take n xs) \<or> x \<in> set (drop n xs)"
  by (metis Un_iff append_take_drop_id set_append)

lemma length_update_where [simp]: "length (update_where p f rs) = length rs"
  by (simp add: update_where_def)

lemma map_update_where:
  "(\<And>r. p r \<Longrightarrow> k (f r) = k r) \<Longrightarrow> map k (update_where p f rs) = map k rs"
  by (simp add: update_where_def)

lemma set_update_where:
  "set (update_where p f rs) = f ` {r \<in> set rs. p r} \<union> {r \<in> set rs. \<not> p r}"
  by (auto simp: update_where_def)

lemma update_where_none: "(\<And>r. r \<in> set rs \<Longrightarrow> \<not> p r) \<Longrightarrow> update_where p f rs = rs"
  by (simp add: update_where_def map_idI)

lemma filter_update_where_neg:
  assumes "\<And>r. p r \<Longrightarrow> q (f r) \<Longrightarrow> False"
  shows "filter q (update_where p f rs) = filter (\<lambda>r. q r \<and> \<not> p r) rs"
  using assms by (induction rs) (auto simp: update_where_def)

lemma filter_update_where_other:
  assumes "\<And>r. p r \<Longrightarrow> \<not> q r" and "\<And>r. p r \<Longrightarrow> \<not> q (f r)"
  shows "filter q (update_where p f rs) = filter q rs"
  using assms by (induction rs) (auto simp: update_where_def)

lemma delete_where_set [simp]: "set (delete_where p rs) = {r \<in> set rs. \<not> p r}"
  by (auto simp: delete_where_def)

lemma distinct_delete_where: "distinct (map k rs) \<Longrightarrow> distinct (map k (delete_where p rs))"
  by (simp add: delete_where_def distinct_map_filter)

text \<open>A row is found by its key when keys are unique.\<close>

lemma find_by_key:
  assumes "distinct (map k rs)" and "r \<in> set rs"
  shows "find (\<lambda>x. k x = k r) rs = Some r"
  using assms by (induction rs) (auto simp: image_iff)

lemma filter_by_key:
  assumes "distinct (map k rs)" and "r \<in> set rs"
  shows "filter (\<lambda>x. k x = k r) rs = [r]"
  using assms by (induction rs) (auto simp: filter_empty_conv image_iff)

text \<open>A field that an update of one element keeps is the same in every element.\<close>

lemma nth_list_update_field: "f y = f (xs ! i) \<Longrightarrow> f (xs[i := y] ! j) = f (xs ! j)"
  by (cases "i < length xs"; cases "i = j") (simp_all add: not_less list_update_beyond)

lemma find_None_key: "find (\<lambda>x. k x = i) rs = None \<longleftrightarrow> i \<notin> k ` set rs"
  by (auto simp: find_None_iff)

end
