(* ===== verification/GoErrors.thy ===== *)
theory GoErrors
  imports Prelude
begin

text \<open>
  Go's \<open>error\<close> values. \<open>nil\<close> is \<^term>\<open>None\<close>; a non-nil error is what \<open>errors.New\<close>, a
  \<open>fmt.Errorf\<close> with a \<open>%w\<close> verb, \<open>errors.Join\<close> or the package \<open>pkg/apperror\<close> made. A sentinel
  made by \<open>errors.New\<close> is compared by identity in Go; the texts of the sentinels of this program
  are pairwise different within a package, so the text stands for the pointer.
\<close>

type_synonym kind = "8 word"
type_synonym mapref = nat

text \<open>
  \<open>type Error struct\<close> of \<open>pkg/apperror/error.go\<close>. It is recursive through its cause, so it is a
  datatype with the fields as selectors; \<open>fields\<close> is a Go map, a reference into a heap.
\<close>

datatype 'e app_error = AppError
  (ae_kind: kind) (ae_code: string) (ae_message: string) (ae_op: string)
  (ae_err: "'e option") (ae_fields: "mapref option")

datatype goerr =
    ErrNew string
  | ErrWrap string goerr string
  | ErrJoin "goerr list"
  | ErrApp "goerr app_error"

text \<open>\<open>fmt.Errorf("s: %w", e)\<close>.\<close>

definition wrap :: "string \<Rightarrow> goerr \<Rightarrow> goerr" where
  "wrap s e = ErrWrap (s @ '': '') e ''''"

text \<open>\<open>errors.Join\<close>: the nil errors are dropped, and the result is nil when all are.\<close>

definition errors_join :: "goerr option list \<Rightarrow> goerr option" where
  "errors_join es = (case List.map_filter id es of [] \<Rightarrow> None | ys \<Rightarrow> Some (ErrJoin ys))"

text \<open>\<open>errors.As\<close> with a target of type \<open>*apperror.Error\<close>: the first one, depth first.\<close>

fun as_app :: "goerr \<Rightarrow> goerr app_error option"
  and as_app_list :: "goerr list \<Rightarrow> goerr app_error option" where
  "as_app (ErrNew s) = None"
| "as_app (ErrWrap p e q) = as_app e"
| "as_app (ErrJoin es) = as_app_list es"
| "as_app (ErrApp a) = Some a"
| "as_app_list [] = None"
| "as_app_list (e # es) = (case as_app e of Some a \<Rightarrow> Some a | None \<Rightarrow> as_app_list es)"

text \<open>\<open>errors.Is(err, target)\<close> for a sentinel target.\<close>

fun err_is :: "goerr \<Rightarrow> goerr \<Rightarrow> bool"
  and err_is_list :: "goerr list \<Rightarrow> goerr \<Rightarrow> bool"
  and err_is_cause :: "goerr option \<Rightarrow> goerr \<Rightarrow> bool" where
  "err_is (ErrNew s) t = (ErrNew s = t)"
| "err_is (ErrWrap p e q) t = (ErrWrap p e q = t \<or> err_is e t)"
| "err_is (ErrJoin es) t = (ErrJoin es = t \<or> err_is_list es t)"
| "err_is (ErrApp (AppError k c m opn cause fs)) t =
     (ErrApp (AppError k c m opn cause fs) = t \<or> err_is_cause cause t)"
| "err_is_list [] t = False"
| "err_is_list (e # es) t = (err_is e t \<or> err_is_list es t)"
| "err_is_cause None t = False"
| "err_is_cause (Some e) t = err_is e t"

text \<open>\<open>func (e *Error) Error() string\<close> of \<open>pkg/apperror/error.go\<close>.\<close>

definition app_error_string :: "'e app_error \<Rightarrow> string" where
  "app_error_string e = (if ae_op e \<noteq> '''' then ae_op e @ '': '' @ ae_message e else ae_message e)"

text \<open>\<open>err.Error()\<close>. \<open>Join\<close> puts the messages on lines of their own.\<close>

fun err_msg :: "goerr \<Rightarrow> string"
  and err_msg_list :: "goerr list \<Rightarrow> string" where
  "err_msg (ErrNew s) = s"
| "err_msg (ErrWrap p e q) = p @ err_msg e @ q"
| "err_msg (ErrJoin es) = err_msg_list es"
| "err_msg (ErrApp a) = app_error_string a"
| "err_msg_list [] = ''''"
| "err_msg_list [e] = err_msg e"
| "err_msg_list (e # es) = err_msg e @ [CHR 0x0A] @ err_msg_list es"

lemma as_app_wrap [simp]: "as_app (wrap s e) = as_app e"
  by (simp add: wrap_def)

lemma err_is_wrap: "err_is e t \<Longrightarrow> err_is (wrap s e) t"
  by (simp add: wrap_def)

lemma err_is_refl [simp]: "err_is e e"
proof (cases e)
  case (ErrApp a)
  then show ?thesis by (cases a) simp
qed auto

lemma err_msg_wrap [simp]: "err_msg (wrap s e) = s @ '': '' @ err_msg e"
  by (simp add: wrap_def)

lemma map_filter_id_Nil [simp]: "(List.map_filter id es = []) \<longleftrightarrow> (\<forall>e \<in> set es. e = None)"
  by (induction es) (auto split: option.splits)

lemma errors_join_None_iff [simp]: "errors_join es = None \<longleftrightarrow> (\<forall>e \<in> set es. e = None)"
  by (auto simp: errors_join_def split: list.splits simp flip: map_filter_id_Nil)

end
