(* ===== verification/AppError.thy ===== *)
theory AppError
  imports GoErrors
begin

text \<open>
  \<open>pkg/apperror/error.go\<close>: the application's error values. \<^term>\<open>new_error\<close> applies a list of
  functional options to a fresh error, the predicates classify a chain of wrapped errors by the
  first application error in it. Go maps are references, so the options run over a heap of maps.
\<close>

section \<open>Kinds\<close>

text \<open>The constants of \<open>type Kind uint8\<close>, in their \<open>iota\<close> order.\<close>

definition KindUnknown :: kind where "KindUnknown = 0"

definition KindValidation :: kind where "KindValidation = 1"

definition KindNotFound :: kind where "KindNotFound = 2"

definition KindConflict :: kind where "KindConflict = 3"

definition KindUnauthorized :: kind where "KindUnauthorized = 4"

definition KindForbidden :: kind where "KindForbidden = 5"

definition KindInternal :: kind where "KindInternal = 6"

definition KindExternal :: kind where "KindExternal = 7"

definition KindTimeout :: kind where "KindTimeout = 8"

lemmas kind_defs = KindUnknown_def KindValidation_def KindNotFound_def KindConflict_def
  KindUnauthorized_def KindForbidden_def KindInternal_def KindExternal_def KindTimeout_def

definition unknownErrorStr :: string where "unknownErrorStr = ''UNKNOWN_ERROR''"

definition kind_String :: "kind \<Rightarrow> string" where
  "kind_String k =
     (if k = KindUnknown then unknownErrorStr
      else if k = KindValidation then ''VALIDATION_ERROR''
      else if k = KindNotFound then ''NOT_FOUND''
      else if k = KindConflict then ''CONFLICT''
      else if k = KindUnauthorized then ''UNAUTHORIZED''
      else if k = KindForbidden then ''FORBIDDEN''
      else if k = KindInternal then ''INTERNAL_ERROR''
      else if k = KindExternal then ''EXTERNAL_SERVICE_ERROR''
      else if k = KindTimeout then ''TIMEOUT''
      else unknownErrorStr)"

section \<open>The heap of Go maps\<close>

record map_heap =
  cells :: "mapref \<Rightarrow> (string \<rightharpoonup> string) option"
  next_ref :: mapref

definition heap_ok :: "map_heap \<Rightarrow> bool" where
  "heap_ok h \<longleftrightarrow> (\<forall>r. cells h r \<noteq> None \<longrightarrow> r < next_ref h)"

definition deref :: "map_heap \<Rightarrow> mapref \<Rightarrow> (string \<rightharpoonup> string)" where
  "deref h r = (case cells h r of None \<Rightarrow> Map.empty | Some m \<Rightarrow> m)"

text \<open>\<open>make(map[string]string)\<close> and \<open>m[k] = v\<close>.\<close>

definition make_map :: "map_heap \<Rightarrow> map_heap \<times> mapref" where
  "make_map h =
     (h\<lparr>cells := (cells h)(next_ref h := Some Map.empty), next_ref := Suc (next_ref h)\<rparr>,
      next_ref h)"

definition put_map :: "map_heap \<Rightarrow> mapref \<Rightarrow> string \<Rightarrow> string \<Rightarrow> map_heap" where
  "put_map h r k v = h\<lparr>cells := (cells h)(r := Some ((deref h r)(k \<mapsto> v)))\<rparr>"

section \<open>Functional options\<close>

datatype app_option =
    WithOp string
  | WithCode string
  | WithCause "goerr option"
  | WithField string string
  | WithFields "mapref option"

text \<open>What the closure an option returns does to the error (and to the maps).\<close>

fun apply_option ::
  "app_option \<Rightarrow> map_heap \<times> goerr app_error \<Rightarrow> map_heap \<times> goerr app_error" where
  "apply_option (WithOp s) (h, AppError k c m p e fs) = (h, AppError k c m s e fs)"
| "apply_option (WithCode s) (h, AppError k c m p e fs) = (h, AppError k s m p e fs)"
| "apply_option (WithCause x) (h, AppError k c m p e fs) = (h, AppError k c m p x fs)"
| "apply_option (WithField key v) (h, AppError k c m p e fs) =
     (case fs of
        None \<Rightarrow> (let (h', r) = make_map h in (put_map h' r key v, AppError k c m p e (Some r)))
      | Some r \<Rightarrow> (put_map h r key v, AppError k c m p e (Some r)))"
| "apply_option (WithFields x) (h, AppError k c m p e fs) = (h, AppError k c m p e x)"

definition new_error ::
  "map_heap \<Rightarrow> kind \<Rightarrow> string \<Rightarrow> app_option list \<Rightarrow> map_heap \<times> goerr app_error" where
  "new_error h k msg opts =
     foldl (\<lambda>he opt. apply_option opt he) (h, AppError k (kind_String k) msg '''' None None) opts"

definition Validation where
  "Validation h msg opts = new_error h KindValidation msg opts"

definition NotFound where
  "NotFound h msg opts = new_error h KindNotFound msg opts"

definition Conflict where
  "Conflict h msg opts = new_error h KindConflict msg opts"

definition Unauthorized where
  "Unauthorized h msg opts = new_error h KindUnauthorized msg opts"

definition Forbidden where
  "Forbidden h msg opts = new_error h KindForbidden msg opts"

definition Internal where
  "Internal h msg opts = new_error h KindInternal msg opts"

definition External where
  "External h msg opts = new_error h KindExternal msg opts"

definition Timeout where
  "Timeout h msg opts = new_error h KindTimeout msg opts"

section \<open>Accessors\<close>

text \<open>\<open>Fields\<close> gives out the map of the error itself, not a copy.\<close>

definition error_Unwrap :: "goerr app_error \<Rightarrow> goerr option" where [simp]: "error_Unwrap e = ae_err e"

definition error_Kind :: "goerr app_error \<Rightarrow> kind" where [simp]: "error_Kind e = ae_kind e"

definition error_Code :: "goerr app_error \<Rightarrow> string" where [simp]: "error_Code e = ae_code e"

definition error_Message :: "goerr app_error \<Rightarrow> string" where [simp]: "error_Message e = ae_message e"

definition error_Op :: "goerr app_error \<Rightarrow> string" where [simp]: "error_Op e = ae_op e"

definition error_Fields :: "goerr app_error \<Rightarrow> mapref option" where [simp]: "error_Fields e = ae_fields e"

section \<open>Classification\<close>

definition get_kind :: "goerr option \<Rightarrow> kind" where
  "get_kind err =
     (case err of
        None \<Rightarrow> KindUnknown
      | Some e \<Rightarrow> (case as_app e of Some a \<Rightarrow> error_Kind a | None \<Rightarrow> KindUnknown))"

definition is_kind :: "goerr option \<Rightarrow> kind \<Rightarrow> bool" where
  "is_kind err k = (get_kind err = k)"

definition is_not_found :: "goerr option \<Rightarrow> bool" where
  "is_not_found err = is_kind err KindNotFound"

definition is_validation :: "goerr option \<Rightarrow> bool" where
  "is_validation err = is_kind err KindValidation"

definition is_conflict :: "goerr option \<Rightarrow> bool" where
  "is_conflict err = is_kind err KindConflict"

definition is_unauthorized :: "goerr option \<Rightarrow> bool" where
  "is_unauthorized err = is_kind err KindUnauthorized"

definition is_forbidden :: "goerr option \<Rightarrow> bool" where
  "is_forbidden err = is_kind err KindForbidden"

definition is_internal :: "goerr option \<Rightarrow> bool" where
  "is_internal err = is_kind err KindInternal"

definition is_external :: "goerr option \<Rightarrow> bool" where
  "is_external err = is_kind err KindExternal"

definition is_timeout :: "goerr option \<Rightarrow> bool" where
  "is_timeout err = is_kind err KindTimeout"

definition as_app_error :: "goerr option \<Rightarrow> goerr app_error option \<times> bool" where
  "as_app_error err =
     (case err of
        None \<Rightarrow> (None, False)
      | Some e \<Rightarrow> (case as_app e of Some a \<Rightarrow> (Some a, True) | None \<Rightarrow> (None, False)))"

lemmas classify_defs = is_kind_def is_not_found_def is_validation_def is_conflict_def
  is_unauthorized_def is_forbidden_def is_internal_def is_external_def is_timeout_def

section \<open>What the options build\<close>

text \<open>The value of the last option of one sort, if there is one.\<close>

definition last_option :: "('o \<Rightarrow> 'v option) \<Rightarrow> 'o list \<Rightarrow> 'v option" where
  "last_option f opts = foldl (\<lambda>acc x. case f x of Some v \<Rightarrow> Some v | None \<Rightarrow> acc) None opts"

lemma last_option_Nil [simp]: "last_option f [] = None"
  by (simp add: last_option_def)

lemma last_option_snoc [simp]:
  "last_option f (opts @ [x]) = (case f x of Some v \<Rightarrow> Some v | None \<Rightarrow> last_option f opts)"
  by (auto simp: last_option_def split: option.splits)

fun opt_op :: "app_option \<Rightarrow> string option" where
  "opt_op (WithOp s) = Some s"
| "opt_op _ = None"

fun opt_code :: "app_option \<Rightarrow> string option" where
  "opt_code (WithCode s) = Some s"
| "opt_code _ = None"

fun opt_cause :: "app_option \<Rightarrow> goerr option option" where
  "opt_cause (WithCause e) = Some e"
| "opt_cause _ = None"

fun opt_field :: "app_option \<Rightarrow> (string \<times> string) option" where
  "opt_field (WithField k v) = Some (k, v)"
| "opt_field _ = None"

fun opt_fields :: "app_option \<Rightarrow> mapref option option" where
  "opt_fields (WithFields r) = Some r"
| "opt_fields _ = None"

lemma new_error_Nil [simp]:
  "new_error h k msg [] = (h, AppError k (kind_String k) msg '''' None None)"
  by (simp add: new_error_def)

lemma new_error_snoc [simp]:
  "new_error h k msg (opts @ [x]) = apply_option x (new_error h k msg opts)"
  by (simp add: new_error_def)

lemma apply_option_kind [simp]: "ae_kind (snd (apply_option x he)) = ae_kind (snd he)"
  by (cases "(x, he)" rule: apply_option.cases) (auto simp: make_map_def split: option.splits)

lemma apply_option_message [simp]: "ae_message (snd (apply_option x he)) = ae_message (snd he)"
  by (cases "(x, he)" rule: apply_option.cases) (auto simp: make_map_def split: option.splits)

lemma apply_option_code:
  "ae_code (snd (apply_option x he)) = (case opt_code x of Some c \<Rightarrow> c | None \<Rightarrow> ae_code (snd he))"
  by (cases "(x, he)" rule: apply_option.cases) (auto simp: make_map_def split: option.splits)

lemma apply_option_op:
  "ae_op (snd (apply_option x he)) = (case opt_op x of Some s \<Rightarrow> s | None \<Rightarrow> ae_op (snd he))"
  by (cases "(x, he)" rule: apply_option.cases) (auto simp: make_map_def split: option.splits)

lemma apply_option_err:
  "ae_err (snd (apply_option x he)) = (case opt_cause x of Some e \<Rightarrow> e | None \<Rightarrow> ae_err (snd he))"
  by (cases "(x, he)" rule: apply_option.cases) (auto simp: make_map_def split: option.splits)

section \<open>Correctness of the constructors\<close>

text \<open>
  An error built by any constructor carries the kind and the message it was given whatever the
  options are; its code, operation and cause are those of the last option that sets them, and
  without one the code is the kind's own name and operation and cause are empty.
\<close>

theorem new_error_spec:
  "ae_kind (snd (new_error h k msg opts)) = k \<and>
   ae_message (snd (new_error h k msg opts)) = msg \<and>
   ae_code (snd (new_error h k msg opts)) =
     (case last_option opt_code opts of None \<Rightarrow> kind_String k | Some c \<Rightarrow> c) \<and>
   ae_op (snd (new_error h k msg opts)) =
     (case last_option opt_op opts of None \<Rightarrow> '''' | Some s \<Rightarrow> s) \<and>
   ae_err (snd (new_error h k msg opts)) =
     (case last_option opt_cause opts of None \<Rightarrow> None | Some e \<Rightarrow> e)"
  by (induction opts rule: rev_induct)
     (auto simp: apply_option_code apply_option_op apply_option_err split: option.splits)

text \<open>
  Which maps an error can write: its own fresh one, or one its caller passed with
  \<open>WithFields\<close>. The invariant follows the option list from the left.
\<close>

definition fields_owned :: "map_heap \<Rightarrow> mapref set \<Rightarrow> map_heap \<times> goerr app_error \<Rightarrow> bool" where
  "fields_owned h passed he \<longleftrightarrow>
     next_ref h \<le> next_ref (fst he) \<and>
     (\<forall>r. ae_fields (snd he) = Some r \<longrightarrow> r \<in> passed \<or> next_ref h \<le> r) \<and>
     (\<forall>r. r < next_ref h \<and> r \<notin> passed \<longrightarrow> cells (fst he) r = cells h r)"

definition passed_maps :: "app_option list \<Rightarrow> mapref set" where
  "passed_maps opts = {r. WithFields (Some r) \<in> set opts}"

lemma fields_owned_step:
  assumes "fields_owned h passed he" and "\<And>r. x = WithFields (Some r) \<Longrightarrow> r \<in> passed"
  shows "fields_owned h passed (apply_option x he)"
  using assms
  by (cases "(x, he)" rule: apply_option.cases)
     (auto simp: fields_owned_def make_map_def put_map_def split: option.splits)

lemma fields_owned_mono: "fields_owned h s he \<Longrightarrow> s \<subseteq> t \<Longrightarrow> fields_owned h t he"
  by (auto simp: fields_owned_def)

lemma new_error_owned: "fields_owned h (passed_maps opts) (new_error h k msg opts)"
proof (induction opts rule: rev_induct)
  case Nil
  show ?case by (simp add: fields_owned_def)
next
  case (snoc x opts)
  have "passed_maps opts \<subseteq> passed_maps (opts @ [x])"
    by (auto simp: passed_maps_def)
  with snoc have "fields_owned h (passed_maps (opts @ [x])) (new_error h k msg opts)"
    by (rule fields_owned_mono)
  then show ?case
    by (simp only: new_error_snoc) (rule fields_owned_step, auto simp: passed_maps_def)
qed

text \<open>
  C35. Building an error writes no map that existed before, except maps the caller handed over with
  \<open>WithFields\<close>: two errors built without sharing a map never share their fields.
\<close>

theorem new_error_frame:
  assumes "r < next_ref h" and "WithFields (Some r) \<notin> set opts"
  shows "cells (fst (new_error h k msg opts)) r = cells h r"
  using new_error_owned [of h opts k msg] assms by (auto simp: fields_owned_def passed_maps_def)

lemma new_error_frame_witness:
  "cells (fst (new_error \<lparr>cells = [0 \<mapsto> [''a'' \<mapsto> ''b'']], next_ref = 1\<rparr> KindConflict ''m''
     [WithField ''k'' ''v''])) 0 = Some [''a'' \<mapsto> ''b'']"
  using new_error_frame [of 0 "\<lparr>cells = [0 \<mapsto> [''a'' \<mapsto> ''b'']], next_ref = 1\<rparr>"
      "[WithField ''k'' ''v'']" KindConflict "''m''"]
  by simp

lemma deref_make_map [simp]: "deref (fst (make_map h)) (snd (make_map h)) = Map.empty"
  by (simp add: make_map_def deref_def)

lemma deref_put_map [simp]: "deref (put_map h r k v) r = (deref h r)(k \<mapsto> v)"
  by (simp add: put_map_def deref_def)

lemma map_filter_snoc [simp]:
  "List.map_filter f (xs @ [x]) =
     List.map_filter f xs @ (case f x of None \<Rightarrow> [] | Some y \<Rightarrow> [y])"
  by (simp add: List.map_filter_def split: option.splits)

text \<open>The map an error ends up with, read through the heap.\<close>

definition error_fields :: "map_heap \<times> goerr app_error \<Rightarrow> (string \<rightharpoonup> string) option" where
  "error_fields he = map_option (deref (fst he)) (ae_fields (snd he))"

lemma error_fields_step:
  assumes "opt_fields x = None"
  shows "error_fields (apply_option x he) =
    (case opt_field x of
       None \<Rightarrow> error_fields he
     | Some (k, v) \<Rightarrow> Some ((case error_fields he of None \<Rightarrow> Map.empty | Some m \<Rightarrow> m)(k \<mapsto> v)))"
  using assms
  by (cases "(x, he)" rule: apply_option.cases)
     (auto simp: error_fields_def Let_def case_prod_unfold split: option.splits)

text \<open>
  Without \<open>WithFields\<close>, an error has no field map at all when no field was set (so the
  response omits it), and otherwise exactly the pairs that were set, a later one winning.
\<close>

theorem new_error_fields:
  assumes "list_all (\<lambda>x. opt_fields x = None) opts"
  shows "error_fields (new_error h k msg opts) =
    (case List.map_filter opt_field opts of [] \<Rightarrow> None | ps \<Rightarrow> Some (map_of (rev ps)))"
  using assms
proof (induction opts rule: rev_induct)
  case Nil
  show ?case by (simp add: error_fields_def List.map_filter_def)
next
  case (snoc x opts)
  then have "error_fields (new_error h k msg opts) =
      (case List.map_filter opt_field opts of [] \<Rightarrow> None | ps \<Rightarrow> Some (map_of (rev ps)))"
    and "opt_fields x = None"
    by auto
  then show ?case
    by (auto simp: error_fields_step split: option.splits list.splits)
qed

lemma new_error_fields_witness:
  "error_fields (new_error \<lparr>cells = Map.empty, next_ref = 0\<rparr> KindValidation ''bad''
     [WithField ''a'' ''1'', WithOp ''op'', WithField ''a'' ''2'']) = Some [''a'' \<mapsto> ''2'']"
  using new_error_fields [of "[WithField ''a'' ''1'', WithOp ''op'', WithField ''a'' ''2'']"
      "\<lparr>cells = Map.empty, next_ref = 0\<rparr>" KindValidation "''bad''"]
  by (simp add: List.map_filter_simps)

section \<open>Classification looks through wrapping\<close>

definition wraps :: "string list \<Rightarrow> goerr \<Rightarrow> goerr" where
  "wraps ps e = foldr wrap ps e"

lemma as_app_wraps [simp]: "as_app (wraps ps e) = as_app e"
  by (induction ps) (auto simp: wraps_def)

lemma err_is_wraps: "err_is e t \<Longrightarrow> err_is (wraps ps e) t"
  by (induction ps) (auto simp: wraps_def err_is_wrap)

definition specific_kinds :: "kind list" where
  "specific_kinds = [KindNotFound, KindValidation, KindConflict, KindUnauthorized, KindForbidden,
     KindInternal, KindExternal, KindTimeout]"

lemma distinct_specific_kinds: "distinct specific_kinds"
  by (simp add: specific_kinds_def kind_defs)

lemma predicates_by_kind:
  "[is_not_found, is_validation, is_conflict, is_unauthorized, is_forbidden, is_internal,
    is_external, is_timeout] = map (\<lambda>k err. is_kind err k) specific_kinds"
  by (simp add: specific_kinds_def classify_defs fun_eq_iff)

lemma length_filter_eq: "distinct ks \<Longrightarrow> length (filter (\<lambda>k. x = k) ks) = (if x \<in> set ks then 1 else 0)"
  by (induction ks) auto

text \<open>
  However many times an application error is wrapped with \<open>%w\<close> on its way up, each of the
  predicates \<open>Is*\<close> answers for the kind it was built with, \<open>AsAppError\<close> finds the error itself,
  exactly one of the eight predicates holds for the eight specific kinds and none for any other byte.
\<close>

theorem classify_wrapped:
  "is_kind (Some (wraps ps (ErrApp (snd (new_error h k msg opts))))) k' = (k = k') \<and>
   as_app_error (Some (wraps ps (ErrApp (snd (new_error h k msg opts))))) =
     (Some (snd (new_error h k msg opts)), True) \<and>
   length (filter (\<lambda>p. p (Some (wraps ps (ErrApp (snd (new_error h k msg opts))))))
     [is_not_found, is_validation, is_conflict, is_unauthorized, is_forbidden, is_internal,
      is_external, is_timeout]) = (if k \<in> set specific_kinds then 1 else 0)"
proof -
  have k: "get_kind (Some (wraps ps (ErrApp (snd (new_error h k msg opts))))) = k"
    by (simp add: get_kind_def new_error_spec)
  show ?thesis
    unfolding predicates_by_kind
    using k by (simp add: is_kind_def as_app_error_def filter_map comp_def length_filter_eq
        distinct_specific_kinds)
qed

end
