(* ===== verification/HttpErrors.thy ===== *)
theory HttpErrors
  imports AppError
begin

text \<open>
  \<open>internal/controller/http/v1/error.go\<close> and \<open>response/error.go\<close>: how an error becomes an HTTP
  response. The answer of \<open>ctx.Status(s).JSON(b)\<close> is Fiber's; what the handler decides is the
  pair of the status and the body it hands to Fiber.
\<close>

record response_error =
  resp_code :: string
  resp_message :: string
  resp_details :: "(string \<rightharpoonup> string) option"

text \<open>The body of the older handlers; no handler builds it any more.\<close>

record legacy_error =
  legacy_Error :: string

definition KindToHTTPStatus :: "kind \<Rightarrow> nat" where
  "KindToHTTPStatus k =
     (if k = KindUnknown \<or> k = KindInternal then 500
      else if k = KindValidation then 400
      else if k = KindNotFound then 404
      else if k = KindConflict then 409
      else if k = KindUnauthorized then 401
      else if k = KindForbidden then 403
      else if k = KindTimeout then 504
      else if k = KindExternal then 502
      else 500)"

definition ErrorResponse :: "map_heap \<Rightarrow> goerr option \<Rightarrow> nat \<times> response_error" where
  "ErrorResponse h err =
     (let (app_err, ok) = as_app_error err in
      if \<not> ok then
        (500, \<lparr>resp_code = kind_String KindInternal,
               resp_message = ''An unexpected error occurred'',
               resp_details = None\<rparr>)
      else
        (let e = the app_err; status = KindToHTTPStatus (error_Kind e) in
         (status, \<lparr>resp_code = error_Code e,
                   resp_message = error_Message e,
                   resp_details = map_option (deref h) (error_Fields e)\<rparr>)))"

definition ValidationError :: "map_heap \<Rightarrow> string \<Rightarrow> nat \<times> response_error" where
  "ValidationError h msg =
     (let (h', e) = Validation h msg [] in ErrorResponse h' (Some (ErrApp e)))"

lemma ErrorResponse_app:
  "as_app e = Some a \<Longrightarrow> ErrorResponse h (Some e) =
     (KindToHTTPStatus (ae_kind a),
      \<lparr>resp_code = ae_code a, resp_message = ae_message a,
       resp_details = map_option (deref h) (ae_fields a)\<rparr>)"
  by (simp add: ErrorResponse_def as_app_error_def)

lemma ErrorResponse_other:
  "as_app e = None \<Longrightarrow> ErrorResponse h (Some e) =
     (500, \<lparr>resp_code = ''INTERNAL_ERROR'', resp_message = ''An unexpected error occurred'',
            resp_details = None\<rparr>)"
  by (simp add: ErrorResponse_def as_app_error_def kind_String_def kind_defs)

text \<open>The client-side kinds are those answered with a 4xx status.\<close>

definition client_kinds :: "kind list" where
  "client_kinds = [KindValidation, KindNotFound, KindConflict, KindUnauthorized, KindForbidden]"

lemma KindToHTTPStatus_client:
  "(400 \<le> KindToHTTPStatus k \<and> KindToHTTPStatus k < 500) = (k \<in> set client_kinds)"
  by (simp add: KindToHTTPStatus_def client_kinds_def kind_defs)

lemma KindToHTTPStatus_server:
  "k \<notin> set client_kinds \<Longrightarrow> KindToHTTPStatus k \<in> {500, 502, 504}"
  by (simp add: KindToHTTPStatus_def client_kinds_def)



text \<open>
  Nothing internal leaks: the response is the same whatever the operation and the cause of an
  application error, whatever text it was wrapped with, and every error without an application
  error in its chain gets one fixed response that holds none of its text.
\<close>

theorem ErrorResponse_no_leak:
  "ErrorResponse h (Some (wraps ps (ErrApp (AppError k c m op1 cause1 fs)))) =
     ErrorResponse h (Some (wraps qs (ErrApp (AppError k c m op2 cause2 fs)))) \<and>
   (as_app e = None \<longrightarrow> ErrorResponse h (Some e) =
     (500, \<lparr>resp_code = ''INTERNAL_ERROR'', resp_message = ''An unexpected error occurred'',
            resp_details = None\<rparr>))"
  by (simp add: ErrorResponse_other ErrorResponse_app)

lemma ErrorResponse_no_leak_witness:
  "ErrorResponse \<lparr>cells = Map.empty, next_ref = 0\<rparr>
     (Some (wrap ''UserRepo.GetByID'' (ErrNew ''password=hunter2''))) =
   (500, \<lparr>resp_code = ''INTERNAL_ERROR'', resp_message = ''An unexpected error occurred'',
          resp_details = None\<rparr>)"
  using ErrorResponse_no_leak [where e = "wrap ''UserRepo.GetByID'' (ErrNew ''password=hunter2'')"
      and h = "\<lparr>cells = Map.empty, next_ref = 0\<rparr>"]
  by simp

end
