(* ===== verification/Entities.thy ===== *)
theory Entities
  imports GoErrors
begin

text \<open>
  The domain layer, \<open>internal/entity/event\<close> and \<open>internal/entity/notification\<close>: the structs as
  records with the fields in the order of the code, a nil pointer as \<^term>\<open>None\<close>, a Go map as a
  partial function under an option (nil or not), and the few operations the layer has.
\<close>

section \<open>Domain events\<close>

text \<open>\<open>type Base struct\<close> and its methods.\<close>

record base_event =
  ev_id :: uuid
  ev_type :: string
  ev_aggr_id :: string
  ev_aggr_type :: string
  ev_timestamp :: time

definition EventID :: "base_event \<Rightarrow> uuid" where [simp]: "EventID b = ev_id b"

definition EventType :: "base_event \<Rightarrow> string" where [simp]: "EventType b = ev_type b"

definition AggregateID :: "base_event \<Rightarrow> string" where [simp]: "AggregateID b = ev_aggr_id b"

definition AggregateType :: "base_event \<Rightarrow> string" where [simp]: "AggregateType b = ev_aggr_type b"

definition OccurredAt :: "base_event \<Rightarrow> time" where [simp]: "OccurredAt b = ev_timestamp b"

text \<open>
  \<open>type Event interface\<close>: what its six methods return; an event of the domain is a \<open>Base\<close> with a payload.
\<close>

record 'p event_interface =
  if_EventID :: uuid
  if_EventType :: string
  if_AggregateID :: string
  if_AggregateType :: string
  if_OccurredAt :: time
  if_Payload :: 'p

definition as_event :: "base_event \<Rightarrow> 'p \<Rightarrow> 'p event_interface" where
  "as_event b payload = \<lparr>if_EventID = EventID b, if_EventType = EventType b, if_AggregateID = AggregateID b,
     if_AggregateType = AggregateType b, if_OccurredAt = OccurredAt b, if_Payload = payload\<rparr>"

text \<open>\<open>NewBase\<close>; the identifier and the instant come from \<open>uuid.New\<close> and \<open>time.Now\<close>.\<close>

definition new_base :: "uuid \<Rightarrow> time \<Rightarrow> string \<Rightarrow> string \<Rightarrow> string \<Rightarrow> base_event" where
  "new_base u now event_type aggregate_type aggregate_id =
     \<lparr>ev_id = u, ev_type = event_type, ev_aggr_id = aggregate_id,
      ev_aggr_type = aggregate_type, ev_timestamp = now\<rparr>"

text \<open>\<open>type RaisesEvents struct\<close>: an aggregate's pending events.\<close>

type_synonym raises_events = "base_event list"

definition raise_event :: "base_event \<Rightarrow> raises_events \<Rightarrow> raises_events" where
  "raise_event e r = r @ [e]"

definition events_of :: "raises_events \<Rightarrow> base_event list" where
  "events_of r = r"

definition clear_events :: "raises_events \<Rightarrow> raises_events" where
  "clear_events r = []"

text \<open>\<open>type Aggregate interface\<close>, and how a struct that embeds \<open>RaisesEvents\<close> implements it.\<close>

record 'a aggregate =
  ag_Events :: "'a \<Rightarrow> base_event list"
  ag_ClearEvents :: "'a \<Rightarrow> 'a"

definition raising_aggregate :: "raises_events aggregate" where
  "raising_aggregate = \<lparr>ag_Events = events_of, ag_ClearEvents = clear_events\<rparr>"

record outbox_event =
  oe_id :: uuid
  oe_aggregate_type :: string
  oe_aggregate_id :: string
  oe_event_type :: string
  oe_payload :: bytes
  oe_created_at :: time
  oe_published_at :: "time option"
  oe_retry_count :: int
  oe_last_error :: "string option"

definition new_outbox_event :: "base_event \<Rightarrow> bytes \<Rightarrow> outbox_event" where
  "new_outbox_event e payload =
     \<lparr>oe_id = EventID e, oe_aggregate_type = AggregateType e, oe_aggregate_id = AggregateID e,
      oe_event_type = EventType e, oe_payload = payload, oe_created_at = OccurredAt e,
      oe_published_at = None, oe_retry_count = 0, oe_last_error = None\<rparr>"

section \<open>Notifications\<close>

text \<open>\<open>type Channel string\<close>, \<open>type Status string\<close> and \<open>type Priority string\<close> with their constants.\<close>

definition ChannelEmail :: string where "ChannelEmail = ''email''"

definition ChannelSMS :: string where "ChannelSMS = ''sms''"

definition ChannelPush :: string where "ChannelPush = ''push''"

definition ChannelInApp :: string where "ChannelInApp = ''in_app''"

definition StatusPending :: string where "StatusPending = ''pending''"

definition StatusSent :: string where "StatusSent = ''sent''"

definition StatusFailed :: string where "StatusFailed = ''failed''"

definition StatusDelivered :: string where "StatusDelivered = ''delivered''"

definition StatusRead :: string where "StatusRead = ''read''"

definition PriorityLow :: string where "PriorityLow = ''low''"

definition PriorityNormal :: string where "PriorityNormal = ''normal''"

definition PriorityHigh :: string where "PriorityHigh = ''high''"

type_synonym data_map = "(string \<rightharpoonup> string) option"

record attachment =
  at_filename :: string
  at_content_type :: string
  at_data :: bytes

record email_message =
  em_user_id :: uuid
  em_to :: "string list"
  em_cc :: "string list"
  em_bcc :: "string list"
  em_subject :: string
  em_body :: string
  em_html_body :: string
  em_attachments :: "attachment list"

record sms_message =
  sm_to :: string
  sm_body :: string

record push_message =
  pm_user_id :: uuid
  pm_title :: string
  pm_body :: string
  pm_data :: data_map
  pm_image_url :: string
  pm_badge :: "int option"
  pm_sound :: string

record in_app_message =
  im_user_id :: uuid
  im_type :: string
  im_title :: string
  im_body :: string
  im_data :: data_map
  im_action_url :: string
  im_image_url :: string

record notification =
  nt_id :: uuid
  nt_user_id :: uuid
  nt_channel :: string
  nt_type :: string
  nt_title :: string
  nt_body :: string
  nt_data :: data_map
  nt_priority :: string
  nt_status :: string
  nt_scheduled_at :: "time option"
  nt_sent_at :: "time option"
  nt_read_at :: "time option"
  nt_created_at :: time
  nt_updated_at :: time

record in_app_notification =
  n_id :: uuid
  n_user_id :: uuid
  n_type :: string
  n_title :: string
  n_body :: string
  n_data :: data_map
  n_action_url :: "string option"
  n_image_url :: "string option"
  n_read :: bool
  n_read_at :: "time option"
  n_created_at :: time

record user_preferences =
  up_user_id :: uuid
  up_email_enabled :: bool
  up_sms_enabled :: bool
  up_push_enabled :: bool
  up_in_app_enabled :: bool
  up_quiet_start :: "string option"
  up_quiet_end :: "string option"
  up_updated_at :: time

record delivery_log =
  dl_id :: uuid
  dl_notification_id :: uuid
  dl_user_id :: uuid
  dl_channel :: string
  dl_status :: string
  dl_provider :: string
  dl_provider_msg_id :: "string option"
  dl_error_message :: "string option"
  dl_attempts :: int
  dl_created_at :: time
  dl_delivered_at :: "time option"

record push_token =
  pt_id :: uuid
  pt_user_id :: uuid
  pt_token :: string
  pt_platform :: string
  pt_device_id :: string
  pt_active :: bool
  pt_created_at :: time
  pt_updated_at :: time

end
