(* ===== verification/Database.thy ===== *)
theory Database
  imports Entities
begin

text \<open>
  The PostgreSQL database behind \<open>pkg/postgres\<close> and the repositories of
  \<open>internal/repo/persistent\<close>. The tables are lists of rows with the columns of
  \<open>migrations/20251208132516_outbox_events.up.sql\<close> and
  \<open>migrations/20251208145901_notifications.up.sql\<close>. What the code cannot control is a field that
  answers by the number of the call: how the builder, the driver and the server answer, the clock
  and the generator of identifiers. A theorem over all states therefore covers every schedule of
  failures. \<open>tick\<close> numbers the calls; \<open>max_slice\<close> is the longest slice the runtime can allocate,
  \<open>read_time\<close> the text a \<open>TIME\<close> column gives back for the text written to it, and \<open>jsonb\<close> the document
  a \<open>JSONB\<close> column gives back for the one written to it (spaces, the order of the keys and repeated
  keys are not kept). A map of strings has no such freedom: it is read back with its entries, its
  strings being UTF-8 text, as for every other text column. An instant is cut to the microseconds
  of its column when it is written (\<open>column_time\<close>), while the Go struct keeps its nanoseconds.
\<close>

text \<open>
  A statement is executed, refused (nothing happened: no connection, a cancelled context, a value
  the column does not take), or executed with its reply lost, which the caller sees as an error.
\<close>

datatype exec_answer = Executed | Refused goerr | LostReply goerr

text \<open>
  A query fails at once, breaks off after some rows (\<open>rows.Next\<close> is then false and \<open>rows.Err\<close>
  not nil), meets a row that \<open>Scan\<close> rejects, or gives all its rows.
\<close>

datatype query_answer = AllRows | QueryFailed goerr | RowsBroken nat goerr | ScanFailed nat goerr

record preference_row = user_preferences +
  up_created_at :: time

record pg =
  outbox :: "outbox_event list"
  notifications :: "in_app_notification list"
  preferences :: "preference_row list"
  push_tokens :: "push_token list"
  delivery_logs :: "delivery_log list"
  tick :: nat
  build_answer :: "nat \<Rightarrow> goerr option"
  exec_answer :: "nat \<Rightarrow> exec_answer"
  query_answer :: "nat \<Rightarrow> query_answer"
  clock :: "nat \<Rightarrow> time"
  new_uuid :: "nat \<Rightarrow> uuid"
  max_slice :: int
  read_time :: "string \<Rightarrow> string"
  jsonb :: "bytes \<Rightarrow> bytes"
  scan_outbox :: "outbox_event scan"
  scan_notifications :: "in_app_notification scan"
  scan_push_tokens :: "push_token scan"
  scan_delivery_logs :: "delivery_log scan"

definition advance :: "'a pg_scheme \<Rightarrow> 'a pg_scheme" where
  "advance w = w\<lparr>tick := Suc (tick w)\<rparr>"

text \<open>\<open>time.Now().UTC()\<close> and \<open>uuid.New()\<close> during the current call.\<close>

definition now :: "'a pg_scheme \<Rightarrow> time" where
  "now w = clock w (tick w)"

definition fresh_uuid :: "'a pg_scheme \<Rightarrow> uuid" where
  "fresh_uuid w = new_uuid w (tick w)"

section \<open>Statements\<close>

definition pgx_ErrNoRows :: goerr where
  "pgx_ErrNoRows = ErrNew ''no rows in result set''"

definition unique_violation :: goerr where
  "unique_violation = ErrNew ''duplicate key value violates unique constraint''"

definition integer_out_of_range :: goerr where
  "integer_out_of_range = ErrNew ''integer out of range''"

text \<open>\<open>r.Builder. ... .ToSql()\<close>: the builder's error, if any; then the driver is not called.\<close>

definition with_sql ::
  "string \<Rightarrow> ('a pg_scheme \<Rightarrow> goerr option \<times> 'a pg_scheme) \<Rightarrow>
   'a pg_scheme \<Rightarrow> goerr option \<times> 'a pg_scheme" where
  "with_sql site run w =
     (case build_answer w (tick w) of
        Some e \<Rightarrow> (Some (wrap site e), advance w)
      | None \<Rightarrow> run w)"

text \<open>
  \<open>r.Pool.Exec\<close>: a statement either changes the tables or is rejected by a constraint, as a whole.
  An error is returned wrapped with the name of the call.
\<close>

definition pg_exec ::
  "string \<Rightarrow> ('a pg_scheme \<Rightarrow> goerr + 'a pg_scheme) \<Rightarrow>
   'a pg_scheme \<Rightarrow> goerr option \<times> 'a pg_scheme" where
  "pg_exec site stmt w =
     (let w' = advance w in
      case exec_answer w (tick w) of
        Executed \<Rightarrow> (case stmt w' of Inl e \<Rightarrow> (Some (wrap site e), w') | Inr w'' \<Rightarrow> (None, w''))
      | Refused e \<Rightarrow> (Some (wrap site e), w')
      | LostReply e \<Rightarrow>
          (Some (wrap site e), case stmt w' of Inl _ \<Rightarrow> w' | Inr w'' \<Rightarrow> w''))"

text \<open>
  \<open>INSERT\<close> into a table with a unique column (or columns): all rows or none.
\<close>

definition insert_rows :: "('r \<Rightarrow> 'k) \<Rightarrow> 'r list \<Rightarrow> 'r list \<Rightarrow> goerr + 'r list" where
  "insert_rows key new rs =
     (if distinct (map key (rs @ new)) then Inr (rs @ new) else Inl unique_violation)"

section \<open>Queries\<close>

text \<open>
  The cursor of \<open>r.Pool.Query\<close>: what each \<open>rows.Next\<close> / \<open>rows.Scan\<close> pair gives, and \<open>rows.Err\<close>
  at the end.
\<close>

definition pg_query ::
  "'r list \<Rightarrow> 'a pg_scheme \<Rightarrow> (goerr + (goerr + 'r) list \<times> goerr option) \<times> 'a pg_scheme" where
  "pg_query rows w =
     (case query_answer w (tick w) of
        AllRows \<Rightarrow> Inr (map Inr rows, None)
      | QueryFailed e \<Rightarrow> Inl e
      | RowsBroken n e \<Rightarrow> Inr (map Inr (take n rows), Some e)
      | ScanFailed n e \<Rightarrow> Inr (map Inr (take n rows) @ [Inl e], None), advance w)"

text \<open>The loop \<open>for rows.Next() { rows.Scan(...); xs = append(xs, x) }\<close>.\<close>

fun scan_loop :: "(goerr + 'r) list \<Rightarrow> 'r list \<Rightarrow> goerr + 'r list" where
  "scan_loop [] acc = Inr acc"
| "scan_loop (Inl e # rs) acc = Inl e"
| "scan_loop (Inr r # rs) acc = scan_loop rs (acc @ [r])"

text \<open>
  The list queries of the repositories but the outbox: \<open>rows.Err\<close> is not looked at, so the rows
  before a broken connection are returned as the result.
\<close>

definition query_list ::
  "string \<Rightarrow> 'r list \<Rightarrow> 'a pg_scheme \<Rightarrow> (goerr + 'r list) \<times> 'a pg_scheme" where
  "query_list site result w =
     (case build_answer w (tick w) of
        Some e \<Rightarrow> (Inl (wrap (site @ '' - r.Builder'') e), advance w)
      | None \<Rightarrow>
        (case pg_query result w of
           (Inl e, w') \<Rightarrow> (Inl (wrap (site @ '' - r.Pool.Query'') e), w')
         | (Inr (rows, rows_err), w') \<Rightarrow>
             (case scan_loop rows [] of
                Inl e \<Rightarrow> (Inl (wrap (site @ '' - rows.Scan'') e), w')
              | Inr xs \<Rightarrow> (Inr xs, w'))))"

text \<open>\<open>r.Pool.QueryRow(...).Scan(...)\<close>: the first row, or \<open>pgx.ErrNoRows\<close>.\<close>

definition pg_query_row :: "'r list \<Rightarrow> 'a pg_scheme \<Rightarrow> (goerr + 'r) \<times> 'a pg_scheme" where
  "pg_query_row rows w =
     (case query_answer w (tick w) of
        AllRows \<Rightarrow> (case rows of [] \<Rightarrow> Inl pgx_ErrNoRows | r # _ \<Rightarrow> Inr r)
      | QueryFailed e \<Rightarrow> Inl e
      | RowsBroken n e \<Rightarrow> Inl e
      | ScanFailed n e \<Rightarrow> Inl e, advance w)"

section \<open>A database that answers every call\<close>

text \<open>The states in which every later call is executed and every query gives all its rows.\<close>

definition healthy :: "'a pg_scheme \<Rightarrow> bool" where
  "healthy w \<longleftrightarrow>
     (\<forall>n. build_answer w n = None) \<and> (\<forall>n. exec_answer w n = Executed) \<and>
     (\<forall>n. query_answer w n = AllRows)"

lemma healthy_answers:
  assumes "healthy w"
  shows "build_answer w n = None" "exec_answer w n = Executed" "query_answer w n = AllRows"
  using assms by (auto simp: healthy_def)

lemma healthy_advance [simp]: "healthy (advance w) = healthy w"
  by (simp add: healthy_def advance_def)

lemma healthy_tables [simp]:
  "healthy (w\<lparr>notifications := ns\<rparr>) = healthy w" "healthy (w\<lparr>preferences := ps\<rparr>) = healthy w"
  "healthy (w\<lparr>push_tokens := ts\<rparr>) = healthy w" "healthy (w\<lparr>delivery_logs := ls\<rparr>) = healthy w"
  "healthy (w\<lparr>outbox := es\<rparr>) = healthy w"
  by (simp_all add: healthy_def)

definition scans_ok :: "'a pg_scheme \<Rightarrow> bool" where
  "scans_ok w \<longleftrightarrow> scan_ok (scan_outbox w) \<and> scan_ok (scan_notifications w) \<and>
     scan_ok (scan_push_tokens w) \<and> scan_ok (scan_delivery_logs w)"

text \<open>The part of the state no call changes: the answers still to come and the scan orders.\<close>

definition same_env :: "'a pg_scheme \<Rightarrow> 'a pg_scheme \<Rightarrow> bool" where
  "same_env w w' \<longleftrightarrow>
     build_answer w' = build_answer w \<and> exec_answer w' = exec_answer w \<and>
     query_answer w' = query_answer w \<and> clock w' = clock w \<and> new_uuid w' = new_uuid w \<and>
     max_slice w' = max_slice w \<and> read_time w' = read_time w \<and> jsonb w' = jsonb w \<and>
     scan_outbox w' = scan_outbox w \<and>
     scan_notifications w' = scan_notifications w \<and>
     scan_push_tokens w' = scan_push_tokens w \<and> scan_delivery_logs w' = scan_delivery_logs w"

lemma same_env_refl [simp]: "same_env w w"
  by (simp add: same_env_def)

lemma same_env_trans: "same_env u v \<Longrightarrow> same_env v w \<Longrightarrow> same_env u w"
  by (simp add: same_env_def)

lemma same_env_advance [simp]: "same_env w (advance w)"
  by (simp add: same_env_def advance_def)

lemma same_env_healthy: "same_env w w' \<Longrightarrow> healthy w' = healthy w"
  by (simp add: same_env_def healthy_def)

lemma same_env_scans_ok: "same_env w w' \<Longrightarrow> scans_ok w' = scans_ok w"
  by (simp add: same_env_def scans_ok_def)

lemma advance_sel [simp]:
  "outbox (advance w) = outbox w" "notifications (advance w) = notifications w"
  "preferences (advance w) = preferences w" "push_tokens (advance w) = push_tokens w"
  "delivery_logs (advance w) = delivery_logs w" "tick (advance w) = Suc (tick w)"
  "pg.more (advance w) = pg.more w"
  by (simp_all add: advance_def)

lemma scan_loop_all [simp]: "scan_loop (map Inr rows) acc = Inr (acc @ rows)"
  by (induction rows arbitrary: acc) auto

lemma scan_loop_broken [simp]: "scan_loop (map Inr rows @ Inl e # cs) acc = Inl e"
  by (induction rows arbitrary: acc) auto

text \<open>The two outcomes of a statement, whatever the server answered.\<close>

lemma pg_exec_cases:
  assumes "pg_exec f stmt w = (r, w')"
  obtains (ok) w'' where "r = None" "stmt (advance w) = Inr w''" "w' = w''"
  | (refused) e where "r = Some e" "w' = advance w"
  | (lost) e w'' where "r = Some e" "stmt (advance w) = Inr w''" "w' = w''"
  using assms
  by (auto simp: pg_exec_def Let_def split: exec_answer.splits sum.splits)

lemma pg_exec_healthy:
  "healthy w \<Longrightarrow> pg_exec f stmt w =
     (case stmt (advance w) of Inl e \<Rightarrow> (Some (wrap f e), advance w) | Inr w' \<Rightarrow> (None, w'))"
  by (simp add: pg_exec_def healthy_def Let_def)

lemma with_sql_healthy [simp]: "healthy w \<Longrightarrow> with_sql f run w = run w"
  by (simp add: with_sql_def healthy_def)

lemma pg_query_healthy: "healthy w \<Longrightarrow> pg_query rows w = (Inr (map Inr rows, None), advance w)"
  by (simp add: pg_query_def healthy_def)

lemma pg_query_row_healthy:
  "healthy w \<Longrightarrow> pg_query_row rows w =
     (case rows of [] \<Rightarrow> Inl pgx_ErrNoRows | r # _ \<Rightarrow> Inr r, advance w)"
  by (simp add: pg_query_row_def healthy_def)

lemma pg_query_state [simp]: "snd (pg_query rows w) = advance w"
  by (simp add: pg_query_def)

lemma pg_query_row_state [simp]: "snd (pg_query_row rows w) = advance w"
  by (simp add: pg_query_row_def)

text \<open>What a statement does when it runs carries over to the call.\<close>

lemma pg_exec_invariant:
  assumes "P (advance w)" and "\<And>w''. stmt (advance w) = Inr w'' \<Longrightarrow> P w''"
  shows "P (snd (pg_exec f stmt w))"
  using assms by (auto simp: pg_exec_def Let_def split: exec_answer.splits sum.splits)

lemma with_sql_invariant:
  assumes "P (advance w)" and "P (snd (run w))"
  shows "P (snd (with_sql f run w))"
  using assms by (auto simp: with_sql_def split: option.splits)


text \<open>What a list query returns: its rows, or the part before the connection broke.\<close>

lemma query_list_cases:
  assumes "query_list site rs w = (Inr xs, w')"
  obtains (all) "xs = rs" | (cut) n e where "query_answer w (tick w) = RowsBroken n e" "xs = take n rs"
  using assms
  by (auto simp: query_list_def pg_query_def split: option.splits query_answer.splits sum.splits)

lemma query_list_state [simp]: "snd (query_list site rs w) = advance w"
  by (simp add: query_list_def pg_query_def split: option.splits query_answer.splits sum.splits)

lemma query_list_healthy: "healthy w \<Longrightarrow> query_list site rs w = (Inr rs, advance w)"
  by (simp add: query_list_def pg_query_healthy healthy_def pg_query_def)

lemma query_list_broken:
  assumes "build_answer w (tick w) = None" and "query_answer w (tick w) = RowsBroken n e"
  shows "query_list site rs w = (Inr (take n rs), advance w)"
  using assms by (simp add: query_list_def pg_query_def)

section \<open>A concrete database\<close>

text \<open>
  An empty database that answers every call, for the examples of the other theories. Its clock goes
  on by a microsecond with every call and never shows a whole one.
\<close>

definition empty_db :: pg where
  "empty_db = \<lparr>outbox = [], notifications = [], preferences = [], push_tokens = [],
     delivery_logs = [], tick = 0, build_answer = (\<lambda>_. None), exec_answer = (\<lambda>_. Executed),
     query_answer = (\<lambda>_. AllRows), clock = (\<lambda>n. 1000500 + 1000 * int n), new_uuid = (\<lambda>n. word_of_nat (n + 1)),
     max_slice = 1000000, read_time = (\<lambda>s. s @ '':00''), jsonb = (\<lambda>b. b), scan_outbox = (\<lambda>k rs. rs),
     scan_notifications = (\<lambda>k rs. rs), scan_push_tokens = (\<lambda>k rs. rs), scan_delivery_logs = (\<lambda>k rs. rs)\<rparr>"

lemma empty_db_healthy [simp]: "healthy empty_db"
  by (simp add: healthy_def empty_db_def)

lemma empty_db_sel [simp]:
  "outbox empty_db = []" "notifications empty_db = []" "preferences empty_db = []"
  "push_tokens empty_db = []" "delivery_logs empty_db = []" "now empty_db = 1000500"
  "fresh_uuid empty_db = 1" "read_time empty_db = (\<lambda>s. s @ '':00'')" "jsonb empty_db = (\<lambda>b. b)"
  by (simp_all add: empty_db_def now_def fresh_uuid_def)

lemma empty_db_scans_ok [simp]: "scans_ok empty_db"
  by (simp add: scans_ok_def empty_db_def)

end
