(* ===== verification/RepoContracts.thy ===== *)
theory RepoContracts
  imports Entities "HOL-Library.Sublist"
begin

text \<open>
  \<open>internal/repo/contracts.go\<close>: the repository interfaces. A Go interface value is a record of
  functions over the world \<open>'w\<close> its implementation changes; a method that takes a pointer and
  writes through it also returns the struct it leaves there. The contracts the callers rely on are
  locales over these records.
\<close>

section \<open>The interfaces\<close>

record 'w outbox_repo =
  or_Store :: "outbox_event list \<Rightarrow> 'w \<Rightarrow> goerr option \<times> 'w"
  or_FetchUnpublished :: "int \<Rightarrow> 'w \<Rightarrow> (goerr + outbox_event list) outcome \<times> 'w"
  or_MarkPublished :: "uuid \<Rightarrow> 'w \<Rightarrow> goerr option \<times> 'w"
  or_MarkFailed :: "uuid \<Rightarrow> goerr \<Rightarrow> 'w \<Rightarrow> goerr option \<times> 'w"

record 'w notification_repo =
  nr_Store :: "in_app_notification \<Rightarrow> 'w \<Rightarrow> goerr option \<times> in_app_notification \<times> 'w"
  nr_GetByID :: "uuid \<Rightarrow> 'w \<Rightarrow> (goerr + in_app_notification) \<times> 'w"
  nr_GetByUserID :: "uuid \<Rightarrow> nat \<Rightarrow> nat \<Rightarrow> 'w \<Rightarrow> (goerr + in_app_notification list) \<times> 'w"
  nr_MarkAsRead :: "uuid \<Rightarrow> 'w \<Rightarrow> goerr option \<times> 'w"
  nr_MarkAllAsRead :: "uuid \<Rightarrow> 'w \<Rightarrow> goerr option \<times> 'w"
  nr_GetUnreadCount :: "uuid \<Rightarrow> 'w \<Rightarrow> (goerr + int) \<times> 'w"

text \<open>\<open>Get\<close> returns a pointer and an error; the pointer may be nil for another implementation.\<close>

record 'w preferences_repo =
  pr_Get :: "uuid \<Rightarrow> 'w \<Rightarrow> (user_preferences option \<times> goerr option) \<times> 'w"
  pr_Upsert :: "user_preferences \<Rightarrow> 'w \<Rightarrow> goerr option \<times> user_preferences \<times> 'w"

record 'w push_token_repo =
  tr_Store :: "push_token \<Rightarrow> 'w \<Rightarrow> goerr option \<times> push_token \<times> 'w"
  tr_GetByUserID :: "uuid \<Rightarrow> 'w \<Rightarrow> (goerr + push_token list) \<times> 'w"
  tr_Delete :: "string \<Rightarrow> 'w \<Rightarrow> goerr option \<times> 'w"
  tr_DeleteByUserID :: "uuid \<Rightarrow> 'w \<Rightarrow> goerr option \<times> 'w"

record 'w delivery_log_repo =
  lr_Store :: "delivery_log \<Rightarrow> 'w \<Rightarrow> goerr option \<times> delivery_log \<times> 'w"
  lr_GetByNotificationID :: "uuid \<Rightarrow> 'w \<Rightarrow> (goerr + delivery_log list) \<times> 'w"

section \<open>The outbox contract\<close>

definition unpublished :: "outbox_event list \<Rightarrow> outbox_event list" where
  "unpublished rs = filter (\<lambda>e. oe_published_at e = None) rs"

text \<open>A batch is the oldest unpublished rows, \<open>n\<close> of them or all.\<close>

definition oldest_batch :: "nat \<Rightarrow> outbox_event list \<Rightarrow> outbox_event list \<Rightarrow> bool" where
  "oldest_batch n es rs \<longleftrightarrow>
     (\<exists>rest. mset (es @ rest) = mset (unpublished rs) \<and>
        sorted (map oe_created_at (es @ rest)) \<and> length es = min n (length (unpublished rs)))"

definition publish_at :: "time \<Rightarrow> outbox_event \<Rightarrow> outbox_event" where
  "publish_at t e = e\<lparr>oe_published_at := Some t\<rparr>"

definition bump_retry :: "goerr \<Rightarrow> outbox_event \<Rightarrow> outbox_event" where
  "bump_retry err e = e\<lparr>oe_retry_count := oe_retry_count e + 1, oe_last_error := Some (err_msg err)\<rparr>"

definition on_row :: "uuid \<Rightarrow> (outbox_event \<Rightarrow> outbox_event) \<Rightarrow> outbox_event list \<Rightarrow> outbox_event list" where
  "on_row i f rs = update_where (\<lambda>e. oe_id e = i) f rs"

text \<open>
  The row an \<open>INSERT\<close> of six columns makes: the payload as \<open>norm\<close>, the \<open>JSONB\<close> column, keeps it, the
  creation time in microseconds; the other three columns take their defaults.
\<close>

definition outbox_row :: "(bytes \<Rightarrow> bytes) \<Rightarrow> outbox_event \<Rightarrow> outbox_event" where
  "outbox_row norm e = e\<lparr>oe_payload := norm (oe_payload e), oe_created_at := column_time (oe_created_at e),
     oe_published_at := None, oe_retry_count := 0, oe_last_error := None\<rparr>"

text \<open>
  What a caller of \<open>OutboxRepo\<close> may rely on, over the rows an implementation keeps and the form
  \<open>norm\<close> it keeps a payload in: a fetch only
  reads and a successful one returns the oldest batch; a mark writes the one row with that
  identifier, and when it reports an error it may or may not have.
\<close>

locale outbox_contract =
  fixes rows :: "'w \<Rightarrow> outbox_event list"
    and okay :: "'w \<Rightarrow> bool"
    and repo :: "'w outbox_repo"
    and limit_of :: "int \<Rightarrow> nat"
    and norm :: "'w \<Rightarrow> bytes \<Rightarrow> bytes"
  assumes okay_distinct: "okay w \<Longrightarrow> distinct (map oe_id (rows w))"
    and store_rows: "or_Store repo es w = (r, w') \<Longrightarrow>
      rows w' = rows w @ map (outbox_row (norm w)) es \<or> r \<noteq> None \<and> rows w' = rows w"
    and store_okay: "okay w \<Longrightarrow> okay (snd (or_Store repo es w))"
    and fetch_rows: "rows (snd (or_FetchUnpublished repo l w)) = rows w"
    and fetch_okay: "okay w \<Longrightarrow> okay (snd (or_FetchUnpublished repo l w))"
    and fetch_batch: "okay w \<Longrightarrow> fst (or_FetchUnpublished repo l w) = Ret (Inr es) \<Longrightarrow>
      oldest_batch (limit_of l) es (rows w)"
    and published_rows: "or_MarkPublished repo i w = (r, w') \<Longrightarrow>
      (\<exists>t. rows w' = on_row i (publish_at t) (rows w)) \<or> r \<noteq> None \<and> rows w' = rows w"
    and published_okay: "okay w \<Longrightarrow> okay (snd (or_MarkPublished repo i w))"
    and failed_rows: "or_MarkFailed repo i err w = (r, w') \<Longrightarrow>
      rows w' = on_row i (bump_retry err) (rows w) \<or> r \<noteq> None \<and> rows w' = rows w"
    and failed_okay: "okay w \<Longrightarrow> okay (snd (or_MarkFailed repo i err w))"

lemma unpublished_append [simp]: "unpublished (xs @ ys) = unpublished xs @ unpublished ys"
  by (simp add: unpublished_def)

lemma set_unpublished: "e \<in> set (unpublished rs) \<longleftrightarrow> e \<in> set rs \<and> oe_published_at e = None"
  by (auto simp: unpublished_def)

lemma unpublished_map_row [simp]:
  "unpublished (map (outbox_row norm) es) = map (outbox_row norm) es"
  by (induction es) (auto simp: unpublished_def outbox_row_def)

lemma outbox_row_sel [simp]:
  "oe_id (outbox_row norm e) = oe_id e" "oe_event_type (outbox_row norm e) = oe_event_type e"
  "oe_payload (outbox_row norm e) = norm (oe_payload e)"
  "oe_created_at (outbox_row norm e) = column_time (oe_created_at e)"
  "oe_published_at (outbox_row norm e) = None" "oe_retry_count (outbox_row norm e) = 0"
  by (simp_all add: outbox_row_def)

lemma map_id_row [simp]: "map oe_id (map (outbox_row norm) es) = map oe_id es"
  by simp

lemma oldest_batch_set: "oldest_batch n es rs \<Longrightarrow> set es \<subseteq> set (unpublished rs)"
  unfolding oldest_batch_def by (metis set_append set_mset_mset Un_upper1)

lemma oldest_batch_distinct:
  assumes "oldest_batch n es rs" and "distinct (map oe_id rs)"
  shows "distinct (map oe_id es)"
proof -
  from assms(1) obtain rest where "mset (es @ rest) = mset (unpublished rs)"
    by (auto simp: oldest_batch_def)
  moreover from assms(2) have "distinct (map oe_id (unpublished rs))"
    by (simp add: unpublished_def distinct_map_filter)
  ultimately have "distinct (map oe_id (es @ rest))"
    by (metis distinct_map_mset)
  then show ?thesis by simp
qed

lemma publish_at_sel [simp]:
  "oe_id (publish_at t e) = oe_id e" "oe_event_type (publish_at t e) = oe_event_type e"
  "oe_payload (publish_at t e) = oe_payload e" "oe_created_at (publish_at t e) = oe_created_at e"
  "oe_retry_count (publish_at t e) = oe_retry_count e"
  "oe_published_at (publish_at t e) = Some t"
  by (simp_all add: publish_at_def)

lemma bump_retry_sel [simp]:
  "oe_id (bump_retry err e) = oe_id e" "oe_event_type (bump_retry err e) = oe_event_type e"
  "oe_payload (bump_retry err e) = oe_payload e" "oe_created_at (bump_retry err e) = oe_created_at e"
  "oe_retry_count (bump_retry err e) = oe_retry_count e + 1"
  "oe_published_at (bump_retry err e) = oe_published_at e"
  by (simp_all add: bump_retry_def)

lemma map_on_row [simp]: "(\<And>e. k (f e) = k e) \<Longrightarrow> map k (on_row i f rs) = map k rs"
  by (simp add: on_row_def map_update_where)

lemma length_on_row [simp]: "length (on_row i f rs) = length rs"
  by (simp add: on_row_def)

lemma set_on_row:
  "set (on_row i f rs) = f ` {r \<in> set rs. oe_id r = i} \<union> {r \<in> set rs. oe_id r \<noteq> i}"
  by (simp add: on_row_def set_update_where)

text \<open>Publishing a row takes exactly it out of the unpublished ones.\<close>

lemma unpublished_publish: 
  "unpublished (on_row i (publish_at t) rs) = filter (\<lambda>e. oe_id e \<noteq> i) (unpublished rs)"
  unfolding unpublished_def on_row_def
  by (subst filter_update_where_neg) (auto simp: conj_commute intro: filter_cong)

lemma unpublished_bump: "unpublished (on_row i (bump_retry err) rs) = on_row i (bump_retry err) (unpublished rs)"
  by (induction rs) (auto simp: unpublished_def on_row_def update_where_def)

text \<open>A part of a list, in its order, keeps what holds of the whole.\<close>

lemma subseq_facts:
  assumes "subseq xs ys"
  shows "set xs \<subseteq> set ys" "length xs \<le> length ys"
    "sorted (map key ys) \<Longrightarrow> sorted (map key xs)" "distinct (map k ys) \<Longrightarrow> distinct (map k xs)"
proof -
  from assms obtain N where N: "xs = nths ys N" by (auto simp: subseq_conv_nths)
  show "set xs \<subseteq> set ys" using N by (simp add: set_nths_subset)
  show "length xs \<le> length ys" using assms by (rule list_emb_length)
  show "sorted (map key ys) \<Longrightarrow> sorted (map key xs)" using N by (simp add: sorted_nths flip: nths_map)
  show "distinct (map k ys) \<Longrightarrow> distinct (map k xs)" using N by (simp add: distinct_nthsI flip: nths_map)
qed

end
