(* ===== verification/OutboxRepo.thy ===== *)
theory OutboxRepo
  imports Database RepoContracts
begin

text \<open>
  \<open>internal/repo/persistent/outbox_postgres.go\<close>: the table \<open>outbox_events\<close>. Storing is all or
  nothing, fetching gives the oldest unpublished rows, and the two marks write one row each.
\<close>

section \<open>The operations\<close>

definition outbox_Store :: "outbox_event list \<Rightarrow> 'a pg_scheme \<Rightarrow> goerr option \<times> 'a pg_scheme" where
  "outbox_Store events w =
     (if events = [] then (None, w)
      else with_sql ''OutboxRepo.Store - build query''
        (pg_exec ''OutboxRepo.Store - exec''
          (\<lambda>w'. case insert_rows oe_id (map (outbox_row (jsonb w')) events) (outbox w') of
                  Inl e \<Rightarrow> Inl e
                | Inr rs \<Rightarrow> Inr (w'\<lparr>outbox := rs\<rparr>))) w)"

definition safe_limit :: "int \<Rightarrow> int" where
  "safe_limit limit = (if limit > 0 then limit else 100)"

text \<open>\<open>WHERE published_at IS NULL ORDER BY created_at ASC LIMIT ...\<close>.\<close>

definition oldest_unpublished :: "int \<Rightarrow> 'a pg_scheme \<Rightarrow> outbox_event list" where
  "oldest_unpublished limit w = take (nat (safe_limit limit))
     (order_by (scan_outbox w) (tick w) oe_created_at (unpublished (outbox w)))"

text \<open>
  The nine columns but \<open>published_at\<close> are scanned into a fresh struct, whose \<open>PublishedAt\<close> stays
  nil. \<open>make([]event.OutboxEvent, 0, limit)\<close> panics on a negative capacity, and on one beyond what the
  runtime can allocate.
\<close>

definition outbox_FetchUnpublished ::
  "int \<Rightarrow> 'a pg_scheme \<Rightarrow> (goerr + outbox_event list) outcome \<times> 'a pg_scheme" where
  "outbox_FetchUnpublished limit w =
     (case build_answer w (tick w) of
        Some e \<Rightarrow> (Ret (Inl (wrap ''OutboxRepo.FetchUnpublished - build query'' e)), advance w)
      | None \<Rightarrow>
        (case pg_query
           (map (\<lambda>e. e\<lparr>oe_published_at := None\<rparr>) (oldest_unpublished limit w)) w of
           (Inl e, w') \<Rightarrow> (Ret (Inl (wrap ''OutboxRepo.FetchUnpublished - query'' e)), w')
         | (Inr (rows, rows_err), w') \<Rightarrow>
             (if limit < 0 \<or> max_slice w < limit
              then (Panic ''makeslice: cap out of range'', w')
              else
                (case scan_loop rows [] of
                   Inl e \<Rightarrow> (Ret (Inl (wrap ''OutboxRepo.FetchUnpublished - scan'' e)), w')
                 | Inr events \<Rightarrow>
                     (case rows_err of
                        Some e \<Rightarrow>
                          (Ret (Inl (wrap ''OutboxRepo.FetchUnpublished - rows'' e)), w')
                      | None \<Rightarrow> (Ret (Inr events), w'))))))"

definition outbox_MarkPublished :: "uuid \<Rightarrow> 'a pg_scheme \<Rightarrow> goerr option \<times> 'a pg_scheme" where
  "outbox_MarkPublished i w =
     (let t = column_time (now w) in
      with_sql ''OutboxRepo.MarkPublished - build query''
        (pg_exec ''OutboxRepo.MarkPublished - exec''
          (\<lambda>w'. Inr (w'\<lparr>outbox := on_row i (publish_at t) (outbox w')\<rparr>))) w)"

text \<open>The column \<open>retry_count\<close> is an \<open>INT\<close>, so adding to its largest value is an error.\<close>

definition max_int32 :: int where
  "max_int32 = 2147483647"

definition outbox_MarkFailed ::
  "uuid \<Rightarrow> goerr \<Rightarrow> 'a pg_scheme \<Rightarrow> goerr option \<times> 'a pg_scheme" where
  "outbox_MarkFailed i publish_err w =
     with_sql ''OutboxRepo.MarkFailed - build query''
       (pg_exec ''OutboxRepo.MarkFailed - exec''
         (\<lambda>w'. if list_ex (\<lambda>e. oe_id e = i \<and> max_int32 \<le> oe_retry_count e) (outbox w')
                then Inl integer_out_of_range
                else Inr (w'\<lparr>outbox := on_row i (bump_retry publish_err) (outbox w')\<rparr>))) w"

section \<open>Lemmas on the operations\<close>

lemma set_oldest_unpublished:
  "scan_ok (scan_outbox w) \<Longrightarrow> set (oldest_unpublished limit w) \<subseteq> set (unpublished (outbox w))"
  unfolding oldest_unpublished_def by (metis set_order_by set_take_subset)

lemma clear_oldest_unpublished [simp]:
  "scan_ok (scan_outbox w) \<Longrightarrow>
     map (\<lambda>e. e\<lparr>oe_published_at := None\<rparr>) (oldest_unpublished limit w) = oldest_unpublished limit w"
  using set_oldest_unpublished [of w limit] by (intro map_idI) (auto simp: unpublished_def)

text \<open>Whatever the database answers, a fetch reads only.\<close>

lemma FetchUnpublished_state: "snd (outbox_FetchUnpublished limit w) = advance w"
  by (simp add: outbox_FetchUnpublished_def pg_query_def
      split: option.splits query_answer.splits sum.splits)

lemma FetchUnpublished_result:
  assumes "scan_ok (scan_outbox w)"
    and "fst (outbox_FetchUnpublished limit w) = Ret (Inr es)"
  shows "es = oldest_unpublished limit w"
  using assms
  by (auto simp: outbox_FetchUnpublished_def pg_query_def
      split: option.splits query_answer.splits sum.splits if_splits simp del: map_map)

lemma FetchUnpublished_healthy:
  assumes "healthy w" and "scan_ok (scan_outbox w)" and "0 \<le> limit" and "limit \<le> max_slice w"
  shows "outbox_FetchUnpublished limit w = (Ret (Inr (oldest_unpublished limit w)), advance w)"
  using assms
  by (simp add: outbox_FetchUnpublished_def pg_query_healthy healthy_answers del: map_map)

lemma outbox_Store_healthy:
  assumes "healthy w" and "distinct (map oe_id (outbox w @ es))"
  shows "\<exists>w'. outbox_Store es w = (None, w') \<and> outbox w' = outbox w @ map (outbox_row (jsonb w)) es \<and>
    same_env w w'"
  using assms
  by (auto simp: outbox_Store_def pg_exec_healthy insert_rows_def same_env_def advance_def comp_def)

section \<open>The repository keeps its contract\<close>

definition outbox_okay :: "'a pg_scheme \<Rightarrow> bool" where
  "outbox_okay w \<longleftrightarrow> distinct (map oe_id (outbox w)) \<and> scan_ok (scan_outbox w)"

definition pg_outbox_repo :: "'a pg_scheme outbox_repo" where
  "pg_outbox_repo = \<lparr>or_Store = outbox_Store, or_FetchUnpublished = outbox_FetchUnpublished,
     or_MarkPublished = outbox_MarkPublished, or_MarkFailed = outbox_MarkFailed\<rparr>"

lemma outbox_okay_advance [simp]: "outbox_okay (advance w) = outbox_okay w"
  by (simp add: outbox_okay_def advance_def)

lemma outbox_okay_on_row:
  "(\<And>e. oe_id (f e) = oe_id e) \<Longrightarrow>
     outbox_okay (w\<lparr>outbox := on_row i f (outbox w)\<rparr>) = outbox_okay w"
  by (simp add: outbox_okay_def)

lemma MarkPublished_rows:
  assumes "outbox_MarkPublished i w = (r, w')"
  shows "outbox w' = on_row i (publish_at (column_time (now w))) (outbox w) \<or>
    r \<noteq> None \<and> outbox w' = outbox w"
  using assms
  by (auto simp: outbox_MarkPublished_def with_sql_def pg_exec_def Let_def
      split: option.splits exec_answer.splits)

lemma MarkFailed_rows:
  assumes "outbox_MarkFailed i err w = (r, w')"
  shows "outbox w' = on_row i (bump_retry err) (outbox w) \<or> r \<noteq> None \<and> outbox w' = outbox w"
  using assms
  by (auto simp: outbox_MarkFailed_def with_sql_def pg_exec_def Let_def
      split: option.splits exec_answer.splits if_splits)

lemma MarkPublished_okay: "outbox_okay w \<Longrightarrow> outbox_okay (snd (outbox_MarkPublished i w))"
  unfolding outbox_MarkPublished_def Let_def
  by (rule with_sql_invariant [where P = outbox_okay], simp)
     (rule pg_exec_invariant [where P = outbox_okay], auto simp: outbox_okay_def advance_def)

lemma MarkFailed_okay: "outbox_okay w \<Longrightarrow> outbox_okay (snd (outbox_MarkFailed i err w))"
  unfolding outbox_MarkFailed_def
  by (rule with_sql_invariant [where P = outbox_okay], simp)
     (rule pg_exec_invariant [where P = outbox_okay],
       auto simp: outbox_okay_def advance_def split: if_splits)

lemma jsonb_advance [simp]: "jsonb (advance w) = jsonb w"
  by (simp add: advance_def)

lemma Store_rows:
  assumes "outbox_Store es w = (r, w')"
  shows "outbox w' = outbox w @ map (outbox_row (jsonb w)) es \<or> r \<noteq> None \<and> outbox w' = outbox w"
  using assms
  by (auto simp: outbox_Store_def with_sql_def pg_exec_def insert_rows_def Let_def
      split: option.splits exec_answer.splits if_splits)

lemma Store_okay: "outbox_okay w \<Longrightarrow> outbox_okay (snd (outbox_Store es w))"
  unfolding outbox_Store_def
  by (cases "es = []", simp, simp only: if_False, rule with_sql_invariant [where P = outbox_okay], simp)
     (rule pg_exec_invariant [where P = outbox_okay],
       auto simp: outbox_okay_def advance_def insert_rows_def split: if_splits sum.splits)

lemma fetch_oldest_batch:
  assumes "scan_ok (scan_outbox w)"
    and "fst (outbox_FetchUnpublished limit w) = Ret (Inr es)"
  shows "oldest_batch (nat (safe_limit limit)) es (outbox w)"
  unfolding oldest_batch_def
proof (intro exI conjI)
  let ?all = "order_by (scan_outbox w) (tick w) oe_created_at (unpublished (outbox w))"
  let ?rest = "drop (nat (safe_limit limit)) ?all"
  have es: "es = take (nat (safe_limit limit)) ?all"
    using FetchUnpublished_result [OF assms] by (simp add: oldest_unpublished_def)
  show "mset (es @ ?rest) = mset (unpublished (outbox w))"
    unfolding es append_take_drop_id by (rule mset_order_by [OF assms(1)])
  show "sorted (map oe_created_at (es @ ?rest))"
    unfolding es append_take_drop_id by (rule sorted_order_by)
  show "length es = min (nat (safe_limit limit)) (length (unpublished (outbox w)))"
    using assms(1) by (simp add: es)
qed

interpretation pg_outbox: outbox_contract outbox outbox_okay pg_outbox_repo "\<lambda>l. nat (safe_limit l)" jsonb
proof
  fix w w' :: "'a pg_scheme" and l :: int and es i err r
  show "outbox_okay w \<Longrightarrow> distinct (map oe_id (outbox w))"
    by (simp add: outbox_okay_def)
  show "or_Store pg_outbox_repo es w = (r, w') \<Longrightarrow>
      outbox w' = outbox w @ map (outbox_row (jsonb w)) es \<or> r \<noteq> None \<and> outbox w' = outbox w"
    using Store_rows [of es w r w'] by (simp add: pg_outbox_repo_def)
  show "outbox_okay w \<Longrightarrow> outbox_okay (snd (or_Store pg_outbox_repo es w))"
    by (simp add: pg_outbox_repo_def Store_okay)
  show "outbox (snd (or_FetchUnpublished pg_outbox_repo l w)) = outbox w"
    by (simp add: pg_outbox_repo_def FetchUnpublished_state)
  show "outbox_okay w \<Longrightarrow> outbox_okay (snd (or_FetchUnpublished pg_outbox_repo l w))"
    by (simp add: pg_outbox_repo_def FetchUnpublished_state)
  show "outbox_okay w \<Longrightarrow> fst (or_FetchUnpublished pg_outbox_repo l w) = Ret (Inr es) \<Longrightarrow>
      oldest_batch (nat (safe_limit l)) es (outbox w)"
    by (simp add: pg_outbox_repo_def outbox_okay_def fetch_oldest_batch)
  show "or_MarkPublished pg_outbox_repo i w = (r, w') \<Longrightarrow>
      (\<exists>t. outbox w' = on_row i (publish_at t) (outbox w)) \<or> r \<noteq> None \<and> outbox w' = outbox w"
    using MarkPublished_rows [of i w r w'] by (auto simp: pg_outbox_repo_def)
  show "outbox_okay w \<Longrightarrow> outbox_okay (snd (or_MarkPublished pg_outbox_repo i w))"
    by (simp add: pg_outbox_repo_def MarkPublished_okay)
  show "or_MarkFailed pg_outbox_repo i err w = (r, w') \<Longrightarrow>
      outbox w' = on_row i (bump_retry err) (outbox w) \<or> r \<noteq> None \<and> outbox w' = outbox w"
    using MarkFailed_rows [of i err w r w'] by (simp add: pg_outbox_repo_def)
  show "outbox_okay w \<Longrightarrow> outbox_okay (snd (or_MarkFailed pg_outbox_repo i err w))"
    by (simp add: pg_outbox_repo_def MarkFailed_okay)
qed

text \<open>What does not depend on the call counter and the table is left alone by every operation.\<close>

lemma outbox_repo_view:
  assumes "\<And>w. view (advance w) = view w" and "\<And>w rs. view (w\<lparr>outbox := rs\<rparr>) = view w"
  shows "view (snd (outbox_Store es w)) = view w"
    and "view (snd (outbox_FetchUnpublished l w)) = view w"
    and "view (snd (outbox_MarkPublished i w)) = view w"
    and "view (snd (outbox_MarkFailed i err w)) = view w"
  using assms
  by (simp_all add: FetchUnpublished_state outbox_Store_def outbox_MarkPublished_def
      outbox_MarkFailed_def with_sql_def pg_exec_def Let_def
      split: option.splits exec_answer.splits sum.splits)

section \<open>Properties\<close>

text \<open>An event created \<open>t\<close> microseconds after the zero time.\<close>

definition sample_event :: "uuid \<Rightarrow> time \<Rightarrow> outbox_event" where
  "sample_event i t = new_outbox_event
     (new_base i (1000 * t) ''user.created'' ''user'' ''42'') ''{}''"

definition sample_db :: pg where
  "sample_db = empty_db\<lparr>outbox := [sample_event 1 30, publish_at 5 (sample_event 2 10), sample_event 3 20]\<rparr>"

lemma sample_event_sel [simp]:
  "oe_id (sample_event i t) = i" "oe_created_at (sample_event i t) = 1000 * t"
  "oe_published_at (sample_event i t) = None" "oe_retry_count (sample_event i t) = 0"
  "outbox_row (\<lambda>b. b) (sample_event i t) = sample_event i t"
  by (simp_all add: sample_event_def new_outbox_event_def new_base_def outbox_row_def column_time_def)

lemma sample_db_facts [simp]:
  "healthy sample_db" "outbox_okay sample_db" "max_slice sample_db = 1000000"
  "outbox sample_db = [sample_event 1 30, publish_at 5 (sample_event 2 10), sample_event 3 20]"
  "unpublished (outbox sample_db) = [sample_event 1 30, sample_event 3 20]"
  "scan_outbox sample_db = (\<lambda>k rs. rs)" "jsonb sample_db = (\<lambda>b. b)"
  by (simp_all add: sample_db_def healthy_def outbox_okay_def empty_db_def unpublished_def)

text \<open>
  C38. When a fetch succeeds it is complete and oldest first: the unpublished rows are the returned
  events followed by a rest, in the order of their creation over both, and the number returned is
  the limit (100 for a limit of zero) or all of them. No failure of the database, not even one in
  the middle of the result, can make a shorter list look like a success.
\<close>

theorem FetchUnpublished_oldest_first:
  assumes "outbox_okay w"
    and "outbox_FetchUnpublished limit w = (Ret (Inr es), w')"
  shows "\<exists>rest. mset (es @ rest) = mset (unpublished (outbox w)) \<and>
    sorted (map oe_created_at (es @ rest)) \<and>
    length es = min (nat (safe_limit limit)) (length (unpublished (outbox w))) \<and>
    outbox w' = outbox w"
  using pg_outbox.fetch_batch [of w limit es] pg_outbox.fetch_rows [of limit w] assms
  by (auto simp: pg_outbox_repo_def oldest_batch_def)

lemma FetchUnpublished_oldest_first_witness:
  "\<exists>rest. mset ([sample_event 3 20] @ rest) = mset [sample_event 1 30, sample_event 3 20]"
proof -
  have "outbox_FetchUnpublished 1 sample_db = (Ret (Inr [sample_event 3 20]), advance sample_db)"
    by (simp add: FetchUnpublished_healthy oldest_unpublished_def safe_limit_def order_by_def
        unpublished_def)
  from FetchUnpublished_oldest_first [OF _ this] show ?thesis
    by (auto simp: unpublished_def)
qed

text \<open>
  C39. Storing is all or nothing under every answer of the database: either every event is a new
  unpublished row with a retry count of zero, its payload as the \<open>JSONB\<close> column keeps it and its
  creation time in microseconds, and all identifiers of the table stay different, or
  the table is unchanged and an error is reported; success always means stored.
\<close>

theorem Store_all_or_nothing:
  assumes "outbox_Store es w = (r, w')"
  shows "(outbox w' = outbox w @ map (outbox_row (jsonb w)) es \<and>
            distinct (map oe_id (outbox w')) \<or> es = [] \<and> outbox w' = outbox w) \<or>
         (\<exists>e. r = Some e) \<and> outbox w' = outbox w"
  using assms
  by (auto simp: outbox_Store_def with_sql_def pg_exec_def insert_rows_def Let_def
      split: option.splits exec_answer.splits if_splits)

lemma Store_all_or_nothing_witness:
  "\<exists>w'. outbox_Store [sample_event 4 7] sample_db = (None, w') \<and>
     outbox w' = outbox sample_db @ [sample_event 4 7]"
proof -
  obtain w' where run: "outbox_Store [sample_event 4 7] sample_db = (None, w')"
    using outbox_Store_healthy [of sample_db "[sample_event 4 7]"] by auto
  with Store_all_or_nothing [OF run] show ?thesis by auto
qed

text \<open>
  What was stored is fetched: on a database that answers, storing events with new identifiers
  and then fetching with room for everything returns exactly the rows that were unpublished before
  and the new ones.
\<close>

theorem Store_then_Fetch:
  assumes "healthy w" and "outbox_okay w" and "distinct (map oe_id (outbox w @ es))"
    and "int (length (unpublished (outbox w)) + length es) \<le> limit" and "0 < limit" and "limit \<le> max_slice w"
  shows "\<exists>w' fetched. outbox_Store es w = (None, w') \<and>
    fst (outbox_FetchUnpublished limit w') = Ret (Inr fetched) \<and>
    mset fetched = mset (unpublished (outbox w)) + mset (map (outbox_row (jsonb w)) es)"
proof -
  obtain w' where w': "outbox_Store es w = (None, w')" "outbox w' = outbox w @ map (outbox_row (jsonb w)) es"
    and env: "same_env w w'"
    using outbox_Store_healthy [OF assms(1,3)] by blast
  from env assms have h: "healthy w'" "scan_ok (scan_outbox w')" "limit \<le> max_slice w'"
    by (auto simp: same_env_healthy outbox_okay_def) (auto simp: same_env_def)
  have "length (order_by (scan_outbox w') (tick w') oe_created_at (unpublished (outbox w'))) \<le> nat (safe_limit limit)"
    using h(2) assms(4,5) by (simp add: w' safe_limit_def)
  then have "oldest_unpublished limit w' =
      order_by (scan_outbox w') (tick w') oe_created_at (unpublished (outbox w'))"
    by (simp add: oldest_unpublished_def)
  then have "mset (oldest_unpublished limit w') =
      mset (unpublished (outbox w)) + mset (map (outbox_row (jsonb w)) es)"
    using h(2) by (simp add: w')
  with w' h assms(5) show ?thesis
    by (auto simp: FetchUnpublished_healthy)
qed

lemma Store_then_Fetch_witness:
  "\<exists>w' fetched. outbox_Store [sample_event 4 7] sample_db = (None, w') \<and>
    fst (outbox_FetchUnpublished 10 w') = Ret (Inr fetched) \<and>
    mset fetched = mset (unpublished (outbox sample_db)) +
      mset (map (outbox_row (jsonb sample_db)) [sample_event 4 7])"
  by (rule Store_then_Fetch) (simp_all add: unpublished_def)

text \<open>
  A negative limit is not met by the default of 100: once the query has an answer, allocating
  the result panics. (A limit of zero does take the default.)
\<close>

theorem FetchUnpublished_negative_limit_panics:
  assumes "limit < 0" and "build_answer w (tick w) = None" and "query_answer w (tick w) = AllRows"
  shows "outbox_FetchUnpublished limit w = (Panic ''makeslice: cap out of range'', advance w)"
  using assms by (simp add: outbox_FetchUnpublished_def pg_query_def)

lemma FetchUnpublished_negative_limit_panics_witness:
  "fst (outbox_FetchUnpublished (- 1) sample_db) = Panic ''makeslice: cap out of range''"
  using FetchUnpublished_negative_limit_panics [of "- 1" sample_db]
  by (simp add: sample_db_def empty_db_def)

end
