(* ===== verification/LogInterface.thy ===== *)
theory LogInterface
  imports GoErrors
begin

text \<open>
  \<open>logger.Interface\<close> of \<open>pkg/logger/logger.go\<close> as its clients see it: five methods that change
  only what the logger itself keeps. The implementation is in the theory \<open>Logger\<close>.
\<close>

text \<open>The dynamic values that are passed as \<open>interface{}\<close>.\<close>

datatype any = AnyErr goerr | AnyStr string | AnyInt int | AnyBool bool | AnyOther string

record 'w logger =
  lg_Debug :: "any \<Rightarrow> any list \<Rightarrow> 'w \<Rightarrow> 'w"
  lg_Info :: "string \<Rightarrow> any list \<Rightarrow> 'w \<Rightarrow> 'w"
  lg_Warn :: "string \<Rightarrow> any list \<Rightarrow> 'w \<Rightarrow> 'w"
  lg_Error :: "any \<Rightarrow> any list \<Rightarrow> 'w \<Rightarrow> 'w"
  lg_Fatal :: "any \<Rightarrow> any list \<Rightarrow> 'w \<Rightarrow> 'w"

text \<open>A client relies on one thing: logging does not touch what it works on.\<close>

locale quiet_logger =
  fixes log :: "'w logger" and view :: "'w \<Rightarrow> 'v"
  assumes info_view: "view (lg_Info log m args w) = view w"
    and warn_view: "view (lg_Warn log m args w) = view w"
    and error_view: "view (lg_Error log a args w) = view w"

end
