(* ===== verification/EventWorker.thy ===== *)
theory EventWorker
  imports RepoContracts LogInterface
begin

text \<open>
  \<open>pkg/eventbus/worker.go\<close> and \<open>publisher.go\<close>: the polling worker that moves events from the
  outbox to the message broker. It is written against the interfaces \<open>OutboxRepo\<close>, \<open>Publisher\<close>
  and \<open>logger.Interface\<close>, and its lemmas are proved once against their contracts.
\<close>

section \<open>The worker\<close>

record 'w publisher =
  pub_Publish :: "outbox_event \<Rightarrow> 'w \<Rightarrow> goerr option \<times> 'w"
  pub_Close :: "'w \<Rightarrow> goerr option \<times> 'w"

text \<open>
  \<open>type Worker struct\<close> without its two channels, which belong to the life cycle. Durations are
  in nanoseconds. \<open>uuid_text\<close> stands for the method \<open>String\<close> of the package \<open>google/uuid\<close>.
\<close>

record 'w worker =
  outboxRepo :: "'w outbox_repo"
  publisher :: "'w publisher"
  worker_log :: "'w logger"
  pollInterval :: int
  batchSize :: int
  maxRetries :: int
  uuid_text :: "uuid \<Rightarrow> string"

definition defaultPollInterval :: int where "defaultPollInterval = 1000000000"

definition defaultBatchSize :: int where "defaultBatchSize = 100"

definition defaultMaxRetries :: int where "defaultMaxRetries = 5"

datatype worker_option = WithPollInterval int | WithBatchSize int | WithMaxRetries int

fun apply_worker_option :: "worker_option \<Rightarrow> 'w worker \<Rightarrow> 'w worker" where
  "apply_worker_option (WithPollInterval d) w = w\<lparr>pollInterval := d\<rparr>"
| "apply_worker_option (WithBatchSize n) w = w\<lparr>batchSize := n\<rparr>"
| "apply_worker_option (WithMaxRetries n) w = w\<lparr>maxRetries := n\<rparr>"

definition new_worker ::
  "'w outbox_repo \<Rightarrow> 'w publisher \<Rightarrow> 'w logger \<Rightarrow> (uuid \<Rightarrow> string) \<Rightarrow> worker_option list \<Rightarrow> 'w worker" where
  "new_worker r p l txt opts =
     foldl (\<lambda>w opt. apply_worker_option opt w)
       \<lparr>outboxRepo = r, publisher = p, worker_log = l, pollInterval = defaultPollInterval,
        batchSize = defaultBatchSize, maxRetries = defaultMaxRetries, uuid_text = txt\<rparr> opts"

section \<open>One polling cycle\<close>

text \<open>The body of the loop over the batch; each \<open>continue\<close> is the end of a branch.\<close>

definition process_event :: "'w worker \<Rightarrow> outbox_event \<Rightarrow> 'w \<Rightarrow> 'w" where
  "process_event w e s =
     (let log = worker_log w; txt = uuid_text w (oe_id e) in
      if maxRetries w \<le> oe_retry_count e then
        lg_Warn log (''eventbus worker - max retries exceeded for event '' @ txt) [] s
      else
        (case pub_Publish (publisher w) e s of
           (Some err, s1) \<Rightarrow>
             (let s2 = lg_Error log (AnyErr err) [AnyStr (''eventbus worker - publish event '' @ txt)] s1
              in case or_MarkFailed (outboxRepo w) (oe_id e) err s2 of
                   (Some mark_err, s3) \<Rightarrow>
                     lg_Error log (AnyErr mark_err) [AnyStr ''eventbus worker - mark failed''] s3
                 | (None, s3) \<Rightarrow> s3)
         | (None, s1) \<Rightarrow>
             (case or_MarkPublished (outboxRepo w) (oe_id e) s1 of
                (Some err, s2) \<Rightarrow>
                  lg_Warn log (''eventbus worker - possible duplicate delivery for event '' @ txt) []
                    (lg_Error log (AnyErr err) [AnyStr (''eventbus worker - mark published '' @ txt)] s2)
              | (None, s2) \<Rightarrow> s2)))"

fun process_events :: "'w worker \<Rightarrow> outbox_event list \<Rightarrow> 'w \<Rightarrow> 'w" where
  "process_events w [] s = s"
| "process_events w (e # es) s = process_events w es (process_event w e s)"

definition process_outbox :: "'w worker \<Rightarrow> 'w \<Rightarrow> goerr option outcome \<times> 'w" where
  "process_outbox w s =
     (case or_FetchUnpublished (outboxRepo w) (batchSize w) s of
        (Panic m, s') \<Rightarrow> (Panic m, s')
      | (Ret (Inl err), s') \<Rightarrow> (Ret (Some (wrap ''fetch unpublished'' err)), s')
      | (Ret (Inr events), s') \<Rightarrow> (Ret None, process_events w events s'))"

text \<open>What \<open>run\<close> does with a tick.\<close>

definition worker_tick :: "'w worker \<Rightarrow> 'w \<Rightarrow> unit outcome \<times> 'w" where
  "worker_tick w s =
     (case process_outbox w s of
        (Panic m, s') \<Rightarrow> (Panic m, s')
      | (Ret (Some err), s') \<Rightarrow>
          (Ret (), lg_Error (worker_log w) (AnyErr err) [AnyStr ''eventbus worker - process outbox''] s')
      | (Ret None, s') \<Rightarrow> (Ret (), s'))"

text \<open>What none of the calls of a cycle changes, the cycle does not change.\<close>

lemma worker_tick_view:
  assumes "quiet_logger (worker_log wk) view"
    and "\<And>l s. view (snd (or_FetchUnpublished (outboxRepo wk) l s)) = view s"
    and "\<And>i s. view (snd (or_MarkPublished (outboxRepo wk) i s)) = view s"
    and "\<And>i err s. view (snd (or_MarkFailed (outboxRepo wk) i err s)) = view s"
    and "\<And>e s. view (snd (pub_Publish (publisher wk) e s)) = view s"
  shows "view (snd (worker_tick wk s)) = view s"
proof -
  have one: "view (process_event wk e s) = view s" for e s
    using assms(3-5) quiet_logger.warn_view [OF assms(1)] quiet_logger.error_view [OF assms(1)]
    by (auto simp: process_event_def Let_def split: prod.splits option.splits) (metis snd_conv)+
  have batch: "view (process_events wk es s) = view s" for es s
    by (induction es arbitrary: s) (simp_all add: one)
  show ?thesis
    using assms(2) [of "batchSize wk" s] quiet_logger.error_view [OF assms(1)]
    by (auto simp: worker_tick_def process_outbox_def batch
        split: prod.splits outcome.splits sum.splits option.splits)
qed

text \<open>
  A cycle keeps what its calls keep; of the publications it is enough that those of the batch do.
\<close>

lemma worker_tick_invariant:
  assumes "P s"
    and "\<And>m args s. P s \<Longrightarrow> P (lg_Warn (worker_log wk) m args s)"
    and "\<And>a args s. P s \<Longrightarrow> P (lg_Error (worker_log wk) a args s)"
    and "\<And>s. P s \<Longrightarrow> P (snd (or_FetchUnpublished (outboxRepo wk) (batchSize wk) s))"
    and "\<And>i s. P s \<Longrightarrow> P (snd (or_MarkPublished (outboxRepo wk) i s))"
    and "\<And>i err s. P s \<Longrightarrow> P (snd (or_MarkFailed (outboxRepo wk) i err s))"
    and "\<And>es e s'. fst (or_FetchUnpublished (outboxRepo wk) (batchSize wk) s) = Ret (Inr es) \<Longrightarrow>
      e \<in> set es \<Longrightarrow> P s' \<Longrightarrow> P (snd (pub_Publish (publisher wk) e s'))"
  shows "P (snd (worker_tick wk s))"
proof -
  have one: "P (process_event wk e s')"
    if "P s'" "\<And>s. P s \<Longrightarrow> P (snd (pub_Publish (publisher wk) e s))" for e s'
    using that(1) that(2) [OF that(1)] assms(2,3,5,6)
    by (auto simp: process_event_def Let_def split: prod.splits option.splits) (metis snd_conv)+
  have batch: "P (process_events wk es s')"
    if "P s'" "\<And>e s. e \<in> set es \<Longrightarrow> P s \<Longrightarrow> P (snd (pub_Publish (publisher wk) e s))" for es s'
    using that by (induction es arbitrary: s') (simp_all add: one)
  from assms(1) have "P (snd (or_FetchUnpublished (outboxRepo wk) (batchSize wk) s))"
    by (rule assms(4))
  with assms(3,7) batch show ?thesis
    by (auto simp: worker_tick_def process_outbox_def
        split: prod.splits outcome.splits sum.splits option.splits)
qed

section \<open>What a cycle does to the outbox and the channel\<close>

text \<open>
  The abstract view of the worker: the rows of the outbox and the messages handed to the channel
  without an error. Handling one event of a batch is one of five steps; the cycle is one after the
  other.
\<close>

type_synonym 'm view = "outbox_event list \<times> 'm list"

inductive attempt :: "int \<Rightarrow> (outbox_event \<Rightarrow> 'm) \<Rightarrow> outbox_event \<Rightarrow> 'm view \<Rightarrow> 'm view \<Rightarrow> bool"
  for maxr :: int and msg :: "outbox_event \<Rightarrow> 'm" and e :: outbox_event where
  exhausted: "maxr \<le> oe_retry_count e \<Longrightarrow> attempt maxr msg e (rs, ms) (rs, ms)"
| delivered: "oe_retry_count e < maxr \<Longrightarrow>
    attempt maxr msg e (rs, ms) (on_row (oe_id e) (publish_at t) rs, ms @ [msg e])"
| unmarked: "oe_retry_count e < maxr \<Longrightarrow> attempt maxr msg e (rs, ms) (rs, ms @ [msg e])"
| failed: "oe_retry_count e < maxr \<Longrightarrow>
    attempt maxr msg e (rs, ms) (on_row (oe_id e) (bump_retry err) rs, ms)"
| uncounted: "oe_retry_count e < maxr \<Longrightarrow> attempt maxr msg e (rs, ms) (rs, ms)"

inductive attempts :: "int \<Rightarrow> (outbox_event \<Rightarrow> 'm) \<Rightarrow> outbox_event list \<Rightarrow> 'm view \<Rightarrow> 'm view \<Rightarrow> bool"
  for maxr :: int and msg :: "outbox_event \<Rightarrow> 'm" where
  nil: "attempts maxr msg [] v v"
| cons: "attempt maxr msg e u v \<Longrightarrow> attempts maxr msg es v w \<Longrightarrow> attempts maxr msg (e # es) u w"

inductive_simps attempt_pair: "attempt maxr msg e (rs, ms) (rs', ms')"
inductive_cases attempts_NilE: "attempts maxr msg [] u v"
inductive_cases attempts_ConsE: "attempts maxr msg (e # es) u w"

section \<open>Invariants of the abstract view\<close>

text \<open>A row that counts as published was handed to the channel, which reported no error.\<close>

definition published_sent :: "(outbox_event \<Rightarrow> 'm) \<Rightarrow> 'm view \<Rightarrow> bool" where
  "published_sent msg v \<longleftrightarrow>
     (\<forall>r \<in> set (fst v). oe_published_at r \<noteq> None \<longrightarrow> msg r \<in> set (snd v))"

text \<open>No row was retried more often than allowed.\<close>

definition retries_bounded :: "int \<Rightarrow> 'm view \<Rightarrow> bool" where
  "retries_bounded maxr v \<longleftrightarrow> (\<forall>r \<in> set (fst v). oe_retry_count r \<le> maxr)"

text \<open>
  A batch that agrees with the rows: a row with the identifier of an event of the batch carries
  that event's message, and one still in the batch also its retry count.
\<close>

definition batch_agrees :: "(outbox_event \<Rightarrow> 'm) \<Rightarrow> outbox_event list \<Rightarrow> 'm view \<Rightarrow> bool" where
  "batch_agrees msg es v \<longleftrightarrow> distinct (map oe_id es) \<and>
     (\<forall>e \<in> set es. \<forall>r \<in> set (fst v).
        oe_id r = oe_id e \<longrightarrow> msg r = msg e \<and> oe_retry_count r = oe_retry_count e)"

text \<open>The message of an event does not depend on the columns that the marks write.\<close>

definition stable_message :: "(outbox_event \<Rightarrow> 'm) \<Rightarrow> bool" where
  "stable_message msg \<longleftrightarrow>
     (\<forall>e t. msg (publish_at t e) = msg e) \<and> (\<forall>e err. msg (bump_retry err e) = msg e)"

lemma attempt_keys:
  "attempt maxr msg e u v \<Longrightarrow> map oe_id (fst v) = map oe_id (fst u)"
  by (induction rule: attempt.induct) auto

lemma attempt_agrees:
  assumes "attempt maxr msg e u v" and "stable_message msg" and "batch_agrees msg (e # es) u"
  shows "batch_agrees msg es v"
  using assms
  by (induction rule: attempt.induct) (auto simp: batch_agrees_def stable_message_def set_on_row)

lemma attempt_published_sent:
  assumes "attempt maxr msg e u v" and "stable_message msg" and "batch_agrees msg (e # es) u"
    and "published_sent msg u"
  shows "published_sent msg v"
  using assms
  by (induction rule: attempt.induct)
     (auto simp: batch_agrees_def stable_message_def published_sent_def set_on_row)

lemma attempt_retries:
  assumes "attempt maxr msg e u v" and "batch_agrees msg (e # es) u" and "retries_bounded maxr u"
  shows "retries_bounded maxr v"
  using assms
  by (induction rule: attempt.induct)
     (auto simp: batch_agrees_def retries_bounded_def set_on_row)

text \<open>The three invariants over a whole batch.\<close>

lemma attempts_invariants:
  assumes "attempts maxr msg es u v" and "stable_message msg" and "batch_agrees msg es u"
  shows "(published_sent msg u \<longrightarrow> published_sent msg v) \<and>
    (retries_bounded maxr u \<longrightarrow> retries_bounded maxr v) \<and>
    map oe_id (fst v) = map oe_id (fst u)"
  using assms
proof (induction rule: attempts.induct)
  case (nil v)
  then show ?case by simp
next
  case (cons e u v es w)
  from cons.hyps(1) cons.prems have "batch_agrees msg es v"
    by (rule attempt_agrees)
  with cons.IH cons.prems have "(published_sent msg v \<longrightarrow> published_sent msg w) \<and>
      (retries_bounded maxr v \<longrightarrow> retries_bounded maxr w) \<and>
      map oe_id (fst w) = map oe_id (fst v)"
    by blast
  moreover have "published_sent msg u \<longrightarrow> published_sent msg v"
    using attempt_published_sent [OF cons.hyps(1) cons.prems] by blast
  moreover have "retries_bounded maxr u \<longrightarrow> retries_bounded maxr v"
    using attempt_retries [OF cons.hyps(1) cons.prems(2)] by blast
  ultimately show ?case
    using attempt_keys [OF cons.hyps(1)] by simp
qed

text \<open>
  What a batch sends: messages of eligible events only, in the order of the batch, none of them
  twice.
\<close>

definition eligible :: "int \<Rightarrow> outbox_event list \<Rightarrow> outbox_event list" where
  "eligible maxr es = filter (\<lambda>e. oe_retry_count e < maxr) es"

lemma eligible_id: "eligible maxr es = es \<longleftrightarrow> (\<forall>e \<in> set es. oe_retry_count e < maxr)"
  by (simp add: eligible_def filter_id_conv)

lemma attempts_sends:
  "attempts maxr msg es u v \<Longrightarrow>
     \<exists>ds. subseq ds (eligible maxr es) \<and> snd v = snd u @ map msg ds"
proof (induction rule: attempts.induct)
  case (nil v)
  show ?case by (rule exI [of _ "[]"]) simp
next
  case (cons e u v es w)
  from cons.IH obtain ds where ds: "subseq ds (eligible maxr es)" "snd w = snd v @ map msg ds"
    by blast
  from cons.hyps(1) consider "snd v = snd u" | "snd v = snd u @ [msg e]" "oe_retry_count e < maxr"
    by (cases rule: attempt.cases) auto
  then show ?case
  proof cases
    case 1
    with ds have "subseq ds (eligible maxr (e # es))" "snd w = snd u @ map msg ds"
      by (auto simp: eligible_def)
    then show ?thesis by blast
  next
    case 2
    with ds have "subseq (e # ds) (eligible maxr (e # es))" "snd w = snd u @ map msg (e # ds)"
      by (auto simp: eligible_def)
    then show ?thesis by blast
  qed
qed

text \<open>Rows outside the batch are left alone.\<close>

lemma attempts_frame:
  "attempts maxr msg es u v \<Longrightarrow>
     filter (\<lambda>r. oe_id r \<notin> oe_id ` set es) (fst v) = filter (\<lambda>r. oe_id r \<notin> oe_id ` set es) (fst u)"
proof (induction rule: attempts.induct)
  case (cons e u v es w)
  have "filter (\<lambda>r. oe_id r \<notin> oe_id ` set (e # es)) (fst v) =
      filter (\<lambda>r. oe_id r \<notin> oe_id ` set (e # es)) (fst u)"
    using cons.hyps(1)
    by (cases rule: attempt.cases) (auto simp: on_row_def intro!: filter_update_where_other)
  moreover have split: "filter (\<lambda>r. oe_id r \<notin> oe_id ` set (e # es)) xs =
      filter (\<lambda>r. oe_id r \<noteq> oe_id e) (filter (\<lambda>r. oe_id r \<notin> oe_id ` set es) xs)" for xs
    by (induction xs) auto
  ultimately show ?case using cons.IH by (metis (no_types))
qed simp

text \<open>A batch fetched from a table with unique identifiers agrees with it.\<close>

lemma oldest_batch_agrees:
  assumes "oldest_batch n es rs" and "distinct (map oe_id rs)"
  shows "batch_agrees msg es (rs, ms)"
proof -
  have "r = e" if "e \<in> set es" "r \<in> set rs" "oe_id r = oe_id e" for e r
  proof -
    from that(1) oldest_batch_set [OF assms(1)] have "e \<in> set rs"
      by (auto simp: set_unpublished)
    with that assms(2) show ?thesis
      by (auto simp: distinct_map dest: inj_onD)
  qed
  with oldest_batch_distinct [OF assms] show ?thesis
    by (auto simp: batch_agrees_def)
qed

text \<open>
  If enough exhausted rows are older than every row that could still be sent, any batch consists
  of exhausted rows: nothing else ever gets into it.
\<close>

definition blocked :: "int \<Rightarrow> nat \<Rightarrow> outbox_event list \<Rightarrow> bool" where
  "blocked maxr n rs \<longleftrightarrow>
     (let dead = filter (\<lambda>e. maxr \<le> oe_retry_count e) (unpublished rs);
          alive = filter (\<lambda>e. oe_retry_count e < maxr) (unpublished rs)
      in n \<le> length dead \<and> list_all (\<lambda>x. list_all (\<lambda>y. oe_created_at x < oe_created_at y) alive) dead)"

lemma blocked_batch:
  assumes "oldest_batch n es rs" and "blocked maxr n rs"
  shows "eligible maxr es = []"
proof (rule ccontr)
  let ?dead = "\<lambda>e. maxr \<le> oe_retry_count e"
  from assms(1) obtain rest where ms: "mset (es @ rest) = mset (unpublished rs)"
    and sorted: "sorted (map oe_created_at (es @ rest))" and len: "length es \<le> n"
    by (auto simp: oldest_batch_def)
  assume "eligible maxr es \<noteq> []"
  then obtain y where y: "y \<in> set es" "\<not> ?dead y"
    by (auto simp: eligible_def filter_empty_conv)
  from ms have "mset (filter ?dead (es @ rest)) = mset (filter ?dead (unpublished rs))"
    by (metis mset_filter)
  then have dead: "n \<le> length (filter ?dead (es @ rest))"
    using assms(2) by (metis (no_types, lifting) blocked_def size_mset)
  from ms have set: "set (unpublished rs) = set es \<union> set rest"
    by (metis mset_eq_setD set_append)
  with y have alive: "y \<in> set (filter (\<lambda>e. oe_retry_count e < maxr) (unpublished rs))"
    by auto
  have "filter ?dead rest = []"
  proof (rule ccontr)
    assume "filter ?dead rest \<noteq> []"
    then obtain x where x: "x \<in> set rest" "?dead x"
      by (auto simp: filter_empty_conv)
    then have "x \<in> set (filter ?dead (unpublished rs))"
      using set by auto
    then have "oe_created_at x < oe_created_at y"
      using assms(2) alive unfolding blocked_def Let_def list_all_iff by blast
    moreover have "oe_created_at y \<le> oe_created_at x"
      using sorted x(1) y(1) by (auto simp: sorted_append)
    ultimately show False by simp
  qed
  with dead have "n \<le> length (filter ?dead es)" by simp
  moreover have "length (filter ?dead es) < length es"
    using y by (rule length_filter_less)
  ultimately show False using len by simp
qed

section \<open>The worker against its interfaces\<close>

text \<open>Runs of the outbox: the application stores events, the worker ticks, in any order.\<close>

inductive outbox_run :: "'w worker \<Rightarrow> 'w \<Rightarrow> 'w \<Rightarrow> bool" for wk :: "'w worker" where
  start: "outbox_run wk s s"
| store: "outbox_run wk s t \<Longrightarrow> or_Store (outboxRepo wk) es t = (r, u) \<Longrightarrow> outbox_run wk s u"
| tick: "outbox_run wk s t \<Longrightarrow> worker_tick wk t = (r, u) \<Longrightarrow> outbox_run wk s u"

lemma outbox_run_trans: "outbox_run wk t u \<Longrightarrow> outbox_run wk s t \<Longrightarrow> outbox_run wk s u"
  by (induction rule: outbox_run.induct) (auto intro: outbox_run.intros)

primrec ticks :: "'w worker \<Rightarrow> nat \<Rightarrow> 'w \<Rightarrow> 'w" where
  "ticks wk 0 s = s"
| "ticks wk (Suc n) s = ticks wk n (snd (worker_tick wk s))"

text \<open>
  What the worker relies on beside the outbox contract: the publisher hands over the message of an
  event exactly when it reports no error and leaves the outbox alone, the repository leaves the
  channel alone, and the logger both.
\<close>

locale outbox_worker =
  outbox_contract rows okay "outboxRepo wk" limit_of norm +
  quiet_logger "worker_log wk" "\<lambda>s. (rows s, sent s, okay s)"
  for rows :: "'w \<Rightarrow> outbox_event list" and okay :: "'w \<Rightarrow> bool" and wk :: "'w worker"
    and limit_of :: "int \<Rightarrow> nat" and norm :: "'w \<Rightarrow> bytes \<Rightarrow> bytes" and sent :: "'w \<Rightarrow> 'm list" +
  fixes msg :: "outbox_event \<Rightarrow> 'm"
  assumes message_stable: "stable_message msg"
    and publish_sent: "pub_Publish (publisher wk) e s = (r, s') \<Longrightarrow>
      sent s' = (if r = None then sent s @ [msg e] else sent s)"
    and publish_rows: "rows (snd (pub_Publish (publisher wk) e s)) = rows s"
    and publish_okay: "okay s \<Longrightarrow> okay (snd (pub_Publish (publisher wk) e s))"
    and store_sent: "sent (snd (or_Store (outboxRepo wk) es s)) = sent s"
    and fetch_sent: "sent (snd (or_FetchUnpublished (outboxRepo wk) l s)) = sent s"
    and marked_sent: "sent (snd (or_MarkPublished (outboxRepo wk) i s)) = sent s"
    and failed_sent: "sent (snd (or_MarkFailed (outboxRepo wk) i err s)) = sent s"
begin

abbreviation "view s \<equiv> (rows s, sent s)"

lemma log_frame [simp]:
  "rows (lg_Warn (worker_log wk) m args s) = rows s" "sent (lg_Warn (worker_log wk) m args s) = sent s"
  "okay (lg_Warn (worker_log wk) m args s) = okay s"
  "rows (lg_Error (worker_log wk) a args s) = rows s" "sent (lg_Error (worker_log wk) a args s) = sent s"
  "okay (lg_Error (worker_log wk) a args s) = okay s"
  using warn_view [of m args s] error_view [of a args s] by auto

text \<open>The program refines the abstract steps: one iteration of the loop is one attempt.\<close>

lemma process_event_attempt:
  "attempt (maxRetries wk) msg e (view s) (view (process_event wk e s))"
proof (cases "maxRetries wk \<le> oe_retry_count e")
  case True
  then show ?thesis by (simp add: process_event_def Let_def attempt.exhausted)
next
  case False
  obtain r s1 where pub: "pub_Publish (publisher wk) e s = (r, s1)"
    by fastforce
  with publish_rows [of e s] publish_sent [OF pub]
  have s1: "rows s1 = rows s" "sent s1 = (if r = None then sent s @ [msg e] else sent s)"
    by auto
  show ?thesis
  proof (cases r)
    case None
    obtain r2 s2 where mark: "or_MarkPublished (outboxRepo wk) (oe_id e) s1 = (r2, s2)"
      by fastforce
    from published_rows [OF mark] marked_sent [of "oe_id e" s1] mark s1 None
    have "(\<exists>t. rows s2 = on_row (oe_id e) (publish_at t) (rows s)) \<or> rows s2 = rows s"
      and "sent s2 = sent s @ [msg e]" by auto
    with False None pub mark show ?thesis
      by (auto simp: process_event_def Let_def attempt_pair split: option.splits)
  next
    case (Some err)
    let ?s2 = "lg_Error (worker_log wk) (AnyErr err)
      [AnyStr (''eventbus worker - publish event '' @ uuid_text wk (oe_id e))] s1"
    obtain r2 s2 where mark: "or_MarkFailed (outboxRepo wk) (oe_id e) err ?s2 = (r2, s2)"
      by fastforce
    from failed_rows [OF mark] failed_sent [of "oe_id e" err ?s2] mark s1 Some
    have "rows s2 = on_row (oe_id e) (bump_retry err) (rows s) \<or> rows s2 = rows s"
      and "sent s2 = sent s" by auto
    with False Some pub mark show ?thesis
      by (auto simp: process_event_def Let_def attempt_pair split: option.splits)
  qed
qed

lemma process_event_okay: "okay s \<Longrightarrow> okay (process_event wk e s)"
  using publish_okay [of s e] published_okay failed_okay
  by (auto simp: process_event_def Let_def split: prod.splits option.splits) (metis log_frame snd_conv)+

lemma process_events_attempts:
  "attempts (maxRetries wk) msg es (view s) (view (process_events wk es s))"
  by (induction es arbitrary: s) (auto intro: attempts.intros process_event_attempt)

lemma process_events_okay: "okay s \<Longrightarrow> okay (process_events wk es s)"
  by (induction es arbitrary: s) (auto intro: process_event_okay)

text \<open>A tick is a run of attempts over an oldest batch, or leaves everything as it was.\<close>

lemma worker_tick_cases:
  assumes "okay s"
  obtains (batch) es s' where "worker_tick wk s = (Ret (), s')"
      "oldest_batch (limit_of (batchSize wk)) es (rows s)"
      "attempts (maxRetries wk) msg es (view s) (view s')"
  | (idle) r s' where "worker_tick wk s = (r, s')" "view s' = view s"
      "\<And>es. fst (or_FetchUnpublished (outboxRepo wk) (batchSize wk) s) \<noteq> Ret (Inr es)"
proof -
  obtain r s1 where fetch: "or_FetchUnpublished (outboxRepo wk) (batchSize wk) s = (r, s1)"
    by fastforce
  with fetch_rows [of "batchSize wk" s] fetch_sent [of "batchSize wk" s]
  have s1: "view s1 = view s" by simp
  show thesis
  proof (cases "\<exists>es. r = Ret (Inr es)")
    case True
    then obtain es where es: "r = Ret (Inr es)" by blast
    show thesis
    proof (rule batch)
      show "worker_tick wk s = (Ret (), process_events wk es s1)"
        by (simp add: worker_tick_def process_outbox_def fetch es)
      show "oldest_batch (limit_of (batchSize wk)) es (rows s)"
        using fetch_batch [OF assms] fetch es by simp
      show "attempts (maxRetries wk) msg es (view s) (view (process_events wk es s1))"
        using process_events_attempts [of es s1] s1 by simp
    qed
  next
    case False
    show thesis
    proof (rule idle)
      show "worker_tick wk s = (fst (worker_tick wk s), snd (worker_tick wk s))" by simp
      show "view (snd (worker_tick wk s)) = view s"
        using False s1
        by (auto simp: worker_tick_def process_outbox_def fetch split: outcome.splits sum.splits)
      show "fst (or_FetchUnpublished (outboxRepo wk) (batchSize wk) s) \<noteq> Ret (Inr es)" for es
        using False by (simp add: fetch)
    qed
  qed
qed

lemma worker_tick_okay: "okay s \<Longrightarrow> okay (snd (worker_tick wk s))"
  using fetch_okay [of s "batchSize wk"]
  by (auto simp: worker_tick_def process_outbox_def process_events_okay
      split: prod.splits outcome.splits sum.splits option.splits)

lemma batch_agrees_view:
  "okay s \<Longrightarrow> oldest_batch n es (rows s) \<Longrightarrow> batch_agrees msg es (view s)"
  by (simp add: okay_distinct oldest_batch_agrees)

text \<open>The three invariants hold along every run.\<close>

definition worker_inv :: "'w \<Rightarrow> bool" where
  "worker_inv s \<longleftrightarrow> okay s \<and> published_sent msg (view s) \<and>
     (0 \<le> maxRetries wk \<longrightarrow> retries_bounded (maxRetries wk) (view s))"

lemma tick_inv: "worker_inv s \<Longrightarrow> worker_inv (snd (worker_tick wk s))"
proof -
  assume inv: "worker_inv s"
  then have ok: "okay s" by (simp add: worker_inv_def)
  from ok show ?thesis
  proof (cases rule: worker_tick_cases)
    case (batch es s')
    with attempts_invariants [OF batch(3) message_stable batch_agrees_view [OF ok batch(2)]]
      inv worker_tick_okay [OF ok]
    show ?thesis by (auto simp: worker_inv_def)
  next
    case (idle r s')
    with inv worker_tick_okay [OF ok] show ?thesis by (auto simp: worker_inv_def)
  qed
qed

lemma store_inv: "worker_inv s \<Longrightarrow> worker_inv (snd (or_Store (outboxRepo wk) es s))"
  using store_okay [of s es] store_sent [of es s]
    store_rows [of es s "fst (or_Store (outboxRepo wk) es s)" "snd (or_Store (outboxRepo wk) es s)"]
  by (auto simp: worker_inv_def published_sent_def retries_bounded_def outbox_row_def)

lemma run_inv: "outbox_run wk s t \<Longrightarrow> worker_inv s \<Longrightarrow> worker_inv t"
proof (induction rule: outbox_run.induct)
  case (store s t es r u)
  then show ?case using store_inv [of t es] by simp
next
  case (tick s t r u)
  then show ?case using tick_inv [of t] by simp
qed

text \<open>No row disappears, and none changes its message.\<close>

lemma attempts_messages: "attempts maxr msg es u v \<Longrightarrow> map msg (fst v) = map msg (fst u)"
proof (induction rule: attempts.induct)
  case (cons e u v es w)
  have "map msg (fst v) = map msg (fst u)"
    using cons.hyps(1) message_stable by (cases rule: attempt.cases) (auto simp: stable_message_def)
  with cons.IH show ?case by simp
qed simp

lemma run_messages: "outbox_run wk s t \<Longrightarrow> okay s \<Longrightarrow> okay t \<and> msg ` set (rows s) \<subseteq> msg ` set (rows t)"
proof (induction rule: outbox_run.induct)
  case (store s t es r u)
  then show ?case using store_okay [of t es] store_rows [OF store.hyps(2)] by auto
next
  case (tick s t r u)
  then have ok: "okay t" and u: "u = snd (worker_tick wk t)" by simp_all
  have "msg ` set (rows u) = msg ` set (rows t)"
    using ok
  proof (cases rule: worker_tick_cases)
    case (batch es s')
    from u batch(1) have "u = s'" by simp
    with attempts_messages [OF batch(3)] have "map msg (rows u) = map msg (rows t)" by simp
    then show ?thesis by (metis list.set_map)
  qed (use u in simp)
  moreover have "okay u" using worker_tick_okay [OF ok] u by simp
  ultimately show ?case using tick.IH tick.prems by simp
qed simp

text \<open>What was sent stands in a row: no run makes up a message.\<close>

lemma run_sent_rows:
  "outbox_run wk s t \<Longrightarrow> okay s \<Longrightarrow> set (sent s) \<subseteq> msg ` set (rows s) \<Longrightarrow> set (sent t) \<subseteq> msg ` set (rows t)"
proof (induction rule: outbox_run.induct)
  case (store s t es r u)
  then show ?case using store_sent [of es t] store_rows [OF store.hyps(2)] by auto
next
  case (tick s t r u)
  then have ok: "okay t" and u: "u = snd (worker_tick wk t)" and sub: "set (sent t) \<subseteq> msg ` set (rows t)"
    using run_messages by auto
  from ok show ?case
  proof (cases rule: worker_tick_cases)
    case (batch es s')
    from u batch(1) have "u = s'" by simp
    moreover from attempts_messages [OF batch(3)] have "msg ` set (rows s') = msg ` set (rows t)"
      by (metis fst_conv list.set_map)
    moreover have "set (sent s') \<subseteq> set (sent t) \<union> msg ` set (rows t)"
    proof -
      obtain ds where ds: "subseq ds (eligible (maxRetries wk) es)" "sent s' = sent t @ map msg ds"
        using attempts_sends [OF batch(3)] by auto
      have "set ds \<subseteq> set (eligible (maxRetries wk) es)"
        using ds(1) by (rule subseq_facts)
      with oldest_batch_set [OF batch(2)] ds(2) show ?thesis
        by (auto simp: eligible_def set_unpublished)
    qed
    ultimately show ?thesis using sub by auto
  qed (use u sub in simp)
qed simp

text \<open>A stored event is still waiting or has been handed over, whatever happened since.\<close>

lemma stored_not_lost:
  assumes "worker_inv s" and "or_Store (outboxRepo wk) es s = (None, t)" and "outbox_run wk t u"
    and "e \<in> set es"
  defines "m \<equiv> msg (outbox_row (norm s) e)"
  shows "m \<in> set (sent u) \<or> (\<exists>r. r \<in> set (unpublished (rows u)) \<and> msg r = m)"
proof -
  have inv: "worker_inv t" using store_inv [OF assms(1), of es] assms(2) by simp
  then have inv_u: "worker_inv u" by (rule run_inv [OF assms(3)])
  from store_rows [OF assms(2)] assms(4) have "m \<in> msg ` set (rows t)" by (auto simp: m_def)
  with run_messages [OF assms(3)] inv have "m \<in> msg ` set (rows u)"
    by (auto simp: worker_inv_def)
  then obtain r where r: "r \<in> set (rows u)" "msg r = m" by force
  with inv_u show ?thesis
    by (cases "oe_published_at r") (auto simp: worker_inv_def published_sent_def set_unpublished)
qed

text \<open>What one tick sends: eligible events of an oldest batch, in order, none twice.\<close>

lemma tick_sends:
  assumes "okay s"
  shows "\<exists>es ds. (es = [] \<or> oldest_batch (limit_of (batchSize wk)) es (rows s)) \<and>
    subseq ds (eligible (maxRetries wk) es) \<and>
    sent (snd (worker_tick wk s)) = sent s @ map msg ds"
  using assms
proof (cases rule: worker_tick_cases)
  case (batch es s')
  with attempts_sends [OF batch(3)] show ?thesis by auto
next
  case (idle r s')
  then show ?thesis by (intro exI [of _ "[]"]) (simp add: eligible_def)
qed

text \<open>A blocked outbox stays as it is, for any number of ticks.\<close>

lemma attempts_exhausted:
  "attempts maxr m es u v \<Longrightarrow> eligible maxr es = [] \<Longrightarrow> v = u"
  by (induction rule: attempts.induct)
     (auto simp: eligible_def attempt.simps split: if_splits)

lemma tick_blocked:
  assumes "okay s" and "blocked (maxRetries wk) (limit_of (batchSize wk)) (rows s)"
  shows "view (snd (worker_tick wk s)) = view s"
  using assms(1)
proof (cases rule: worker_tick_cases)
  case (batch es s')
  with attempts_exhausted [OF batch(3) blocked_batch [OF batch(2) assms(2)]] show ?thesis by simp
qed simp

lemma ticks_blocked:
  assumes "okay s" and "blocked (maxRetries wk) (limit_of (batchSize wk)) (rows s)"
  shows "view (ticks wk n s) = view s"
  using assms
proof (induction n arbitrary: s)
  case (Suc n)
  then have eq: "view (snd (worker_tick wk s)) = view s"
    by (intro tick_blocked)
  with Suc.prems have "view (ticks wk n (snd (worker_tick wk s))) = view (snd (worker_tick wk s))"
    by (intro Suc.IH) (auto simp: worker_tick_okay)
  with eq show ?case by simp
qed simp

end

section \<open>A worker whose calls succeed\<close>

text \<open>
  States in which every call answers, and stays answering: the fetch gives a batch, the channel
  reports no error, the marks are written.
\<close>

locale healthy_worker = outbox_worker rows okay wk limit_of norm sent msg
  for rows :: "'w \<Rightarrow> outbox_event list" and okay :: "'w \<Rightarrow> bool" and wk :: "'w worker"
    and limit_of :: "int \<Rightarrow> nat" and norm :: "'w \<Rightarrow> bytes \<Rightarrow> bytes" and sent :: "'w \<Rightarrow> 'm list" and msg :: "outbox_event \<Rightarrow> 'm" +
  fixes well :: "'w \<Rightarrow> bool"
  assumes well_fetch: "well s \<Longrightarrow> \<exists>es. fst (or_FetchUnpublished (outboxRepo wk) (batchSize wk) s) = Ret (Inr es)"
    and well_fetch_state: "well s \<Longrightarrow> well (snd (or_FetchUnpublished (outboxRepo wk) (batchSize wk) s))"
    and well_publish: "well s \<Longrightarrow> fst (pub_Publish (publisher wk) e s) = None"
    and well_publish_state: "well s \<Longrightarrow> well (snd (pub_Publish (publisher wk) e s))"
    and well_mark: "well s \<Longrightarrow> fst (or_MarkPublished (outboxRepo wk) i s) = None"
    and well_mark_state: "well s \<Longrightarrow> well (snd (or_MarkPublished (outboxRepo wk) i s))"
begin

lemma process_event_well:
  assumes "well s" and "oe_retry_count e < maxRetries wk"
  shows "\<exists>t. rows (process_event wk e s) = on_row (oe_id e) (publish_at t) (rows s) \<and>
    sent (process_event wk e s) = sent s @ [msg e] \<and> well (process_event wk e s)"
proof -
  obtain s1 where pub: "pub_Publish (publisher wk) e s = (None, s1)"
    using well_publish [OF assms(1), of e] by (metis prod.collapse)
  with publish_rows [of e s] publish_sent [OF pub] well_publish_state [OF assms(1), of e]
  have s1: "rows s1 = rows s" "sent s1 = sent s @ [msg e]" "well s1" by auto
  obtain s2 where mark: "or_MarkPublished (outboxRepo wk) (oe_id e) s1 = (None, s2)"
    using well_mark [OF s1(3), of "oe_id e"] by (metis prod.collapse)
  with published_rows [OF mark] marked_sent [of "oe_id e" s1] well_mark_state [OF s1(3), of "oe_id e"] s1
  show ?thesis
    using assms(2) by (auto simp: process_event_def pub Let_def)
qed

lemma process_events_well:
  assumes "well s" and "eligible (maxRetries wk) es = es"
  shows "unpublished (rows (process_events wk es s)) =
      filter (\<lambda>r. oe_id r \<notin> oe_id ` set es) (unpublished (rows s)) \<and>
    sent (process_events wk es s) = sent s @ map msg es \<and> well (process_events wk es s)"
  using assms
proof (induction es arbitrary: s)
  case (Cons e es)
  then have e: "oe_retry_count e < maxRetries wk" and es: "eligible (maxRetries wk) es = es"
    by (simp_all add: eligible_id)
  from process_event_well [OF Cons.prems(1) e] obtain t where
    one: "rows (process_event wk e s) = on_row (oe_id e) (publish_at t) (rows s)"
      "sent (process_event wk e s) = sent s @ [msg e]" "well (process_event wk e s)"
    by blast
  from Cons.IH [OF one(3) es] show ?case
    by (auto simp: one unpublished_publish intro: filter_cong)
qed simp

text \<open>
  One tick of an outbox without exhausted rows: a full batch goes out and leaves the unpublished
  rows; what remains is still without exhausted rows.
\<close>

lemma tick_well:
  assumes "okay s" and "well s" and "eligible (maxRetries wk) (unpublished (rows s)) = unpublished (rows s)"
  defines "s' \<equiv> snd (worker_tick wk s)"
  shows "well s'" and "okay s'"
    and "eligible (maxRetries wk) (unpublished (rows s')) = unpublished (rows s')"
    and "length (unpublished (rows s')) = length (unpublished (rows s)) - limit_of (batchSize wk)"
    and "mset (sent s') + image_mset msg (mset (unpublished (rows s'))) =
      mset (sent s) + image_mset msg (mset (unpublished (rows s)))"
proof -
  obtain es s1 where fetch: "or_FetchUnpublished (outboxRepo wk) (batchSize wk) s = (Ret (Inr es), s1)"
    using well_fetch [OF assms(2)] by (metis prod.collapse)
  then have s': "s' = process_events wk es s1"
    by (simp add: s'_def worker_tick_def process_outbox_def)
  from fetch fetch_rows [of "batchSize wk" s] fetch_sent [of "batchSize wk" s] well_fetch_state [OF assms(2)]
  have s1: "rows s1 = rows s" "sent s1 = sent s" "well s1" by auto
  from fetch_batch [OF assms(1), of "batchSize wk" es] fetch
  have batch: "oldest_batch (limit_of (batchSize wk)) es (rows s)" by simp
  then obtain rest where ms: "mset (es @ rest) = mset (unpublished (rows s))"
    and len: "length es = min (limit_of (batchSize wk)) (length (unpublished (rows s)))"
    by (auto simp: oldest_batch_def)
  have "set es \<subseteq> set (unpublished (rows s))"
    by (rule oldest_batch_set [OF batch])
  with assms(3) have es: "eligible (maxRetries wk) es = es"
    by (auto simp: eligible_id)
  note run = process_events_well [OF s1(3) es, folded s', unfolded s1]
  have "distinct (map oe_id (unpublished (rows s)))"
    using okay_distinct [OF assms(1)] by (simp add: unpublished_def distinct_map_filter)
  then have dist: "distinct (map oe_id (es @ rest))"
    using ms by (metis distinct_map_mset)
  have "mset (unpublished (rows s')) = filter_mset (\<lambda>r. oe_id r \<notin> oe_id ` set es) (mset (es @ rest))"
    using run ms by (simp add: mset_filter)
  also have "\<dots> = mset (filter (\<lambda>r. oe_id r \<notin> oe_id ` set es) es @ filter (\<lambda>r. oe_id r \<notin> oe_id ` set es) rest)"
    by (simp flip: mset_filter)
  also have "filter (\<lambda>r. oe_id r \<notin> oe_id ` set es) es = []"
    by (simp add: filter_empty_conv)
  also have "filter (\<lambda>r. oe_id r \<notin> oe_id ` set es) rest = rest"
    using dist by (auto simp: filter_id_conv)
  finally have rest: "mset (unpublished (rows s')) = mset rest" by simp
  show "well s'" using run by simp
  show "okay s'" unfolding s'_def by (rule worker_tick_okay [OF assms(1)])
  show "eligible (maxRetries wk) (unpublished (rows s')) = unpublished (rows s')"
    using run assms(3) by (simp add: eligible_id)
  have "length es + length rest = length (unpublished (rows s))"
    using ms by (metis length_append size_mset)
  moreover have "length (unpublished (rows s')) = length rest"
    using rest by (metis size_mset)
  ultimately show "length (unpublished (rows s')) = length (unpublished (rows s)) - limit_of (batchSize wk)"
    using len by simp
  show "mset (sent s') + image_mset msg (mset (unpublished (rows s'))) =
      mset (sent s) + image_mset msg (mset (unpublished (rows s)))"
    using run rest by (simp flip: ms)
qed

lemma ticks_well:
  assumes "okay s" and "well s" and "eligible (maxRetries wk) (unpublished (rows s)) = unpublished (rows s)"
  shows "length (unpublished (rows (ticks wk n s))) =
      length (unpublished (rows s)) - n * limit_of (batchSize wk) \<and>
    mset (sent (ticks wk n s)) + image_mset msg (mset (unpublished (rows (ticks wk n s)))) =
      mset (sent s) + image_mset msg (mset (unpublished (rows s)))"
  using assms
proof (induction n arbitrary: s)
  case (Suc n)
  note one = tick_well [OF Suc.prems]
  from Suc.IH [OF one(2,1,3)] one(4,5) show ?case by simp
qed simp

lemma drained:
  assumes "okay s" and "well s" and "eligible (maxRetries wk) (unpublished (rows s)) = unpublished (rows s)"
    and "length (unpublished (rows s)) \<le> n * limit_of (batchSize wk)"
  shows "unpublished (rows (ticks wk n s)) = []"
    and "mset (sent (ticks wk n s)) = mset (sent s) + image_mset msg (mset (unpublished (rows s)))"
proof -
  note all = ticks_well [OF assms(1-3), of n]
  show "unpublished (rows (ticks wk n s)) = []"
    using all assms(4) by simp
  with all show "mset (sent (ticks wk n s)) = mset (sent s) + image_mset msg (mset (unpublished (rows s)))"
    by simp
qed

end

end
