(* ===== verification/Logger.thy ===== *)
theory Logger
  imports LogInterface
begin

text \<open>
  \<open>pkg/logger/logger.go\<close>: the logger over \<open>zerolog\<close>. What it decides is which event it opens
  (a level and the fields collected so far) and whether it ends it with \<open>Msg\<close> or \<open>Msgf\<close>; what
  \<open>zerolog\<close>, \<open>fmt\<close> and the operating system do with that are fields of a record of parameters.
\<close>

section \<open>Levels\<close>

text \<open>The levels of \<open>zerolog\<close> the program names, in their order.\<close>

datatype zlevel = TraceLevel | DebugLevel | InfoLevel | WarnLevel | ErrorLevel | FatalLevel

fun zrank :: "zlevel \<Rightarrow> int" where
  "zrank TraceLevel = - 1"
| "zrank DebugLevel = 0"
| "zrank InfoLevel = 1"
| "zrank WarnLevel = 2"
| "zrank ErrorLevel = 3"
| "zrank FatalLevel = 4"

lemma zrank_inject [simp]: "zrank a = zrank b \<longleftrightarrow> a = b"
  by (cases a; cases b) auto

instantiation zlevel :: linorder
begin

definition less_eq_zlevel :: "zlevel \<Rightarrow> zlevel \<Rightarrow> bool" where
  "less_eq_zlevel a b \<longleftrightarrow> zrank a \<le> zrank b"

definition less_zlevel :: "zlevel \<Rightarrow> zlevel \<Rightarrow> bool" where
  "less_zlevel a b \<longleftrightarrow> zrank a < zrank b"

instance
  by standard (auto simp: less_eq_zlevel_def less_zlevel_def)

end

text \<open>
  \<open>strings.ToLower\<close>: bytewise on an ASCII string; \<open>unicode_lower\<close> is the library's mapping for
  any other.
\<close>

definition is_ascii :: "char \<Rightarrow> bool" where
  "is_ascii c \<longleftrightarrow> (of_char c :: nat) < 128"

definition lower_char :: "char \<Rightarrow> char" where
  "lower_char c = (let n = (of_char c :: nat) in if 65 \<le> n \<and> n \<le> 90 then char_of (n + 32) else c)"

definition ToLower :: "(string \<Rightarrow> string) \<Rightarrow> string \<Rightarrow> string" where
  "ToLower unicode_lower s = (if list_all is_ascii s then map lower_char s else unicode_lower s)"

section \<open>The logger\<close>

record 'w zerolog =
  z_Msg :: "zlevel \<Rightarrow> (string \<times> any) list \<Rightarrow> string \<Rightarrow> 'w \<Rightarrow> 'w"
  z_Msgf :: "zlevel \<Rightarrow> (string \<times> any) list \<Rightarrow> string \<Rightarrow> any list \<Rightarrow> 'w \<Rightarrow> 'w"
  z_SetGlobalLevel :: "zlevel \<Rightarrow> 'w \<Rightarrow> 'w"
  z_Exit :: "int \<Rightarrow> 'w \<Rightarrow> 'w"
  z_unknown :: "string \<Rightarrow> any \<Rightarrow> string"

text \<open>
  \<open>type Logger struct\<close>: a \<open>zerolog.Logger\<close> has a level of its own and the fields its context
  collected.
\<close>

record 'w zlogger =
  zl_api :: "'w zerolog"
  zl_level :: zlevel
  zl_fields :: "(string \<times> any) list"

definition levelDebug :: string where [simp]: "levelDebug = ''debug''"

definition levelInfo :: string where [simp]: "levelInfo = ''info''"

definition levelWarn :: string where [simp]: "levelWarn = ''warn''"

definition levelError :: string where [simp]: "levelError = ''error''"

definition level_of :: "(string \<Rightarrow> string) \<Rightarrow> string \<Rightarrow> zlevel" where
  "level_of ul level =
     (let s = ToLower ul level in
      if s = levelError then ErrorLevel
      else if s = levelWarn then WarnLevel
      else if s = levelInfo then InfoLevel
      else if s = levelDebug then DebugLevel
      else InfoLevel)"

text \<open>\<open>New\<close>; \<open>base\<close> is what \<open>zerolog.New(os.Stdout)\<close> and its context give.\<close>

definition new_logger ::
  "(string \<Rightarrow> string) \<Rightarrow> 'w zlogger \<Rightarrow> string \<Rightarrow> 'w \<Rightarrow> 'w zlogger \<times> 'w" where
  "new_logger ul base level w = (base, z_SetGlobalLevel (zl_api base) (level_of ul level) w)"

definition log_at :: "'w zlogger \<Rightarrow> string \<Rightarrow> string \<Rightarrow> any list \<Rightarrow> 'w \<Rightarrow> 'w" where
  "log_at l level message args w =
     (let event = (if level = levelDebug then DebugLevel
                   else if level = levelWarn then WarnLevel
                   else if level = levelError then ErrorLevel
                   else InfoLevel)
      in if args = [] then z_Msg (zl_api l) event (zl_fields l) message w
         else z_Msgf (zl_api l) event (zl_fields l) message args w)"

definition log_msg :: "'w zlogger \<Rightarrow> string \<Rightarrow> any \<Rightarrow> any list \<Rightarrow> 'w \<Rightarrow> 'w" where
  "log_msg l level message args w =
     (case message of
        AnyErr e \<Rightarrow> log_at l level (err_msg e) args w
      | AnyStr s \<Rightarrow> log_at l level s args w
      | _ \<Rightarrow> log_at l level (z_unknown (zl_api l) level message) args w)"

definition log_Debug :: "'w zlogger \<Rightarrow> any \<Rightarrow> any list \<Rightarrow> 'w \<Rightarrow> 'w" where
  "log_Debug l message args w = log_msg l ''debug'' message args w"

definition log_Info :: "'w zlogger \<Rightarrow> string \<Rightarrow> any list \<Rightarrow> 'w \<Rightarrow> 'w" where
  "log_Info l message args w = log_at l ''info'' message args w"

definition log_Warn :: "'w zlogger \<Rightarrow> string \<Rightarrow> any list \<Rightarrow> 'w \<Rightarrow> 'w" where
  "log_Warn l message args w = log_at l ''warn'' message args w"

definition log_Error :: "'w zlogger \<Rightarrow> any \<Rightarrow> any list \<Rightarrow> 'w \<Rightarrow> 'w" where
  "log_Error l message args w =
     (let w' = (if zl_level l = DebugLevel then log_Debug l message args w else w)
      in log_msg l ''error'' message args w')"

definition log_Fatal :: "'w zlogger \<Rightarrow> any \<Rightarrow> any list \<Rightarrow> 'w \<Rightarrow> 'w" where
  "log_Fatal l message args w = z_Exit (zl_api l) 1 (log_msg l ''fatal'' message args w)"

text \<open>The logger as a value of its interface.\<close>

definition logger_of :: "'w zlogger \<Rightarrow> 'w logger" where
  "logger_of l = \<lparr>lg_Debug = log_Debug l, lg_Info = log_Info l, lg_Warn = log_Warn l,
     lg_Error = log_Error l, lg_Fatal = log_Fatal l\<rparr>"

section \<open>Derived loggers and the request identifier\<close>

definition with_field :: "string \<Rightarrow> any \<Rightarrow> 'w zlogger \<Rightarrow> 'w zlogger" where
  "with_field key v l = l\<lparr>zl_fields := zl_fields l @ [(key, v)]\<rparr>"

text \<open>The map is given as the pairs in the order the range loop meets them.\<close>

definition with_fields :: "(string \<times> any) list \<Rightarrow> 'w zlogger \<Rightarrow> 'w zlogger" where
  "with_fields kvs l = l\<lparr>zl_fields := foldl (\<lambda>ctx (k, v). ctx @ [(k, v)]) (zl_fields l) kvs\<rparr>"

definition with_request_id :: "string \<Rightarrow> 'w zlogger \<Rightarrow> 'w zlogger" where
  "with_request_id request_id l = l\<lparr>zl_fields := zl_fields l @ [(''request_id'', AnyStr request_id)]\<rparr>"

text \<open>A \<open>context.Context\<close>, as far as the key of this package goes: the value it carries, if any.\<close>

type_synonym context_value = "any option"

definition ContextWithRequestID :: "context_value \<Rightarrow> string \<Rightarrow> context_value" where
  "ContextWithRequestID ctx request_id = Some (AnyStr request_id)"

definition RequestIDFromContext :: "context_value \<Rightarrow> string" where
  "RequestIDFromContext ctx = (case ctx of Some (AnyStr i) \<Rightarrow> i | _ \<Rightarrow> '''')"

definition with_context :: "context_value \<Rightarrow> 'w zlogger \<Rightarrow> 'w zlogger" where
  "with_context ctx l =
     (case ctx of
        Some (AnyStr i) \<Rightarrow> if i \<noteq> '''' then with_request_id i l else l
      | _ \<Rightarrow> l)"

lemma with_fields_appends [simp]: "zl_fields (with_fields fs l) = zl_fields l @ fs"
proof -
  have "foldl (\<lambda>ctx (k, v). ctx @ [(k, v)]) acc fs = acc @ fs" for acc
    by (induction fs arbitrary: acc) auto
  then show ?thesis by (simp add: with_fields_def)
qed

text \<open>A logger whose backend leaves a view alone is a quiet one.\<close>

lemma quiet_logger_of:
  assumes "\<And>lv fs s w. view (z_Msg (zl_api l) lv fs s w) = view w"
    and "\<And>lv fs s args w. view (z_Msgf (zl_api l) lv fs s args w) = view w"
  shows "quiet_logger (logger_of l) view"
  using assms
  by unfold_locales
     (auto simp: logger_of_def log_Info_def log_Warn_def log_Error_def log_Debug_def log_msg_def
       log_at_def Let_def split: any.splits)

section \<open>Properties\<close>

text \<open>
  A backend that records what reaches the output: the filter of \<open>zerolog\<close> passes an event at or
  above the global level.
\<close>

record sink =
  global_level :: zlevel
  written :: "(zlevel \<times> string) list"
  exited :: "int option"

definition sink_write :: "zlevel \<Rightarrow> string \<Rightarrow> sink \<Rightarrow> sink" where
  "sink_write lv s w =
     (if global_level w \<le> lv then w\<lparr>written := written w @ [(lv, s)]\<rparr> else w)"

definition sink_api :: "(string \<Rightarrow> any list \<Rightarrow> string) \<Rightarrow> sink zerolog" where
  "sink_api sprintf = \<lparr>z_Msg = (\<lambda>lv fs s. sink_write lv s),
     z_Msgf = (\<lambda>lv fs s args. sink_write lv (sprintf s args)),
     z_SetGlobalLevel = (\<lambda>lv w. w\<lparr>global_level := lv\<rparr>), z_Exit = (\<lambda>c w. w\<lparr>exited := Some c\<rparr>),
     z_unknown = (\<lambda>lv v. lv)\<rparr>"

text \<open>
  Over a backend that passes events at or above the global level, a warning or an error is
  written exactly when the configured level does not exclude it, with the error's text when the
  value is an error, and every unknown level name behaves as \<open>info\<close>.
\<close>

theorem level_filter:
  assumes "zl_api base = sink_api sprintf" and "zl_level base \<noteq> DebugLevel"
    and "new_logger ul base level w = (l, w')"
  shows "written (log_Warn l m [] w') =
      written w @ (if level_of ul level \<le> WarnLevel then [(WarnLevel, m)] else []) \<and>
    written (log_Info l m [] w') =
      written w @ (if level_of ul level \<le> InfoLevel then [(InfoLevel, m)] else []) \<and>
    written (log_Error l (AnyErr e) [] w') = written w @ [(ErrorLevel, err_msg e)]"
proof -
  have base: "l = base" "w' = w\<lparr>global_level := level_of ul level\<rparr>"
    using assms by (auto simp: new_logger_def sink_api_def)
  have err: "level_of ul level \<le> ErrorLevel"
    by (simp add: level_of_def Let_def less_eq_zlevel_def)
  show ?thesis
    using assms(1,2) err
    by (auto simp: base log_Warn_def log_Info_def log_Error_def log_msg_def log_at_def sink_api_def
        sink_write_def Let_def)
qed

definition sample_logger :: "sink zlogger" where
  "sample_logger = \<lparr>zl_api = sink_api (\<lambda>s args. s), zl_level = TraceLevel, zl_fields = []\<rparr>"

definition sample_sink :: sink where
  "sample_sink = \<lparr>global_level = ErrorLevel, written = [], exited = None\<rparr>"

lemma level_filter_witness:
  "written (log_Error sample_logger (AnyErr (ErrNew ''boom'')) []
     (sample_sink\<lparr>global_level := level_of (\<lambda>s. s) ''WARN''\<rparr>)) = [(ErrorLevel, ''boom'')]"
  using level_filter [of sample_logger "\<lambda>s args. s" "\<lambda>s. s" "''WARN''" sample_sink sample_logger
      "sample_sink\<lparr>global_level := level_of (\<lambda>s. s) ''WARN''\<rparr>" "''m''" "ErrNew ''boom''"]
  by (simp add: sample_logger_def sample_sink_def new_logger_def sink_api_def)

text \<open>
  A fatal message is opened as an \<open>info\<close> event: with the level set to \<open>warn\<close> or \<open>error\<close> the
  process exits with status 1 and the reason is not written anywhere.
\<close>

theorem fatal_is_silent:
  assumes "zl_api l = sink_api sprintf" and "InfoLevel < global_level w"
  shows "exited (log_Fatal l (AnyErr e) [] w) = Some 1 \<and> written (log_Fatal l (AnyErr e) [] w) = written w"
  using assms
  by (auto simp: log_Fatal_def log_msg_def log_at_def sink_api_def sink_write_def less_zlevel_def
      less_eq_zlevel_def)

lemma fatal_is_silent_witness:
  "written (log_Fatal sample_logger (AnyErr (ErrNew ''app - Run - postgres.New: refused'')) [] sample_sink) = []"
  using fatal_is_silent [of sample_logger "\<lambda>s args. s" sample_sink
      "ErrNew ''app - Run - postgres.New: refused''"]
  by (simp add: sample_logger_def sample_sink_def less_zlevel_def)

text \<open>
  The request identifier set on a context is the one read back, and a logger taken from that
  context carries it as its last field unless it is empty.
\<close>

theorem request_id_roundtrip:
  "RequestIDFromContext (ContextWithRequestID ctx i) = i \<and>
   zl_fields (with_context (ContextWithRequestID ctx i) l) =
     zl_fields l @ (if i = '''' then [] else [(''request_id'', AnyStr i)])"
  by (simp add: RequestIDFromContext_def ContextWithRequestID_def with_context_def with_request_id_def)

end
