(* ===== verification/OutboxSystem.thy ===== *)
theory OutboxSystem
  imports OutboxRepo EventWorker Logger
begin

text \<open>
  The outbox as the program wires it: the PostgreSQL repository, the publisher of
  \<open>pkg/eventbus/rabbitmq.go\<close> and the logger of \<open>pkg/logger\<close> under the worker of
  \<open>pkg/eventbus/worker.go\<close>. The locales of the worker are interpreted here on these definitions,
  and the properties of the whole pipeline are read off.
\<close>

section \<open>The channel to the broker\<close>

text \<open>\<open>amqp.Publishing\<close> with the exchange and the routing key it is sent to.\<close>

record publishing =
  p_exchange :: string
  p_routing_key :: string
  p_mandatory :: bool
  p_immediate :: bool
  p_content_type :: string
  p_delivery_mode :: nat
  p_message_id :: string
  p_timestamp :: time
  p_type :: string
  p_body :: bytes

text \<open>
  The state of the whole system: the database, the messages the channel took without an error, those
  that reached the broker, how the channel will answer the calls still to come and which of their
  frames will arrive, and the log. The channel is not in confirm mode, so its answer says nothing
  of the broker: \<open>PublishWithContext\<close> returns nil once the frames are written to the connection, and
  they may be lost there; and a write that reports an error may have got through.
\<close>

record outbox_system = pg +
  handed_over :: "publishing list"
  received :: "publishing list"
  publish_answer :: "nat \<Rightarrow> goerr option"
  arrives :: "nat \<Rightarrow> bool"
  log_lines :: "(zlevel \<times> string) list"

definition contentType :: string where "contentType = ''application/json''"

text \<open>\<open>amqp.Persistent\<close> is the constant 2 of the AMQP protocol.\<close>

definition rabbitmq_message :: "string \<Rightarrow> (uuid \<Rightarrow> string) \<Rightarrow> time \<Rightarrow> outbox_event \<Rightarrow> publishing" where
  "rabbitmq_message exchange txt t e =
     \<lparr>p_exchange = exchange, p_routing_key = oe_event_type e, p_mandatory = False,
      p_immediate = False, p_content_type = contentType, p_delivery_mode = 2,
      p_message_id = txt (oe_id e), p_timestamp = t, p_type = oe_event_type e,
      p_body = oe_payload e\<rparr>"

text \<open>\<open>RabbitMQPublisher.Publish\<close>: the error is the channel's, returned as it is.\<close>

definition rabbitmq_Publish ::
  "string \<Rightarrow> (uuid \<Rightarrow> string) \<Rightarrow> outbox_event \<Rightarrow> outbox_system \<Rightarrow> goerr option \<times> outbox_system" where
  "rabbitmq_Publish exchange txt e w =
     (let m = rabbitmq_message exchange txt (now w) e;
          w1 = (if arrives w (tick w) then w\<lparr>received := received w @ [m]\<rparr> else w) in
      case publish_answer w (tick w) of
        Some err \<Rightarrow> (Some err, advance w1)
      | None \<Rightarrow> (None, advance (w1\<lparr>handed_over := handed_over w1 @ [m]\<rparr>)))"

text \<open>The log of the system keeps the level and the message of each line.\<close>

definition system_log :: "outbox_system zlogger" where
  "system_log = \<lparr>zl_api = \<lparr>z_Msg = (\<lambda>lv fs s w. w\<lparr>log_lines := log_lines w @ [(lv, s)]\<rparr>),
       z_Msgf = (\<lambda>lv fs s args w. w\<lparr>log_lines := log_lines w @ [(lv, s)]\<rparr>),
       z_SetGlobalLevel = (\<lambda>lv w. w), z_Exit = (\<lambda>c w. w), z_unknown = (\<lambda>lv v. lv)\<rparr>,
     zl_level = TraceLevel, zl_fields = []\<rparr>"

definition outbox_worker_of ::
  "string \<Rightarrow> (uuid \<Rightarrow> string) \<Rightarrow> worker_option list \<Rightarrow> outbox_system worker" where
  "outbox_worker_of exchange txt opts =
     new_worker pg_outbox_repo
       \<lparr>pub_Publish = rabbitmq_Publish exchange txt, pub_Close = (\<lambda>w. (None, w))\<rparr>
       (logger_of system_log) txt opts"

text \<open>What a consumer can tell of a message: its identifier, its type and its body.\<close>

definition message_key :: "publishing \<Rightarrow> string \<times> string \<times> bytes" where
  "message_key p = (p_message_id p, p_type p, p_body p)"

definition sent_messages :: "outbox_system \<Rightarrow> (string \<times> string \<times> bytes) list" where
  "sent_messages w = map message_key (handed_over w)"

definition received_messages :: "outbox_system \<Rightarrow> (string \<times> string \<times> bytes) list" where
  "received_messages w = map message_key (received w)"

definition event_message :: "(uuid \<Rightarrow> string) \<Rightarrow> outbox_event \<Rightarrow> string \<times> string \<times> bytes" where
  "event_message txt e = (txt (oe_id e), oe_event_type e, oe_payload e)"

section \<open>The locales on the program's own definitions\<close>

lemma new_worker_parts [simp]:
  "outboxRepo (new_worker r p l txt opts) = r" "publisher (new_worker r p l txt opts) = p"
  "worker_log (new_worker r p l txt opts) = l" "uuid_text (new_worker r p l txt opts) = txt"
proof -
  have step: "outboxRepo (apply_worker_option x w) = outboxRepo w"
      "publisher (apply_worker_option x w) = publisher w"
      "worker_log (apply_worker_option x w) = worker_log w"
      "uuid_text (apply_worker_option x w) = uuid_text w" for x and w :: "'c worker"
    by (cases x; simp)+
  have "outboxRepo (foldl (\<lambda>w opt. apply_worker_option opt w) w opts) = outboxRepo w \<and>
      publisher (foldl (\<lambda>w opt. apply_worker_option opt w) w opts) = publisher w \<and>
      worker_log (foldl (\<lambda>w opt. apply_worker_option opt w) w opts) = worker_log w \<and>
      uuid_text (foldl (\<lambda>w opt. apply_worker_option opt w) w opts) = uuid_text w"
    for w :: "'a worker"
    by (induction opts arbitrary: w) (auto simp: step)
  then show "outboxRepo (new_worker r p l txt opts) = r" "publisher (new_worker r p l txt opts) = p"
    "worker_log (new_worker r p l txt opts) = l" "uuid_text (new_worker r p l txt opts) = txt"
    by (simp_all add: new_worker_def)
qed

lemma event_message_fun: "event_message txt = (\<lambda>e. (txt (oe_id e), oe_event_type e, oe_payload e))"
  by (simp add: fun_eq_iff event_message_def)

lemma stable_event_message: "stable_message (event_message txt)"
  by (simp add: stable_message_def event_message_def)

lemma message_key_rabbitmq [simp]: "message_key (rabbitmq_message exchange txt t e) = event_message txt e"
  by (simp add: message_key_def rabbitmq_message_def event_message_def)

text \<open>Calls of the repository leave the channel alone.\<close>

lemmas repo_sent = outbox_repo_view [where view = sent_messages]

lemma sent_messages_frame [simp]:
  "sent_messages (advance w) = sent_messages w" "sent_messages (w\<lparr>outbox := rs\<rparr>) = sent_messages w"
  "received_messages (advance w) = received_messages w"
  "received_messages (w\<lparr>outbox := rs\<rparr>) = received_messages w"
  by (simp_all add: sent_messages_def received_messages_def advance_def)

lemma channel_frame [simp]:
  "handed_over (advance w) = handed_over w" "handed_over (w\<lparr>outbox := rs\<rparr>) = handed_over w"
  "received (advance w) = received w" "received (w\<lparr>outbox := rs\<rparr>) = received w"
  "arrives (advance w) = arrives w" "arrives (w\<lparr>outbox := rs\<rparr>) = arrives w"
  "publish_answer (advance w) = publish_answer w"
  by (simp_all add: advance_def)

text \<open>What a publication does to the two lists, by the answer and the fate of the frames.\<close>

lemma rabbitmq_Publish_lists:
  assumes "rabbitmq_Publish exchange txt e s = (r, s')"
  defines "m \<equiv> rabbitmq_message exchange txt (now s) e"
  shows "handed_over s' = (if r = None then handed_over s @ [m] else handed_over s)"
    and "received s' = (if arrives s (tick s) then received s @ [m] else received s)"
    and "arrives s' = arrives s"
  using assms by (auto simp: rabbitmq_Publish_def Let_def split: option.splits if_splits)

lemma rabbitmq_Publish_sent:
  assumes "rabbitmq_Publish exchange txt e s = (r, s')"
  shows "sent_messages s' = (if r = None then sent_messages s @ [event_message txt e] else sent_messages s)"
  using rabbitmq_Publish_lists(1) [OF assms] by (simp add: sent_messages_def)

lemma rabbitmq_Publish_frame:
  "outbox (snd (rabbitmq_Publish exchange txt e s)) = outbox s"
  "outbox_okay (snd (rabbitmq_Publish exchange txt e s)) = outbox_okay s"
  by (simp_all add: rabbitmq_Publish_def outbox_okay_def advance_def Let_def split: option.splits)

interpretation system_logger: quiet_logger "logger_of system_log"
  "\<lambda>s. (outbox s, sent_messages s, outbox_okay s)"
  by (rule quiet_logger_of)
     (simp_all add: system_log_def sent_messages_def outbox_okay_def)

text \<open>The log touches nothing but its own lines.\<close>

interpretation log_lines_only: quiet_logger "logger_of system_log" "\<lambda>s. s\<lparr>log_lines := []\<rparr>"
  by (rule quiet_logger_of) (simp_all add: system_log_def)

interpretation system_worker: outbox_worker outbox outbox_okay "outbox_worker_of exchange txt opts"
  "\<lambda>l. nat (safe_limit l)" jsonb sent_messages "event_message txt"
  for exchange txt opts
proof (rule outbox_worker.intro)
  let ?wk = "outbox_worker_of exchange txt opts"
  show "outbox_contract outbox outbox_okay (outboxRepo ?wk) (\<lambda>l. nat (safe_limit l)) jsonb"
    by (simp add: outbox_worker_of_def pg_outbox.outbox_contract_axioms)
  show "quiet_logger (worker_log ?wk) (\<lambda>s. (outbox s, sent_messages s, outbox_okay s))"
    by (simp add: outbox_worker_of_def system_logger.quiet_logger_axioms)
  show "outbox_worker_axioms outbox outbox_okay ?wk sent_messages (event_message txt)"
    by unfold_locales
      (simp_all add: outbox_worker_of_def pg_outbox_repo_def stable_event_message
        rabbitmq_Publish_sent rabbitmq_Publish_frame repo_sent)
qed

text \<open>
  The states in which database and channel answer every call and a batch of \<open>n\<close> can be allocated.
\<close>

definition system_well :: "int \<Rightarrow> outbox_system \<Rightarrow> bool" where
  "system_well n w \<longleftrightarrow> healthy w \<and> publish_answer w = (\<lambda>_. None) \<and> scan_ok (scan_outbox w) \<and>
     0 \<le> n \<and> n \<le> max_slice w"

lemma system_well_frame [simp]:
  "system_well n (advance w) = system_well n w"
  "system_well n (w\<lparr>outbox := rs\<rparr>) = system_well n w"
  "system_well n (w\<lparr>handed_over := ps\<rparr>) = system_well n w"
  "system_well n (w\<lparr>received := ps\<rparr>) = system_well n w"
  by (simp_all add: system_well_def healthy_def advance_def)

lemmas repo_well = outbox_repo_view [where view = "system_well n" for n]

lemma MarkPublished_healthy: "healthy w \<Longrightarrow> fst (outbox_MarkPublished i w) = None"
  by (simp add: outbox_MarkPublished_def pg_exec_healthy Let_def)

lemma rabbitmq_Publish_well:
  assumes "system_well n w"
  shows "fst (rabbitmq_Publish exchange txt e w) = None"
    and "system_well n (snd (rabbitmq_Publish exchange txt e w))"
proof -
  have "publish_answer w = (\<lambda>_. None)"
    using assms by (simp add: system_well_def)
  with assms show "fst (rabbitmq_Publish exchange txt e w) = None"
    "system_well n (snd (rabbitmq_Publish exchange txt e w))"
    by (simp_all add: rabbitmq_Publish_def Let_def)
qed

lemma system_well_fetch:
  "system_well n w \<Longrightarrow>
     outbox_FetchUnpublished n w = (Ret (Inr (oldest_unpublished n w)), advance w)"
  unfolding system_well_def by (intro FetchUnpublished_healthy) auto

interpretation healthy_system: healthy_worker outbox outbox_okay "outbox_worker_of exchange txt opts"
  "\<lambda>l. nat (safe_limit l)" jsonb sent_messages "event_message txt"
  "system_well (batchSize (outbox_worker_of exchange txt opts))"
  for exchange txt opts
proof (rule healthy_worker.intro)
  let ?wk = "outbox_worker_of exchange txt opts"
  show "outbox_worker outbox outbox_okay ?wk (\<lambda>l. nat (safe_limit l)) jsonb sent_messages (event_message txt)"
    by (rule system_worker.outbox_worker_axioms)
  have parts: "outboxRepo ?wk = pg_outbox_repo" "pub_Publish (publisher ?wk) = rabbitmq_Publish exchange txt"
    by (simp_all add: outbox_worker_of_def)
  have mark: "fst (outbox_MarkPublished i w) = None" if "system_well (batchSize ?wk) w" for i w
    using that by (auto simp: system_well_def MarkPublished_healthy)
  show "healthy_worker_axioms ?wk (system_well (batchSize ?wk))"
    by unfold_locales
      (simp_all add: parts pg_outbox_repo_def repo_well system_well_fetch rabbitmq_Publish_well mark)
qed

text \<open>
  What the calls of a cycle keep, the cycle keeps; of the messages it publishes it is known that they
  are those of rows.
\<close>

lemma system_tick_invariant:
  assumes "wk = outbox_worker_of exchange txt opts" and "outbox_okay s" and "P s"
    and "\<And>s s'. s\<lparr>log_lines := []\<rparr> = s'\<lparr>log_lines := []\<rparr> \<Longrightarrow> P s \<Longrightarrow> P s'"
    and "\<And>s. P (advance s) = P s" and "\<And>s rs. P (s\<lparr>outbox := rs\<rparr>) = P s"
    and "\<And>e s'. e \<in> set (outbox s) \<Longrightarrow> P s' \<Longrightarrow> P (snd (rabbitmq_Publish exchange txt e s'))"
  shows "P (snd (worker_tick wk s))"
proof (rule worker_tick_invariant [where P = P])
  show "P s" by (rule assms(3))
  show "P (lg_Warn (worker_log wk) m args s)" if "P s" for m args s
    by (rule assms(4) [OF _ that])
      (simp add: assms(1) outbox_worker_of_def log_lines_only.warn_view)
  show "P (lg_Error (worker_log wk) a args s)" if "P s" for a args s
    by (rule assms(4) [OF _ that])
      (simp add: assms(1) outbox_worker_of_def log_lines_only.error_view)
  note repo = outbox_repo_view [where view = P, OF assms(5,6)]
  show "P (snd (or_FetchUnpublished (outboxRepo wk) (batchSize wk) s))" if "P s" for s
    using that by (simp add: assms(1) outbox_worker_of_def pg_outbox_repo_def repo)
  show "P (snd (or_MarkPublished (outboxRepo wk) i s))" if "P s" for i s
    using that by (simp add: assms(1) outbox_worker_of_def pg_outbox_repo_def repo)
  show "P (snd (or_MarkFailed (outboxRepo wk) i err s))" if "P s" for i err s
    using that by (simp add: assms(1) outbox_worker_of_def pg_outbox_repo_def repo)
next
  fix es e s'
  assume fetched: "fst (or_FetchUnpublished (outboxRepo wk) (batchSize wk) s) = Ret (Inr es)"
    and "e \<in> set es" and "P s'"
  moreover have "oldest_batch (nat (safe_limit (batchSize wk))) es (outbox s)"
    using system_worker.fetch_batch [OF assms(2)] fetched unfolding assms(1) by blast
  then have "set es \<subseteq> set (outbox s)"
    using oldest_batch_set by (fastforce simp: set_unpublished)
  ultimately show "P (snd (pub_Publish (publisher wk) e s'))"
    using assms(7) by (auto simp: assms(1) outbox_worker_of_def)
qed

text \<open>The broker receives only what stands in a row, and all that was handed over if no frame is lost.\<close>

definition nothing_lost :: "outbox_system \<Rightarrow> bool" where
  "nothing_lost s \<longleftrightarrow> (\<forall>n. arrives s n) \<and> set (handed_over s) \<subseteq> set (received s)"

lemma nothing_lost_frame [simp]:
  "nothing_lost (advance s) = nothing_lost s" "nothing_lost (s\<lparr>outbox := rs\<rparr>) = nothing_lost s"
  by (simp_all add: nothing_lost_def)

lemma log_lines_fields:
  assumes "s\<lparr>log_lines := []\<rparr> = s'\<lparr>log_lines := []\<rparr>"
  shows "arrives s' = arrives s" "handed_over s' = handed_over s" "received s' = received s"
    "tick s' = tick s" "publish_answer s' = publish_answer s" "system_well n s' = system_well n s"
proof -
  show "arrives s' = arrives s" "handed_over s' = handed_over s" "received s' = received s"
    "tick s' = tick s" "publish_answer s' = publish_answer s"
    using assms by (cases s; cases s'; simp)+
  show "system_well n s' = system_well n s"
    using assms by (cases s; cases s'; simp add: system_well_def healthy_def)
qed

lemma Store_channel:
  "handed_over (snd (outbox_Store es s)) = handed_over s" "received (snd (outbox_Store es s)) = received s"
  "received_messages (snd (outbox_Store es s)) = received_messages s"
  "nothing_lost (snd (outbox_Store es s)) = nothing_lost s"
  by (rule outbox_repo_view(1); simp)+

lemma run_nothing_lost:
  assumes "wk = outbox_worker_of exchange txt opts" and "outbox_run wk s t" and "outbox_okay s"
    and "nothing_lost s"
  shows "nothing_lost t"
  using assms(2-4)
proof (induction rule: outbox_run.induct)
  case (store s t es r u)
  then show ?case
    using Store_channel(4) [of es t] by (simp add: assms(1) outbox_worker_of_def pg_outbox_repo_def)
next
  case (tick s t r u)
  then have ok: "outbox_okay t"
    using system_worker.run_messages [of exchange "txt" opts s t] assms(1) by simp
  have "nothing_lost (snd (worker_tick wk t))"
  proof (rule system_tick_invariant [OF assms(1) ok, where P = nothing_lost])
    show "nothing_lost (snd (rabbitmq_Publish exchange txt e s'))" if "nothing_lost s'" for e s'
      using that rabbitmq_Publish_lists [OF prod.collapse [symmetric], of exchange "txt" e s']
      by (auto simp: nothing_lost_def)
    show "nothing_lost s2" if "s1\<lparr>log_lines := []\<rparr> = s2\<lparr>log_lines := []\<rparr>" "nothing_lost s1" for s1 s2
      using that(2) log_lines_fields [OF that(1)] by (simp add: nothing_lost_def)
  qed (use tick in simp_all)
  with tick show ?case by simp
qed simp

lemma run_received_rows:
  assumes "wk = outbox_worker_of exchange txt opts" and "outbox_run wk s t" and "outbox_okay s"
    and "set (received_messages s) \<subseteq> event_message txt ` set (outbox s)"
  shows "set (received_messages t) \<subseteq> event_message txt ` set (outbox t)"
  using assms(2-4)
proof (induction rule: outbox_run.induct)
  case (store s t es r u)
  then have "set (received_messages u) \<subseteq> event_message txt ` set (outbox t)"
    using Store_channel(3) [of es t] by (simp add: assms(1) outbox_worker_of_def pg_outbox_repo_def)
  moreover have "set (outbox t) \<subseteq> set (outbox u)"
    using store.hyps(2) system_worker.store_rows [of exchange "txt" opts es t r u] assms(1) by auto
  ultimately show ?case by blast
next
  case (tick s t r u)
  let ?M = "event_message txt ` set (outbox t)"
  from tick have ok: "outbox_okay t"
    using system_worker.run_messages [of exchange "txt" opts s t] assms(1) by simp
  have "set (received_messages (snd (worker_tick wk t))) \<subseteq> ?M"
  proof (rule system_tick_invariant [OF assms(1) ok, where P = "\<lambda>s. set (received_messages s) \<subseteq> ?M"])
    show "set (received_messages s2) \<subseteq> ?M"
      if "s1\<lparr>log_lines := []\<rparr> = s2\<lparr>log_lines := []\<rparr>" "set (received_messages s1) \<subseteq> ?M" for s1 s2
      using that(2) log_lines_fields [OF that(1)] by (simp add: received_messages_def)
    show "set (received_messages (snd (rabbitmq_Publish exchange txt e s'))) \<subseteq> ?M"
      if "e \<in> set (outbox t)" "set (received_messages s') \<subseteq> ?M" for e s'
      using that rabbitmq_Publish_lists(2) [OF prod.collapse [symmetric], of exchange "txt" e s']
      by (auto simp: received_messages_def)
  qed (use tick in simp_all)
  moreover have "?M \<subseteq> event_message txt ` set (outbox u)"
    using system_worker.run_messages [OF outbox_run.tick [OF outbox_run.start], of exchange "txt" opts t r u] ok
      tick.hyps(2) assms(1) by simp
  ultimately show ?case using tick.hyps(2) by auto
qed simp

section \<open>Properties\<close>

lemma worker_inv_empty:
  "outbox s = [] \<Longrightarrow> scan_ok (scan_outbox s) \<Longrightarrow> system_worker.worker_inv exchange txt opts s"
  by (simp add: system_worker.worker_inv_def outbox_okay_def published_sent_def retries_bounded_def)

text \<open>
  A run from an empty outbox, whatever stores and ticks it has, stays in the invariant.
\<close>

lemmas run_from_empty = system_worker.run_inv [OF _ worker_inv_empty]

text \<open>A sample system over the sample database, whose channel takes and delivers everything.\<close>

definition sample_system :: outbox_system where
  "sample_system = pg.extend empty_db (outbox_system.fields [] [] (\<lambda>_. None) (\<lambda>_. True) [])"

definition sample_text :: "uuid \<Rightarrow> string" where
  "sample_text i = replicate (unat i) CHR ''x''"

lemma sample_system_sel [simp]:
  "outbox sample_system = []" "scan_outbox sample_system = (\<lambda>k rs. rs)"
  "build_answer sample_system = (\<lambda>_. None)" "exec_answer sample_system = (\<lambda>_. Executed)"
  "query_answer sample_system = (\<lambda>_. AllRows)" "max_slice sample_system = 1000000"
  "handed_over sample_system = []" "received sample_system = []"
  "publish_answer sample_system = (\<lambda>_. None)" "arrives sample_system = (\<lambda>_. True)"
  "tick sample_system = 0" "clock sample_system = (\<lambda>n. 1000500 + 1000 * int n)"
  "jsonb sample_system = (\<lambda>b. b)" "sent_messages sample_system = []" "healthy sample_system"
  by (simp_all add: sample_system_def empty_db_def pg.defs outbox_system.defs sent_messages_def
      healthy_def)

lemma sample_worker_sel [simp]:
  "batchSize (outbox_worker_of x t []) = 100" "maxRetries (outbox_worker_of x t []) = 5"
  by (simp_all add: outbox_worker_of_def new_worker_def defaultBatchSize_def defaultMaxRetries_def)

lemma sample_store:
  "outbox_Store [sample_event 1 30] sample_system =
     (None, advance sample_system\<lparr>outbox := [sample_event 1 30]\<rparr>)"
  by (simp add: outbox_Store_def pg_exec_healthy insert_rows_def)

definition stored_system :: outbox_system where
  "stored_system = advance sample_system\<lparr>outbox := [sample_event 1 30]\<rparr>"

lemma stored_system_sel [simp]:
  "outbox stored_system = [sample_event 1 30]" "scan_outbox stored_system = (\<lambda>k rs. rs)"
  "sent_messages stored_system = []" "healthy stored_system" "max_slice stored_system = 1000000"
  "publish_answer stored_system = (\<lambda>_. None)" "system_well 100 stored_system"
  "outbox_okay stored_system" "arrives stored_system = (\<lambda>_. True)"
  by (simp_all add: stored_system_def system_well_def healthy_def outbox_okay_def advance_def
      sent_messages_def [of "_ :: outbox_system"])

text \<open>
  C1. A stored event is kept until it is handed over. In every run of stores and worker ticks that
  starts from an empty outbox, under every failure of database and channel, an event whose \<open>Store\<close>
  reported success is later either among the messages the channel took without an error, with its
  identifier, its type and its payload as the \<open>JSONB\<close> column gives it back, or still an unpublished
  row with them. If moreover no frame is lost on the way, the handed over message reached the broker.
\<close>

theorem stored_event_is_kept_or_handed_over:
  assumes "wk = outbox_worker_of exchange txt opts"
    and "outbox s = []" and "scan_ok (scan_outbox s)" and "outbox_run wk s t"
    and "outbox_Store es t = (None, u)" and "e \<in> set es" and "outbox_run wk u v"
  defines "m \<equiv> (txt (oe_id e), oe_event_type e, jsonb t (oe_payload e))"
  shows "m \<in> set (sent_messages v) \<and>
      (handed_over s = [] \<and> (\<forall>n. arrives s n) \<longrightarrow> m \<in> set (received_messages v)) \<or>
    (\<exists>r. r \<in> set (outbox v) \<and> oe_published_at r = None \<and>
      (txt (oe_id r), oe_event_type r, oe_payload r) = m)"
proof -
  have repo: "or_Store (outboxRepo wk) = outbox_Store"
    by (simp add: assms(1) outbox_worker_of_def pg_outbox_repo_def)
  note inv = run_from_empty [OF assms(4)[unfolded assms(1)] assms(2,3)]
  have m: "m = event_message txt (outbox_row (jsonb t) e)"
    by (simp add: m_def event_message_def)
  have "m \<in> set (sent_messages v) \<or> (\<exists>r. r \<in> set (unpublished (outbox v)) \<and> event_message txt r = m)"
    using system_worker.stored_not_lost [OF inv _ _ assms(6), of u v] assms(5,7) repo
    unfolding m by (auto simp: assms(1))
  moreover have "m \<in> set (received_messages v)"
    if "m \<in> set (sent_messages v)" "handed_over s = []" "\<forall>n. arrives s n"
  proof -
    have ok: "outbox_okay s" using assms(2,3) by (simp add: outbox_okay_def)
    have run: "outbox_run wk s u" using assms(4,5) repo by (metis outbox_run.store)
    moreover have "outbox_okay u"
      using system_worker.run_messages [OF run [unfolded assms(1)] ok] by simp
    moreover have "nothing_lost s" using that by (simp add: nothing_lost_def)
    ultimately have "nothing_lost v"
      using run_nothing_lost [OF assms(1)] ok assms(7) by blast
    with that(1) show ?thesis
      by (auto simp: nothing_lost_def sent_messages_def received_messages_def)
  qed
  ultimately show ?thesis by (auto simp: event_message_def set_unpublished)
qed

text \<open>One tick of the sample system: the event goes out and its row is marked.\<close>

definition ticked_system :: outbox_system where
  "ticked_system = snd (worker_tick (outbox_worker_of ''events'' sample_text []) stored_system)"

text \<open>The same when every frame is lost on the way.\<close>

definition lossy_system :: outbox_system where
  "lossy_system = stored_system\<lparr>arrives := (\<lambda>_. False)\<rparr>"

lemma sample_worker_parts [simp]:
  "outboxRepo (outbox_worker_of x txt opts) = pg_outbox_repo"
  "pub_Publish (publisher (outbox_worker_of x txt opts)) = rabbitmq_Publish x txt"
  by (simp_all add: outbox_worker_of_def)

lemma sample_tick:
  fixes arr :: "nat \<Rightarrow> bool"
  defines "m \<equiv> rabbitmq_message ''events'' sample_text 1002500 (sample_event 1 30)"
    and "w \<equiv> stored_system\<lparr>arrives := arr\<rparr>"
  shows "snd (worker_tick (outbox_worker_of ''events'' sample_text []) w) = advance (advance (advance w)
     \<lparr>received := (if arr 2 then [m] else []), handed_over := [m], outbox := [publish_at 1003000 (sample_event 1 30)]\<rparr>)"
proof -
  have "healthy w"
    using stored_system_sel(4) by (simp add: w_def healthy_def)
  then have "outbox_FetchUnpublished 100 w = (Ret (Inr [sample_event 1 30]), advance w)"
    by (simp add: FetchUnpublished_healthy oldest_unpublished_def safe_limit_def order_by_def
        unpublished_def w_def)
  then show ?thesis
    by (cases "arr (Suc (Suc 0))")
      (simp_all add: worker_tick_def process_outbox_def process_event_def Let_def m_def
        pg_outbox_repo_def rabbitmq_Publish_def outbox_MarkPublished_def with_sql_def pg_exec_def
        stored_system_def now_def on_row_def update_where_def advance_def w_def column_time_def
        numeral_2_eq_2 sample_system_def empty_db_def pg.defs outbox_system.defs)
qed

lemma ticked_system_eq:
  "ticked_system = advance (advance (advance stored_system)
     \<lparr>received := [rabbitmq_message ''events'' sample_text 1002500 (sample_event 1 30)],
      handed_over := [rabbitmq_message ''events'' sample_text 1002500 (sample_event 1 30)],
      outbox := [publish_at 1003000 (sample_event 1 30)]\<rparr>)"
  using sample_tick [of "\<lambda>_. True"]
  by (simp add: ticked_system_def stored_system_def advance_def sample_system_def empty_db_def pg.defs
      outbox_system.defs)

lemma event_message_sample [simp]:
  "event_message sample_text (sample_event 1 30) = (''x'', ''user.created'', ''{}'')"
  by (simp add: event_message_def sample_text_def sample_event_def new_outbox_event_def new_base_def)

lemma ticked_system_sel [simp]:
  "outbox ticked_system = [publish_at 1003000 (sample_event 1 30)]"
  "sent_messages ticked_system = [(''x'', ''user.created'', ''{}'')]"
  "received_messages ticked_system = [(''x'', ''user.created'', ''{}'')]"
  by (simp_all add: ticked_system_eq sent_messages_def received_messages_def advance_def)

lemma ticked_run:
  "outbox_run (outbox_worker_of ''events'' sample_text []) stored_system ticked_system"
proof (rule outbox_run.tick [OF outbox_run.start])
  show "worker_tick (outbox_worker_of ''events'' sample_text []) stored_system =
      (fst (worker_tick (outbox_worker_of ''events'' sample_text []) stored_system), ticked_system)"
    by (simp add: ticked_system_def)
qed

lemma sample_run: "outbox_run (outbox_worker_of ''events'' sample_text []) sample_system ticked_system"
proof (rule outbox_run.tick)
  show "outbox_run (outbox_worker_of ''events'' sample_text []) sample_system stored_system"
    using sample_store
    by (intro outbox_run.store [OF outbox_run.start, of _ "[sample_event 1 30]"])
       (simp add: pg_outbox_repo_def stored_system_def)
  show "worker_tick (outbox_worker_of ''events'' sample_text []) stored_system =
      (fst (worker_tick (outbox_worker_of ''events'' sample_text []) stored_system), ticked_system)"
    by (simp add: ticked_system_def)
qed

lemma stored_event_is_kept_or_handed_over_witness:
  "(''x'', ''user.created'', ''{}'') \<in> set (received_messages ticked_system)"
  using stored_event_is_kept_or_handed_over [OF refl, of sample_system "''events''" sample_text "[]"
      sample_system "[sample_event 1 30]" stored_system "sample_event 1 30" ticked_system]
    outbox_run.start sample_store ticked_run
  by (auto simp: sample_text_def sample_event_def new_outbox_event_def new_base_def publish_at_def
      simp flip: stored_system_def)

text \<open>
  C4. A row says published only if its message was handed over: in every run from an empty outbox,
  under every failure, the identifier, type and payload of a row with a publication time are among
  the messages for which the channel reported no error.
\<close>

theorem published_was_handed_over:
  assumes "wk = outbox_worker_of exchange txt opts"
    and "outbox s = []" and "scan_ok (scan_outbox s)" and "outbox_run wk s t"
    and "r \<in> set (outbox t)" and "oe_published_at r \<noteq> None"
  shows "(txt (oe_id r), oe_event_type r, oe_payload r) \<in> set (sent_messages t)"
  using run_from_empty [OF assms(4)[unfolded assms(1)] assms(2,3)] assms(5,6)
  by (force simp: system_worker.worker_inv_def published_sent_def event_message_def)

lemma published_was_handed_over_witness:
  "(''x'', ''user.created'', ''{}'') \<in> set (sent_messages ticked_system)"
  using published_was_handed_over [OF refl _ _ sample_run, of "publish_at 1003000 (sample_event 1 30)"]
  by (simp add: sample_text_def sample_event_def new_outbox_event_def new_base_def)

text \<open>
  More does not hold. The channel is not in confirm mode, so when the frames are lost after they were
  written, the row is marked as published, nothing is left to be sent, and the broker has nothing.
\<close>

lemma published_event_may_be_lost:
  "\<exists>t. t = snd (worker_tick (outbox_worker_of ''events'' sample_text []) lossy_system) \<and>
     outbox lossy_system = [sample_event 1 30] \<and> outbox t = [publish_at 1003000 (sample_event 1 30)] \<and>
     unpublished (outbox t) = [] \<and> received t = []"
  unfolding lossy_system_def sample_tick by (simp add: advance_def unpublished_def stored_system_def)



text \<open>
  C6. What one polling cycle sends: the messages of some of the events whose retry count is below
  the limit, taken from a batch of the oldest unpublished rows, in the order of their creation and
  none twice; everything sent before stays.
\<close>

theorem tick_sends_oldest_first:
  assumes "wk = outbox_worker_of exchange txt opts" and "outbox_okay s"
  shows "\<exists>ds. sent_messages (snd (worker_tick wk s)) =
      sent_messages s @ map (\<lambda>e. (txt (oe_id e), oe_event_type e, oe_payload e)) ds \<and>
    sorted (map oe_created_at ds) \<and> distinct (map oe_id ds) \<and>
    list_all (\<lambda>e. e \<in> set (outbox s) \<and> oe_published_at e = None \<and> oe_retry_count e < maxRetries wk) ds \<and>
    length ds \<le> nat (safe_limit (batchSize wk))"
proof -
  let ?msg = "\<lambda>e. (txt (oe_id e), oe_event_type e, oe_payload e)"
  obtain es ds where es: "es = [] \<or> oldest_batch (nat (safe_limit (batchSize wk))) es (outbox s)"
    and ds: "subseq ds (eligible (maxRetries wk) es)"
    and sent: "sent_messages (snd (worker_tick wk s)) = sent_messages s @ map ?msg ds"
    using system_worker.tick_sends [OF assms(2), of exchange "txt" opts]
    unfolding assms(1) event_message_fun by blast
  from ds have sub: "subseq ds es"
    unfolding eligible_def by (metis subseq_filter_left subseq_order.order_trans)
  from es have "sorted (map oe_created_at es) \<and> distinct (map oe_id es) \<and>
      set es \<subseteq> set (unpublished (outbox s)) \<and> length es \<le> nat (safe_limit (batchSize wk))"
  proof
    assume batch: "oldest_batch (nat (safe_limit (batchSize wk))) es (outbox s)"
    then show ?thesis
      using oldest_batch_set [OF batch] oldest_batch_distinct [OF batch] assms(2)
      by (auto simp: oldest_batch_def sorted_append outbox_okay_def)
  qed simp
  moreover have "set ds \<subseteq> set (eligible (maxRetries wk) es)"
    using ds by (rule subseq_facts)
  moreover note subseq_facts [OF sub]
  ultimately show ?thesis
    using sent by (intro exI [of _ ds]) (auto simp: list_all_iff eligible_def set_unpublished)
qed

lemma tick_sends_oldest_first_witness:
  "length (sent_messages (snd (worker_tick (outbox_worker_of ''events'' sample_text []) stored_system))) \<le> 100"
  using tick_sends_oldest_first [OF refl, of stored_system "''events''" sample_text "[]"]
  by (auto simp: safe_limit_def)



text \<open>
  C37. The queue can starve: once as many exhausted rows as a batch holds are older than every row
  that could still be sent, no number of cycles sends or writes anything. The fetch does not look at
  the retry count, so the exhausted rows fill every batch.
\<close>

theorem exhausted_rows_block_the_outbox:
  assumes "wk = outbox_worker_of exchange txt opts" and "outbox_okay s"
    and "blocked (maxRetries wk) (nat (safe_limit (batchSize wk))) (outbox s)"
  shows "outbox (ticks wk n s) = outbox s \<and> sent_messages (ticks wk n s) = sent_messages s"
  using system_worker.ticks_blocked [of s exchange "txt" opts n] assms by simp

definition blocked_system :: outbox_system where
  "blocked_system = advance sample_system
     \<lparr>outbox := [(sample_event 1 10)\<lparr>oe_retry_count := 5\<rparr>, sample_event 2 20]\<rparr>"

lemma exhausted_rows_block_the_outbox_witness:
  "sent_messages (ticks (outbox_worker_of ''events'' sample_text [WithBatchSize 1]) 1000 blocked_system) = []"
proof -
  have "maxRetries (outbox_worker_of ''events'' sample_text [WithBatchSize 1]) = 5"
    "batchSize (outbox_worker_of ''events'' sample_text [WithBatchSize 1]) = 1"
    by (simp_all add: outbox_worker_of_def new_worker_def defaultMaxRetries_def)
  moreover have "outbox_okay blocked_system" "sent_messages blocked_system = []"
    "blocked 5 1 (outbox blocked_system)"
    by (simp_all add: blocked_system_def outbox_okay_def advance_def blocked_def unpublished_def
        sent_messages_def [of "_ :: outbox_system"])
  ultimately show ?thesis
    using exhausted_rows_block_the_outbox [OF refl, of blocked_system "''events''" sample_text
        "[WithBatchSize 1]" 1000]
    by (simp add: safe_limit_def)
qed

end
