(* ===== verification/WorkerLifecycle.thy ===== *)
theory WorkerLifecycle
  imports OutboxSystem
begin

text \<open>
  The life cycle of the worker of \<open>pkg/eventbus/worker.go\<close>: \<open>Start\<close>, the goroutine \<open>run\<close> with its
  \<open>select\<close>, and \<open>Stop\<close>. Every goroutine is in one phase; a step is one of them passing a point
  where the others can see it. \<open>select\<close> may choose any ready case, so a tick can win against a
  closed \<open>stop\<close>.
\<close>

section \<open>The states and the steps\<close>

datatype run_phase = Spawned | Polling | Finished

datatype stop_phase = AwaitingDone | Returned

text \<open>
  The channels \<open>stop\<close> and \<open>done\<close> carry no value, so each is closed or not. \<open>crash\<close> holds the
  panic that ended the process: a panic of a goroutine without \<open>recover\<close> ends all of it.
\<close>

record 'w life =
  world :: 'w
  stop_closed :: bool
  done_closed :: bool
  ctx_done :: bool
  runs :: "run_phase list"
  stops :: "stop_phase list"
  cycles :: nat
  stop_calls :: nat
  crash :: "string option"

definition new_life :: "'w \<Rightarrow> 'w life" where
  "new_life s = \<lparr>world = s, stop_closed = False, done_closed = False, ctx_done = False,
     runs = [], stops = [], cycles = 0, stop_calls = 0, crash = None\<rparr>"

definition close_of_closed :: string where
  "close_of_closed = ''close of closed channel''"

text \<open>The deferred \<open>close(w.done)\<close> of a run that returns.\<close>

definition leave_run :: "nat \<Rightarrow> 'w life \<Rightarrow> 'w life" where
  "leave_run i l =
     (if done_closed l then l\<lparr>crash := Some close_of_closed\<rparr>
      else l\<lparr>done_closed := True, runs := (runs l)[i := Finished]\<rparr>)"

inductive life_step :: "'w worker \<Rightarrow> 'w life \<Rightarrow> 'w life \<Rightarrow> bool" for wk :: "'w worker" where
  Start: "crash l = None \<Longrightarrow> life_step wk l
     (l\<lparr>runs := runs l @ [Spawned],
        world := lg_Info (worker_log wk) ''eventbus worker - started'' [] (world l)\<rparr>)"
| ticker: "crash l = None \<Longrightarrow> i < length (runs l) \<Longrightarrow> runs l ! i = Spawned \<Longrightarrow> 0 < pollInterval wk \<Longrightarrow>
     life_step wk l (l\<lparr>runs := (runs l)[i := Polling]\<rparr>)"
| no_ticker: "crash l = None \<Longrightarrow> i < length (runs l) \<Longrightarrow> runs l ! i = Spawned \<Longrightarrow> pollInterval wk \<le> 0 \<Longrightarrow>
     life_step wk l ((leave_run i l)\<lparr>crash := Some ''non-positive interval for NewTicker''\<rparr>)"
| cycle: "crash l = None \<Longrightarrow> i < length (runs l) \<Longrightarrow> runs l ! i = Polling \<Longrightarrow>
     worker_tick wk (world l) = (Ret (), s) \<Longrightarrow>
     life_step wk l (l\<lparr>world := s, cycles := Suc (cycles l)\<rparr>)"
| cycle_panic: "crash l = None \<Longrightarrow> i < length (runs l) \<Longrightarrow> runs l ! i = Polling \<Longrightarrow>
     worker_tick wk (world l) = (Panic m, s) \<Longrightarrow>
     life_step wk l ((leave_run i l)\<lparr>world := s, crash := Some m\<rparr>)"
| quit: "crash l = None \<Longrightarrow> i < length (runs l) \<Longrightarrow> runs l ! i = Polling \<Longrightarrow>
     ctx_done l \<or> stop_closed l \<Longrightarrow> life_step wk l (leave_run i l)"
| cancel: "crash l = None \<Longrightarrow> life_step wk l (l\<lparr>ctx_done := True\<rparr>)"
| Stop: "crash l = None \<Longrightarrow> life_step wk l
     (let l' = l\<lparr>stop_calls := Suc (stop_calls l)\<rparr> in
      if stop_closed l then l'\<lparr>crash := Some close_of_closed\<rparr>
      else l'\<lparr>stop_closed := True, stops := stops l @ [AwaitingDone]\<rparr>)"
| Stop_returns: "crash l = None \<Longrightarrow> j < length (stops l) \<Longrightarrow> stops l ! j = AwaitingDone \<Longrightarrow>
     done_closed l \<Longrightarrow> life_step wk l
     (l\<lparr>stops := (stops l)[j := Returned],
        world := lg_Info (worker_log wk) ''eventbus worker - stopped'' [] (world l)\<rparr>)"

inductive life_run :: "'w worker \<Rightarrow> 'w life \<Rightarrow> 'w life \<Rightarrow> bool" for wk :: "'w worker" where
  here: "life_run wk l l"
| more: "life_run wk l m \<Longrightarrow> life_step wk m n \<Longrightarrow> life_run wk l n"

inductive_cases life_stepE: "life_step wk l m"

section \<open>Invariants\<close>

text \<open>
  With one call of \<open>Start\<close>: \<open>done\<close> is closed exactly when the goroutine has returned. Whoever waits
  in \<open>Stop\<close> has closed \<open>stop\<close>, and nobody returns from \<open>Stop\<close> before \<open>done\<close>.
\<close>

definition life_inv :: "'w life \<Rightarrow> bool" where
  "life_inv l \<longleftrightarrow>
     (length (runs l) \<le> 1 \<longrightarrow> crash l = None \<longrightarrow> (done_closed l \<longleftrightarrow> Finished \<in> set (runs l))) \<and>
     (stops l \<noteq> [] \<longleftrightarrow> stop_closed l) \<and> (stop_calls l = 0 \<longleftrightarrow> \<not> stop_closed l) \<and> length (stops l) \<le> 1 \<and>
     (Returned \<in> set (stops l) \<longrightarrow> done_closed l)"

lemma new_life_inv [simp]: "life_inv (new_life s)"
  by (simp add: life_inv_def new_life_def)

lemma length_le_1_nth: "length xs \<le> 1 \<Longrightarrow> i < length xs \<Longrightarrow> xs = [xs ! i]"
  by (cases xs) auto

lemma leave_run_sel [simp]:
  "length (runs (leave_run i l)) = length (runs l)" "stops (leave_run i l) = stops l"
  "stop_closed (leave_run i l) = stop_closed l" "ctx_done (leave_run i l) = ctx_done l"
  by (simp_all add: leave_run_def)

lemma life_inv_step: "life_step wk l m \<Longrightarrow> life_inv l \<Longrightarrow> life_inv m"
proof (induction rule: life_step.induct)
  case (quit l i)
  then show ?case
    by (auto simp: life_inv_def leave_run_def dest: set_update_memI)
next
  case (Stop_returns l j)
  then show ?case by (auto simp: life_inv_def)
next
  case (ticker l i)
  then show ?case using length_le_1_nth [of "runs l" i] by (auto simp: life_inv_def)
qed (auto simp: life_inv_def leave_run_def Let_def)

lemma life_inv_run: "life_run wk l m \<Longrightarrow> life_inv l \<Longrightarrow> life_inv m"
  by (induction rule: life_run.induct) (auto intro: life_inv_step)

lemma runs_grow: "life_step wk l m \<Longrightarrow> length (runs l) \<le> length (runs m)"
  by (induction rule: life_step.induct) (auto simp: Let_def)

lemma runs_grow_run: "life_run wk l m \<Longrightarrow> length (runs l) \<le> length (runs m)"
  by (induction rule: life_run.induct) (auto dest: runs_grow)

lemma life_run_trans: "life_run wk l m \<Longrightarrow> life_run wk m n \<Longrightarrow> life_run wk l n"
  by (rotate_tac, induction rule: life_run.induct) (auto intro: life_run.more)

text \<open>After the goroutine has returned no cycle runs any more, unless \<open>Start\<close> is called again.\<close>

lemma finished_no_cycle:
  assumes "life_step wk l m" and "set (runs l) \<subseteq> {Finished}" and "length (runs m) \<le> length (runs l)"
  shows "cycles m = cycles l \<and> set (runs m) \<subseteq> {Finished}"
  using assms
  by (induction rule: life_step.induct) (auto simp: leave_run_def Let_def dest!: nth_mem subsetD)

lemma finished_no_cycles:
  assumes "life_run wk l m" and "set (runs l) \<subseteq> {Finished}" and "length (runs m) \<le> length (runs l)"
  shows "cycles m = cycles l \<and> set (runs m) \<subseteq> {Finished}"
  using assms
proof (induction rule: life_run.induct)
  case (more l m n)
  have "length (runs m) \<le> length (runs n)" by (rule runs_grow [OF more.hyps(2)])
  with more finished_no_cycle [OF more.hyps(2)] runs_grow_run [OF more.hyps(1)] show ?case by simp
qed simp


lemma returned_all_finished:
  assumes "life_inv l" and "Returned \<in> set (stops l)" and "length (runs l) \<le> 1" and "crash l = None"
  shows "set (runs l) \<subseteq> {Finished}"
  using assms length_le_1_nth [of "runs l" 0] by (cases "runs l") (auto simp: life_inv_def)

lemma crashed_stays: "life_step wk l m \<Longrightarrow> crash l = None"
  by (erule life_stepE) auto

lemma crashed_run: "life_run wk l m \<Longrightarrow> crash l \<noteq> None \<Longrightarrow> m = l"
  by (induction rule: life_run.induct) (auto dest: crashed_stays)

text \<open>Without a panic of its own, a worker started and stopped once never takes the process down.\<close>

lemma no_crash_step:
  assumes "life_step wk l m" and "life_inv l" and "crash l = None" and "0 < pollInterval wk"
    and "\<And>w s. worker_tick wk (world l) \<noteq> (Panic w, s)"
    and "length (runs m) \<le> 1" and "stop_calls m \<le> 1"
  shows "crash m = None"
  using assms
proof (induction rule: life_step.induct)
  case (quit l i)
  then have "runs l = [Polling]" using length_le_1_nth [of "runs l" i] by simp
  with quit show ?case by (simp add: life_inv_def leave_run_def)
next
  case (Stop l)
  then show ?case by (auto simp: life_inv_def Let_def)
qed simp_all

text \<open>The two continuations that let a waiting \<open>Stop\<close> return.\<close>

lemma done_lets_Stop_return:
  assumes "done_closed m" and "crash m = None" and "length (stops m) = 1"
  shows "\<exists>m'. life_run wk m m' \<and> Returned \<in> set (stops m')"
proof (cases "Returned \<in> set (stops m)")
  case False
  let ?n = "m\<lparr>stops := (stops m)[0 := Returned],
    world := lg_Info (worker_log wk) ''eventbus worker - stopped'' [] (world m)\<rparr>"
  from False assms(3) have "stops m ! 0 = AwaitingDone"
    by (cases "stops m"; cases "stops m ! 0") auto
  then have "life_step wk m ?n"
    using assms by (intro Stop_returns) auto
  moreover have "Returned \<in> set (stops ?n)"
    using assms(3) by (simp add: set_update_memI)
  ultimately show ?thesis by (blast intro: life_run.intros)
qed (auto intro: life_run.here)

lemma polling_lets_Stop_return:
  assumes "runs m = [Polling]" and "crash m = None" and "length (stops m) = 1" and "stop_closed m"
    and "\<not> done_closed m"
  shows "\<exists>m'. life_run wk m m' \<and> Returned \<in> set (stops m')"
proof -
  have "life_step wk m (leave_run 0 m)" using assms by (intro quit) auto
  moreover have "done_closed (leave_run 0 m)" "crash (leave_run 0 m) = None"
    using assms by (simp_all add: leave_run_def)
  then have "\<exists>m'. life_run wk (leave_run 0 m) m' \<and> Returned \<in> set (stops m')"
    using assms(3) by (intro done_lets_Stop_return) simp_all
  ultimately show ?thesis
    using life_run_trans [OF life_run.more [OF life_run.here]] by blast
qed

section \<open>The wired worker\<close>

text \<open>Its cycle cannot panic while the batch can be allocated, and no step changes that.\<close>

lemma worker_tick_returns:
  assumes "wk = outbox_worker_of exchange txt opts" and "0 \<le> batchSize wk"
    and "batchSize wk \<le> max_slice s"
  shows "worker_tick wk s \<noteq> (Panic m, s')"
proof -
  have "fst (outbox_FetchUnpublished (batchSize wk) s) \<noteq> Panic m" for m
    using assms(2,3)
    by (auto simp: outbox_FetchUnpublished_def pg_query_def
        split: option.splits query_answer.splits sum.splits)
  then show ?thesis
    by (auto simp: assms(1) worker_tick_def process_outbox_def pg_outbox_repo_def
        split: prod.splits outcome.splits sum.splits option.splits) (metis fst_conv)
qed

interpretation system_logger_slice: quiet_logger "logger_of system_log" "max_slice :: outbox_system \<Rightarrow> int"
  by (rule quiet_logger_of) (simp_all add: system_log_def)

lemma system_log_parts: "worker_log (outbox_worker_of exchange txt opts) = logger_of system_log"
  by (simp add: outbox_worker_of_def)

lemma worker_tick_max_slice:
  "max_slice (snd (worker_tick (outbox_worker_of exchange txt opts) s)) = max_slice s"
proof (rule worker_tick_view)
  show "quiet_logger (worker_log (outbox_worker_of exchange txt opts)) max_slice"
    by (simp add: outbox_worker_of_def system_logger_slice.quiet_logger_axioms)
qed (simp_all add: pg_outbox_repo_def outbox_repo_view [where view = max_slice] advance_def
    rabbitmq_Publish_def Let_def split: option.splits)

lemma life_step_max_slice:
  assumes "life_step wk l m" and "wk = outbox_worker_of exchange txt opts"
  shows "max_slice (world m) = max_slice (world l)"
  using assms
proof (induction rule: life_step.induct)
  case (cycle l i s)
  then show ?case using worker_tick_max_slice [of exchange "txt" opts "world l"] by simp
next
  case (cycle_panic l i m s)
  then show ?case
    using worker_tick_max_slice [of exchange "txt" opts "world l"] by (simp add: leave_run_def)
qed (auto simp: leave_run_def Let_def system_log_parts system_logger_slice.info_view)

text \<open>A run of the default worker over the sample system: started, polling, stopped.\<close>

definition demo_worker :: "outbox_system worker" where
  "demo_worker = outbox_worker_of ''events'' sample_text []"

definition polling_life :: "outbox_system life" where
  "polling_life = (new_life sample_system)\<lparr>runs := [Polling],
     world := lg_Info (worker_log demo_worker) ''eventbus worker - started'' [] sample_system\<rparr>"

definition awaiting_life :: "outbox_system life" where
  "awaiting_life = polling_life\<lparr>stop_calls := 1, stop_closed := True, stops := [AwaitingDone]\<rparr>"

definition stopped_life :: "outbox_system life" where
  "stopped_life = awaiting_life\<lparr>done_closed := True, runs := [Finished], stops := [Returned],
     world := lg_Info (worker_log demo_worker) ''eventbus worker - stopped'' [] (world awaiting_life)\<rparr>"

lemmas demo_lives = polling_life_def awaiting_life_def stopped_life_def new_life_def

lemma demo_worker_sel [simp]:
  "pollInterval demo_worker = 1000000000" "batchSize demo_worker = 100"
  by (simp_all add: demo_worker_def outbox_worker_of_def new_worker_def defaultPollInterval_def
      defaultBatchSize_def)

lemma awaiting_run: "life_run demo_worker (new_life sample_system) awaiting_life"
proof -
  let ?l = "new_life sample_system"
  let ?started = "?l\<lparr>runs := [Spawned],
    world := lg_Info (worker_log demo_worker) ''eventbus worker - started'' [] sample_system\<rparr>"
  have "life_step demo_worker ?l ?started"
    using Start [of ?l demo_worker] by (simp add: new_life_def)
  moreover have "life_step demo_worker ?started polling_life"
    using ticker [of ?started 0 demo_worker] by (simp add: demo_lives)
  moreover have "life_step demo_worker polling_life awaiting_life"
    using Stop [of polling_life demo_worker] by (simp add: demo_lives Let_def)
  ultimately show ?thesis by (blast intro: life_run.intros)
qed

lemma stopped_run: "life_run demo_worker (new_life sample_system) stopped_life"
proof -
  let ?left = "awaiting_life\<lparr>done_closed := True, runs := [Finished]\<rparr>"
  have "life_step demo_worker awaiting_life ?left"
    using quit [of awaiting_life 0 demo_worker] by (simp add: demo_lives leave_run_def)
  moreover have "life_step demo_worker ?left stopped_life"
    using Stop_returns [of ?left 0 demo_worker] by (simp add: demo_lives)
  ultimately show ?thesis using awaiting_run by (blast intro: life_run.intros)
qed

section \<open>Properties\<close>

text \<open>
  C19. Once \<open>Stop\<close> has returned, the worker started once runs no further cycle, whatever else
  happens: no row is fetched, published or marked by it any more.
\<close>

theorem no_cycle_after_Stop:
  assumes "life_run wk (new_life s) l" and "Returned \<in> set (stops l)"
    and "life_run wk l m" and "length (runs m) \<le> 1"
  shows "cycles m = cycles l"
proof (cases "crash l = None")
  case True
  have inv: "life_inv l" by (rule life_inv_run [OF assms(1)]) simp
  have len: "length (runs l) \<le> 1" using runs_grow_run [OF assms(3)] assms(4) by simp
  have fin: "set (runs l) \<subseteq> {Finished}" by (rule returned_all_finished [OF inv assms(2) len True])
  have "done_closed l" using inv assms(2) by (simp add: life_inv_def)
  then have "runs l \<noteq> []" using inv True by (auto simp: life_inv_def)
  then have "length (runs m) \<le> length (runs l)" using assms(4) by (cases "runs l") auto
  from finished_no_cycles [OF assms(3) fin this] show ?thesis by simp
next
  case False
  with crashed_run [OF assms(3)] show ?thesis by simp
qed

lemma no_cycle_after_Stop_witness: "cycles (stopped_life\<lparr>ctx_done := True\<rparr>) = cycles stopped_life"
proof (rule no_cycle_after_Stop [OF stopped_run])
  show "life_run demo_worker stopped_life (stopped_life\<lparr>ctx_done := True\<rparr>)"
    by (rule life_run.more [OF life_run.here], rule cancel) (simp add: demo_lives)
qed (simp_all add: demo_lives)

text \<open>
  C20. The worker of the program, started once and stopped at most once, never takes the process
  down, provided its poll interval is positive and a batch can be allocated: in no interleaving of
  ticks, cancellation and \<open>Stop\<close> is there a panic.
\<close>

theorem worker_never_crashes:
  assumes "wk = outbox_worker_of exchange txt opts" and "0 < pollInterval wk"
    and "0 \<le> batchSize wk" and "batchSize wk \<le> max_slice s"
    and "life_run wk (new_life s) l" and "length (runs l) \<le> 1" and "stop_calls l \<le> 1"
  shows "crash l = None"
proof -
  have "crash l = None \<and> max_slice (world l) = max_slice s"
    if "life_run wk l0 l" "l0 = new_life s" "length (runs l) \<le> 1" "stop_calls l \<le> 1" for l0 l
    using that
  proof (induction rule: life_run.induct)
    case (here l)
    then show ?case by (simp add: new_life_def)
  next
    case (more l m n)
    have calls: "stop_calls m \<le> stop_calls n"
      using more.hyps(2) by (induction rule: life_step.induct) (auto simp: Let_def leave_run_def)
    have IH: "crash m = None" "max_slice (world m) = max_slice s"
      using more runs_grow [OF more.hyps(2)] calls by auto
    have inv: "life_inv m"
      by (rule life_inv_run [OF more.hyps(1)]) (simp add: more.prems(1))
    have "crash n = None"
    proof (rule no_crash_step [OF more.hyps(2) inv IH(1) assms(2) _ more.prems(2,3)])
      show "worker_tick wk (world m) \<noteq> (Panic w, s')" for w s'
        using worker_tick_returns [OF assms(1,3)] assms(4) IH(2) by simp
    qed
    with life_step_max_slice [OF more.hyps(2) assms(1)] IH(2) show ?case by simp
  qed
  from this [OF assms(5) refl assms(6,7)] show ?thesis by simp
qed

lemma worker_never_crashes_witness: "crash stopped_life = None"
  by (rule worker_never_crashes [OF _ _ _ _ stopped_run, of "''events''" sample_text "[]"])
     (simp_all add: demo_worker_def [symmetric], simp_all add: demo_lives)

text \<open>
  Whoever waits in \<open>Stop\<close> can always get out when the worker was started once: from every
  reachable state without a panic there is a continuation in which \<open>Stop\<close> returns. Without a
  \<open>Start\<close> it never returns.
\<close>

theorem Stop_can_return:
  assumes "life_run wk (new_life s) l" and "crash l = None" and "stops l \<noteq> []" and "0 < pollInterval wk"
  shows "(length (runs l) = 1 \<longrightarrow> (\<exists>m. life_run wk l m \<and> Returned \<in> set (stops m))) \<and>
    (runs l = [] \<longrightarrow> Returned \<notin> set (stops l))"
proof (intro conjI impI)
  have inv: "life_inv l" by (rule life_inv_run [OF assms(1)]) simp
  show "Returned \<notin> set (stops l)" if "runs l = []"
    using inv assms(2) that by (auto simp: life_inv_def)
  assume one: "length (runs l) = 1"
  have stop: "stop_closed l" and len: "length (stops l) = 1"
    using inv assms(3) by (auto simp: life_inv_def le_Suc_eq)
  note out = done_lets_Stop_return [where wk = wk] and polling = polling_lets_Stop_return [where wk = wk]
  from one obtain p where p: "runs l = [p]" by (metis One_nat_def length_0_conv length_Suc_conv)
  show "\<exists>m. life_run wk l m \<and> Returned \<in> set (stops m)"
  proof (cases p)
    case Spawned
    let ?m = "l\<lparr>runs := [Polling]\<rparr>"
    have "life_step wk l ?m"
      using ticker [of l 0 wk] p Spawned assms(2,4) by simp
    moreover have "\<not> done_closed l" using inv p Spawned assms(2) by (simp add: life_inv_def)
    moreover have "\<exists>m'. life_run wk ?m m' \<and> Returned \<in> set (stops m')"
      using calculation(2) assms(2) len stop by (intro polling) simp_all
    ultimately show ?thesis
      using life_run_trans [OF life_run.more [OF life_run.here]] by blast
  next
    case Polling
    then show ?thesis using polling [of l] p assms(2) len stop inv by (simp add: life_inv_def)
  next
    case Finished
    then show ?thesis using out [of l] p assms(2) len inv by (simp add: life_inv_def)
  qed
qed

lemma Stop_can_return_witness:
  "\<exists>m. life_run demo_worker awaiting_life m \<and> Returned \<in> set (stops m)"
  using Stop_can_return [OF awaiting_run] by (simp add: demo_lives)

text \<open>
  A second \<open>Stop\<close> closes a closed channel: the process ends.
\<close>

lemma Stop_twice_panics:
  assumes "life_run wk (new_life s) l" and "crash l = None" and "stops l \<noteq> []"
  shows "life_step wk l (l\<lparr>stop_calls := Suc (stop_calls l), crash := Some close_of_closed\<rparr>)"
proof -
  have "stop_closed l"
    using life_inv_run [OF assms(1) new_life_inv] assms(3) by (simp add: life_inv_def)
  with life_step.Stop [OF assms(2), of wk] show ?thesis by (simp add: Let_def)
qed

end
