(* ===== verification/NotificationService.thy ===== *)
theory NotificationService
  imports RepoContracts LogInterface
begin

text \<open>
  \<open>internal/usecase/notification\<close>: the three use cases, which add their name to the errors of a
  repository, and the service that sends a notification over one of three channels. All of it is
  written against the interfaces of \<open>internal/repo\<close> and \<open>pkg/notify\<close>, and the lemmas on the service are
  proved once against what those promise.
\<close>

section \<open>The use cases\<close>

definition add_name :: "string \<Rightarrow> goerr + 'a \<Rightarrow> goerr + 'a" where
  "add_name s r = (case r of Inl e \<Rightarrow> Inl (wrap s e) | Inr x \<Rightarrow> Inr x)"

definition inapp_Create ::
  "'w notification_repo \<Rightarrow> in_app_notification \<Rightarrow> 'w \<Rightarrow> goerr option \<times> in_app_notification \<times> 'w" where
  "inapp_Create repo n w =
     (let (r, n', w') = nr_Store repo n w
      in (map_option (wrap ''InAppUseCase - Create - uc.repo.Store'') r, n', w'))"

definition inapp_GetByID :: "'w notification_repo \<Rightarrow> uuid \<Rightarrow> 'w \<Rightarrow> (goerr + in_app_notification) \<times> 'w" where
  "inapp_GetByID repo i w =
     (let (r, w') = nr_GetByID repo i w in (add_name ''InAppUseCase - GetByID - uc.repo.GetByID'' r, w'))"

definition inapp_GetByUserID ::
  "'w notification_repo \<Rightarrow> uuid \<Rightarrow> nat \<Rightarrow> nat \<Rightarrow> 'w \<Rightarrow> (goerr + in_app_notification list) \<times> 'w" where
  "inapp_GetByUserID repo u limit offset w =
     (let (r, w') = nr_GetByUserID repo u limit offset w
      in (add_name ''InAppUseCase - GetByUserID - uc.repo.GetByUserID'' r, w'))"

definition inapp_MarkAsRead :: "'w notification_repo \<Rightarrow> uuid \<Rightarrow> 'w \<Rightarrow> goerr option \<times> 'w" where
  "inapp_MarkAsRead repo i w =
     (let (r, w') = nr_MarkAsRead repo i w
      in (map_option (wrap ''InAppUseCase - MarkAsRead - uc.repo.MarkAsRead'') r, w'))"

definition inapp_MarkAllAsRead :: "'w notification_repo \<Rightarrow> uuid \<Rightarrow> 'w \<Rightarrow> goerr option \<times> 'w" where
  "inapp_MarkAllAsRead repo u w =
     (let (r, w') = nr_MarkAllAsRead repo u w
      in (map_option (wrap ''InAppUseCase - MarkAllAsRead - uc.repo.MarkAllAsRead'') r, w'))"

definition inapp_GetUnreadCount :: "'w notification_repo \<Rightarrow> uuid \<Rightarrow> 'w \<Rightarrow> (goerr + int) \<times> 'w" where
  "inapp_GetUnreadCount repo u w =
     (let (r, w') = nr_GetUnreadCount repo u w
      in (add_name ''InAppUseCase - GetUnreadCount - uc.repo.GetUnreadCount'' r, w'))"

text \<open>A pointer and an error: on an error the use case returns the nil pointer.\<close>

definition preferences_usecase_Get ::
  "'w preferences_repo \<Rightarrow> uuid \<Rightarrow> 'w \<Rightarrow> (user_preferences option \<times> goerr option) \<times> 'w" where
  "preferences_usecase_Get repo u w =
     (case pr_Get repo u w of
        ((p, Some e), w') \<Rightarrow> ((None, Some (wrap ''PreferencesUseCase - Get - uc.repo.Get'' e)), w')
      | ((p, None), w') \<Rightarrow> ((p, None), w'))"

definition preferences_usecase_Update ::
  "'w preferences_repo \<Rightarrow> user_preferences \<Rightarrow> 'w \<Rightarrow> goerr option \<times> user_preferences \<times> 'w" where
  "preferences_usecase_Update repo p w =
     (let (r, p', w') = pr_Upsert repo p w
      in (map_option (wrap ''PreferencesUseCase - Update - uc.repo.Upsert'') r, p', w'))"

definition push_token_Register ::
  "'w push_token_repo \<Rightarrow> push_token \<Rightarrow> 'w \<Rightarrow> goerr option \<times> push_token \<times> 'w" where
  "push_token_Register repo t w =
     (let (r, t', w') = tr_Store repo t w
      in (map_option (wrap ''PushTokenUseCase - Register - uc.repo.Store'') r, t', w'))"

definition push_token_GetByUserID ::
  "'w push_token_repo \<Rightarrow> uuid \<Rightarrow> 'w \<Rightarrow> (goerr + push_token list) \<times> 'w" where
  "push_token_GetByUserID repo u w =
     (let (r, w') = tr_GetByUserID repo u w
      in (add_name ''PushTokenUseCase - GetByUserID - uc.repo.GetByUserID'' r, w'))"

definition push_token_Unregister :: "'w push_token_repo \<Rightarrow> string \<Rightarrow> 'w \<Rightarrow> goerr option \<times> 'w" where
  "push_token_Unregister repo tok w =
     (let (r, w') = tr_Delete repo tok w
      in (map_option (wrap ''PushTokenUseCase - Unregister - uc.repo.Delete'') r, w'))"

definition push_token_UnregisterAll :: "'w push_token_repo \<Rightarrow> uuid \<Rightarrow> 'w \<Rightarrow> goerr option \<times> 'w" where
  "push_token_UnregisterAll repo u w =
     (let (r, w') = tr_DeleteByUserID repo u w
      in (map_option (wrap ''PushTokenUseCase - UnregisterAll - uc.repo.DeleteByUserID'') r, w'))"

text \<open>
  The interfaces of \<open>internal/usecase/contracts.go\<close> and the constructors of what implements them: a
  use case holds its repository and nothing else.
\<close>

record 'w in_app_usecase =
  uc_Create :: "in_app_notification \<Rightarrow> 'w \<Rightarrow> goerr option \<times> in_app_notification \<times> 'w"
  uc_GetByID :: "uuid \<Rightarrow> 'w \<Rightarrow> (goerr + in_app_notification) \<times> 'w"
  uc_GetByUserID :: "uuid \<Rightarrow> nat \<Rightarrow> nat \<Rightarrow> 'w \<Rightarrow> (goerr + in_app_notification list) \<times> 'w"
  uc_MarkAsRead :: "uuid \<Rightarrow> 'w \<Rightarrow> goerr option \<times> 'w"
  uc_MarkAllAsRead :: "uuid \<Rightarrow> 'w \<Rightarrow> goerr option \<times> 'w"
  uc_GetUnreadCount :: "uuid \<Rightarrow> 'w \<Rightarrow> (goerr + int) \<times> 'w"

record 'w preferences_usecase =
  uc_Get :: "uuid \<Rightarrow> 'w \<Rightarrow> (user_preferences option \<times> goerr option) \<times> 'w"
  uc_Update :: "user_preferences \<Rightarrow> 'w \<Rightarrow> goerr option \<times> user_preferences \<times> 'w"

record 'w push_token_usecase =
  uc_Register :: "push_token \<Rightarrow> 'w \<Rightarrow> goerr option \<times> push_token \<times> 'w"
  uc_TokensOf :: "uuid \<Rightarrow> 'w \<Rightarrow> (goerr + push_token list) \<times> 'w"
  uc_Unregister :: "string \<Rightarrow> 'w \<Rightarrow> goerr option \<times> 'w"
  uc_UnregisterAll :: "uuid \<Rightarrow> 'w \<Rightarrow> goerr option \<times> 'w"

definition NewInAppUseCase :: "'w notification_repo \<Rightarrow> 'w in_app_usecase" where
  "NewInAppUseCase r = \<lparr>uc_Create = inapp_Create r, uc_GetByID = inapp_GetByID r,
     uc_GetByUserID = inapp_GetByUserID r, uc_MarkAsRead = inapp_MarkAsRead r,
     uc_MarkAllAsRead = inapp_MarkAllAsRead r, uc_GetUnreadCount = inapp_GetUnreadCount r\<rparr>"

definition NewPreferencesUseCase :: "'w preferences_repo \<Rightarrow> 'w preferences_usecase" where
  "NewPreferencesUseCase r = \<lparr>uc_Get = preferences_usecase_Get r, uc_Update = preferences_usecase_Update r\<rparr>"

definition NewPushTokenUseCase :: "'w push_token_repo \<Rightarrow> 'w push_token_usecase" where
  "NewPushTokenUseCase r = \<lparr>uc_Register = push_token_Register r, uc_TokensOf = push_token_GetByUserID r,
     uc_Unregister = push_token_Unregister r, uc_UnregisterAll = push_token_UnregisterAll r\<rparr>"

section \<open>The service\<close>

text \<open>The senders may be nil; a sender may panic.\<close>

type_synonym 'w email_sender = "email_message \<Rightarrow> 'w \<Rightarrow> goerr option outcome \<times> 'w"
type_synonym 'w push_sender = "push_message \<Rightarrow> string list \<Rightarrow> 'w \<Rightarrow> goerr option outcome \<times> 'w"
type_synonym 'w sms_sender = "sms_message \<Rightarrow> 'w \<Rightarrow> goerr option outcome \<times> 'w"

text \<open>
  \<open>type Notifier interface\<close>: the service has three of its methods, and lacks \<open>SendSMS\<close>, so nothing
  implements it.
\<close>

record 'w notifier =
  nt_SendEmail :: "email_message \<Rightarrow> 'w \<Rightarrow> goerr option outcome \<times> 'w"
  nt_SendSMS :: "sms_message \<Rightarrow> 'w \<Rightarrow> goerr option outcome \<times> 'w"
  nt_SendPush :: "push_message \<Rightarrow> 'w \<Rightarrow> goerr option outcome \<times> 'w"
  nt_SendInApp :: "in_app_message \<Rightarrow> 'w \<Rightarrow> goerr option outcome \<times> 'w"

record 'w service =
  notificationRepo :: "'w notification_repo"
  prefsRepo :: "'w preferences_repo"
  pushTokenRepo :: "'w push_token_repo"
  deliveryLogRepo :: "'w delivery_log_repo"
  emailSender :: "'w email_sender option"
  pushSender :: "'w push_sender option"

text \<open>The error of the \<open>Store\<close> is dropped on purpose.\<close>

definition new_delivery_log :: "uuid \<Rightarrow> uuid \<Rightarrow> string \<Rightarrow> string \<Rightarrow> string \<Rightarrow> delivery_log" where
  "new_delivery_log nid u channel status msg =
     \<lparr>dl_id = uuid_Nil, dl_notification_id = nid, dl_user_id = u, dl_channel = channel,
      dl_status = status, dl_provider = '''', dl_provider_msg_id = None,
      dl_error_message = (if msg \<noteq> '''' then Some msg else None), dl_attempts = 1,
      dl_created_at = 0, dl_delivered_at = None\<rparr>"

definition logDelivery ::
  "'w service \<Rightarrow> uuid \<Rightarrow> uuid \<Rightarrow> string \<Rightarrow> string \<Rightarrow> string \<Rightarrow> 'w \<Rightarrow> 'w" where
  "logDelivery s nid u channel status msg w =
     (let (_, _, w') = lr_Store (deliveryLogRepo s) (new_delivery_log nid u channel status msg) w in w')"

text \<open>\<open>err == nil && !prefs.InAppEnabled\<close>: a nil pointer without an error is dereferenced.\<close>

definition nil_deref :: string where
  "nil_deref = ''invalid memory address or nil pointer dereference''"

definition opted_out ::
  "(user_preferences \<Rightarrow> bool) \<Rightarrow> user_preferences option \<times> goerr option \<Rightarrow> bool outcome" where
  "opted_out enabled r =
     (case r of (p, Some e) \<Rightarrow> Ret False
      | (None, None) \<Rightarrow> Panic nil_deref
      | (Some p, None) \<Rightarrow> Ret (\<not> enabled p))"

definition in_app_of :: "in_app_message \<Rightarrow> in_app_notification" where
  "in_app_of m =
     \<lparr>n_id = uuid_Nil, n_user_id = im_user_id m, n_type = im_type m, n_title = im_title m,
      n_body = im_body m, n_data = im_data m,
      n_action_url = (if im_action_url m \<noteq> '''' then Some (im_action_url m) else None),
      n_image_url = (if im_image_url m \<noteq> '''' then Some (im_image_url m) else None),
      n_read = False, n_read_at = None, n_created_at = 0\<rparr>"

definition SendInApp :: "'w service \<Rightarrow> in_app_message \<Rightarrow> 'w \<Rightarrow> goerr option outcome \<times> 'w" where
  "SendInApp s m w =
     (case pr_Get (prefsRepo s) (im_user_id m) w of (got, w1) \<Rightarrow>
        (case opted_out up_in_app_enabled got of
           Panic p \<Rightarrow> (Panic p, w1)
         | Ret True \<Rightarrow> (Ret None, w1)
         | Ret False \<Rightarrow>
             (case nr_Store (notificationRepo s) (in_app_of m) w1 of
                (Some e, n', w2) \<Rightarrow>
                  (Ret (Some (wrap ''Service - SendInApp - s.notificationRepo.Store'' e)), w2)
              | (None, n', w2) \<Rightarrow> (Ret None, w2))))"

definition active_tokens :: "push_token list \<Rightarrow> string list" where
  "active_tokens ts = map pt_token (filter pt_active ts)"

definition SendPush :: "'w service \<Rightarrow> push_message \<Rightarrow> 'w \<Rightarrow> goerr option outcome \<times> 'w" where
  "SendPush s m w =
     (case pr_Get (prefsRepo s) (pm_user_id m) w of (got, w1) \<Rightarrow>
        (case opted_out up_push_enabled got of
           Panic p \<Rightarrow> (Panic p, w1)
         | Ret True \<Rightarrow> (Ret None, w1)
         | Ret False \<Rightarrow>
           (case tr_GetByUserID (pushTokenRepo s) (pm_user_id m) w1 of
              (Inl e, w2) \<Rightarrow>
                (Ret (Some (wrap ''Service - SendPush - s.pushTokenRepo.GetByUserID'' e)), w2)
            | (Inr tokens, w2) \<Rightarrow>
                (if tokens = [] then (Ret None, w2)
                 else if active_tokens tokens = [] then (Ret None, w2)
                 else (case pushSender s of
                   None \<Rightarrow> (Ret None, w2)
                 | Some send \<Rightarrow>
                     (case send m (active_tokens tokens) w2 of
                        (Panic p, w3) \<Rightarrow> (Panic p, w3)
                      | (Ret (Some e), w3) \<Rightarrow>
                          (Ret (Some (wrap ''Service - SendPush - s.pushSender.Send'' e)),
                           logDelivery s uuid_Nil (pm_user_id m) ChannelPush StatusFailed (err_msg e) w3)
                      | (Ret None, w3) \<Rightarrow>
                          (Ret None,
                           logDelivery s uuid_Nil (pm_user_id m) ChannelPush StatusSent '''' w3)))))))"

text \<open>Here the pointer is checked, so that a nil one counts as enabled.\<close>

definition email_off :: "user_preferences option \<times> goerr option \<Rightarrow> bool" where
  "email_off r = (case r of (Some p, None) \<Rightarrow> \<not> up_email_enabled p | _ \<Rightarrow> False)"

definition SendEmail :: "'w service \<Rightarrow> email_message \<Rightarrow> 'w \<Rightarrow> goerr option outcome \<times> 'w" where
  "SendEmail s m w =
     (case emailSender s of
        None \<Rightarrow> (Ret None, w)
      | Some send \<Rightarrow>
        (case pr_Get (prefsRepo s) (em_user_id m) w of (got, w1) \<Rightarrow>
          (if email_off got then (Ret None, w1)
           else (case send m w1 of
             (Panic p, w2) \<Rightarrow> (Panic p, w2)
           | (Ret (Some e), w2) \<Rightarrow>
               (Ret (Some (wrap ''Service - SendEmail - s.emailSender.Send'' e)),
                logDelivery s uuid_Nil (em_user_id m) ChannelEmail StatusFailed (err_msg e) w2)
           | (Ret None, w2) \<Rightarrow>
               (Ret None,
                logDelivery s uuid_Nil (em_user_id m) ChannelEmail StatusSent '''' w2)))))"

section \<open>The contract of the collaborators\<close>

text \<open>
  What the row keeps of the struct that \<open>Store\<close> is given: all but the identifier and the instant it
  fills in, and of the other instant the microseconds.
\<close>

definition same_note :: "in_app_notification \<Rightarrow> in_app_notification \<Rightarrow> bool" where
  "same_note n r \<longleftrightarrow> r\<lparr>n_id := n_id n, n_created_at := n_created_at n\<rparr> =
     n\<lparr>n_read_at := map_option column_time (n_read_at n)\<rparr>"

definition same_log :: "delivery_log \<Rightarrow> delivery_log \<Rightarrow> bool" where
  "same_log l r \<longleftrightarrow> r\<lparr>dl_id := dl_id l, dl_created_at := dl_created_at l\<rparr> =
     l\<lparr>dl_delivered_at := map_option column_time (dl_delivered_at l)\<rparr>"

text \<open>
  What the service relies on, over what its collaborators keep: the notifications and the delivery
  logs, which only grow, the tokens, the stored preferences, and what the two senders handed over. In
  a \<open>fine\<close> state the token list is right.
  A call that reports an error may still have had its effect.
\<close>

locale notification_service =
  fixes svc :: "'w service" and inbox :: "'w \<Rightarrow> in_app_notification list"
    and tokens :: "'w \<Rightarrow> push_token list" and stored_prefs :: "'w \<Rightarrow> uuid \<Rightarrow> user_preferences option"
    and logs :: "'w \<Rightarrow> delivery_log list"
    and emails :: "'w \<Rightarrow> 'e list" and email_of :: "email_message \<Rightarrow> 'e"
    and pushes :: "'w \<Rightarrow> 'p list" and push_of :: "push_message \<Rightarrow> string list \<Rightarrow> 'p"
    and fine :: "'w \<Rightarrow> bool"
  assumes get_answer: "pr_Get (prefsRepo svc) u w = ((p, e), w') \<Longrightarrow>
      (p = None \<longleftrightarrow> e \<noteq> None) \<and> (p \<noteq> None \<longrightarrow> stored_prefs w u = p)"
    and get_frame: "pr_Get (prefsRepo svc) u w = (g, w') \<Longrightarrow>
      (inbox w', tokens w', logs w', emails w', pushes w') = (inbox w, tokens w, logs w, emails w, pushes w)"
    and note_store: "nr_Store (notificationRepo svc) n w = (r, n', w') \<Longrightarrow>
      (\<exists>row. inbox w' = inbox w @ [row] \<and> same_note n row) \<or> r \<noteq> None \<and> inbox w' = inbox w"
    and note_frame: "nr_Store (notificationRepo svc) n w = (r, n', w') \<Longrightarrow>
      (tokens w', logs w', emails w', pushes w') = (tokens w, logs w, emails w, pushes w)"
    and get_fine: "fine w \<Longrightarrow> fine (snd (pr_Get (prefsRepo svc) u w))"
    and token_list: "fine w \<Longrightarrow> tr_GetByUserID (pushTokenRepo svc) u w = (Inr ts, w') \<Longrightarrow>
      list_all (\<lambda>t. t \<in> set (tokens w) \<and> pt_user_id t = u) ts"
    and token_frame: "tr_GetByUserID (pushTokenRepo svc) u w = (g2, w') \<Longrightarrow>
      (inbox w', tokens w', logs w', emails w', pushes w') = (inbox w, tokens w, logs w, emails w, pushes w)"
    and log_store: "lr_Store (deliveryLogRepo svc) l w = (r, l', w') \<Longrightarrow>
      (\<exists>row. logs w' = logs w @ [row] \<and> same_log l row) \<or> r \<noteq> None \<and> logs w' = logs w"
    and log_frame: "lr_Store (deliveryLogRepo svc) l w = (r, l', w') \<Longrightarrow>
      (inbox w', tokens w', emails w', pushes w') = (inbox w, tokens w, emails w, pushes w)"
    and email_send: "emailSender svc = Some send \<Longrightarrow> send m w = (r2, w') \<Longrightarrow>
      emails w' = emails w @ [email_of m] \<or> r2 \<noteq> Ret None \<and> emails w' = emails w"
    and email_frame: "emailSender svc = Some send \<Longrightarrow> send m w = (r2, w') \<Longrightarrow>
      (inbox w', tokens w', logs w', pushes w') = (inbox w, tokens w, logs w, pushes w)"
    and push_send: "pushSender svc = Some psend \<Longrightarrow> ts2 \<noteq> [] \<Longrightarrow> psend pm ts2 w = (r2, w') \<Longrightarrow>
      pushes w' = pushes w @ [push_of pm ts2] \<or> r2 \<noteq> Ret None \<and> pushes w' = pushes w"
    and push_frame: "pushSender svc = Some psend \<Longrightarrow> psend pm ts2 w = (r2, w') \<Longrightarrow>
      (inbox w', tokens w', logs w', emails w') = (inbox w, tokens w, logs w, emails w)"
begin

lemma opted_out_ret:
  assumes "pr_Get (prefsRepo svc) u w = (got, w1)"
  shows "\<exists>b. opted_out enabled got = Ret b \<and>
    (b \<longrightarrow> (\<exists>p. got = (Some p, None) \<and> stored_prefs w u = Some p \<and> \<not> enabled p)) \<and>
    (\<not> b \<longrightarrow> (\<exists>e. got = (None, Some e)) \<or> (\<exists>p. stored_prefs w u = Some p \<and> enabled p))"
proof -
  obtain p e where got: "got = (p, e)" by (cases got)
  show ?thesis
    using get_answer [of u w p e w1] assms
    by (cases p; cases e; auto simp: got opted_out_def)
qed

text \<open>The one row a finished attempt leaves in the audit trail, if the log can be written.\<close>

definition logged :: "uuid \<Rightarrow> string \<Rightarrow> goerr option outcome \<Rightarrow> delivery_log \<Rightarrow> bool" where
  "logged u channel r l \<longleftrightarrow> dl_user_id l = u \<and> dl_channel l = channel \<and>
     (r = Ret None \<and> dl_status l = StatusSent \<or> (\<exists>e. r = Ret (Some e)) \<and> dl_status l = StatusFailed)"

lemma logDelivery_logs:
  "\<exists>ls. logs (logDelivery svc nid u channel status msg w) = logs w @ ls \<and>
     (ls = [] \<or> (\<exists>l. ls = [l] \<and> dl_user_id l = u \<and> dl_channel l = channel \<and> dl_status l = status))"
proof -
  let ?l = "new_delivery_log nid u channel status msg"
  obtain r l' w' where st: "lr_Store (deliveryLogRepo svc) ?l w = (r, l', w')" by (metis prod_cases3)
  have "dl_user_id row = u \<and> dl_channel row = channel \<and> dl_status row = status" if "same_log ?l row" for row
  proof -
    let ?k = "row\<lparr>dl_id := dl_id ?l, dl_created_at := dl_created_at ?l\<rparr>"
    have "?k = ?l" using that by (simp add: same_log_def new_delivery_log_def)
    then have "dl_user_id ?k = dl_user_id ?l" "dl_channel ?k = dl_channel ?l" "dl_status ?k = dl_status ?l"
      by simp_all
    then show ?thesis by (simp add: new_delivery_log_def)
  qed
  with log_store [OF st] st show ?thesis by (fastforce simp: logDelivery_def)
qed

lemma logDelivery_frame:
  "inbox (logDelivery svc nid u channel status msg w) = inbox w"
  "tokens (logDelivery svc nid u channel status msg w) = tokens w"
  "emails (logDelivery svc nid u channel status msg w) = emails w"
  "pushes (logDelivery svc nid u channel status msg w) = pushes w"
proof -
  obtain r l' w' where st: "lr_Store (deliveryLogRepo svc) (new_delivery_log nid u channel status msg) w = (r, l', w')"
    by (metis prod_cases3)
  then have "logDelivery svc nid u channel status msg w = w'" by (simp add: logDelivery_def)
  with log_frame [OF st] show
    "inbox (logDelivery svc nid u channel status msg w) = inbox w"
    "tokens (logDelivery svc nid u channel status msg w) = tokens w"
    "emails (logDelivery svc nid u channel status msg w) = emails w"
    "pushes (logDelivery svc nid u channel status msg w) = pushes w" by simp_all
qed

text \<open>
  In-app: never a panic; one notification with the content of the message, or none; none when the
  stored preferences say so, unless they could not be read.
\<close>

lemma SendInApp_cases:
  assumes "SendInApp svc m w = (r, w')"
  obtains (silent) p where "r = Ret None" "inbox w' = inbox w" "stored_prefs w (im_user_id m) = Some p"
      "\<not> up_in_app_enabled p" "logs w' = logs w" "emails w' = emails w" "pushes w' = pushes w"
  | (stored) n' where "r \<noteq> Panic q" "inbox w' = inbox w @ [n']" "same_note (in_app_of m) n'"
      "(\<exists>e w1. pr_Get (prefsRepo svc) (im_user_id m) w = ((None, Some e), w1)) \<or>
       (\<exists>p. stored_prefs w (im_user_id m) = Some p \<and> up_in_app_enabled p)"
      "logs w' = logs w" "emails w' = emails w" "pushes w' = pushes w"
  | (failed) e where "r = Ret (Some e)" "inbox w' = inbox w"
      "logs w' = logs w" "emails w' = emails w" "pushes w' = pushes w"
proof -
  obtain got w1 where get: "pr_Get (prefsRepo svc) (im_user_id m) w = (got, w1)" by fastforce
  from opted_out_ret [OF get, of up_in_app_enabled] obtain b where b:
    "opted_out up_in_app_enabled got = Ret b"
    "b \<Longrightarrow> \<exists>p. got = (Some p, None) \<and> stored_prefs w (im_user_id m) = Some p \<and> \<not> up_in_app_enabled p"
    "\<not> b \<Longrightarrow> (\<exists>e. got = (None, Some e)) \<or> (\<exists>p. stored_prefs w (im_user_id m) = Some p \<and> up_in_app_enabled p)"
    by blast
  note frame1 = get_frame [OF get]
  show thesis
  proof (cases b)
    case True
    with b assms get frame1 show thesis by (auto simp: SendInApp_def intro: silent)
  next
    case False
    obtain r2 n' w2 where st: "nr_Store (notificationRepo svc) (in_app_of m) w1 = (r2, n', w2)"
      by (metis prod_cases3)
    have run: "w' = w2" "r2 = None \<Longrightarrow> r = Ret None" "r2 \<noteq> None \<Longrightarrow> \<exists>e. r = Ret (Some e)"
      using assms get b(1) False st by (auto simp: SendInApp_def split: option.splits)
    have ok: "r \<noteq> Panic q" using run(2,3) by (cases r2) auto
    from note_store [OF st] show thesis
    proof
      assume "\<exists>row. inbox w2 = inbox w1 @ [row] \<and> same_note (in_app_of m) row"
      then obtain row where "inbox w2 = inbox w1 @ [row]" "same_note (in_app_of m) row" by blast
      with b(3) [OF False] get frame1 note_frame [OF st] run(1) ok show thesis
        by (intro stored) auto
    next
      assume "r2 \<noteq> None \<and> inbox w2 = inbox w1"
      with frame1 note_frame [OF st] run show thesis by (auto intro: failed)
    qed
  qed
qed

text \<open>What sending ends with: the result under the method's name, and one row that tells it.\<close>

lemma finish_logged:
  assumes "(r, w') = (case r3 of
      Panic p \<Rightarrow> (Panic p, w3)
    | Ret (Some e) \<Rightarrow> (Ret (Some (wrap site e)), logDelivery svc nid u ch StatusFailed (err_msg e) w3)
    | Ret None \<Rightarrow> (Ret None, logDelivery svc nid u ch StatusSent '''' w3))"
  obtains ls where "logs w' = logs w3 @ ls" "ls = [] \<or> (\<exists>l. ls = [l] \<and> logged u ch r l)"
    "inbox w' = inbox w3" "emails w' = emails w3" "pushes w' = pushes w3" "r = Ret None \<longleftrightarrow> r3 = Ret None"
proof (cases r3)
  case (Panic p)
  with assms show thesis by (intro that [of "[]"]) auto
next
  case (Ret e)
  obtain status msg where w': "w' = logDelivery svc nid u ch status msg w3"
    and r: "r = Ret None \<and> e = None \<and> status = StatusSent \<or>
      (\<exists>e'. r = Ret (Some e')) \<and> e \<noteq> None \<and> status = StatusFailed"
    using assms Ret by (cases e) auto
  from logDelivery_logs [of nid u ch status msg w3] obtain ls where ls: "logs w' = logs w3 @ ls"
    "ls = [] \<or> (\<exists>l. ls = [l] \<and> dl_user_id l = u \<and> dl_channel l = ch \<and> dl_status l = status)"
    unfolding w' by blast
  have "ls = [] \<or> (\<exists>l. ls = [l] \<and> logged u ch r l)" using ls(2) r by (auto simp: logged_def)
  with ls(1) r Ret show thesis by (intro that [of ls]) (auto simp: w' logDelivery_frame)
qed

text \<open>
  Push: at most one request, only to active tokens of the user, never to a user who opted out, unless
  the preferences could not be read; an attempt leaves at most one row in the audit trail, which tells
  how it ended.
\<close>

lemma SendPush_cases:
  assumes "fine w" and "SendPush svc m w = (r, w')"
  obtains (silent) "pushes w' = pushes w" "logs w' = logs w" "r \<noteq> Panic q"
      "inbox w' = inbox w" "emails w' = emails w"
  | (attempt) toks ls where "toks \<noteq> []"
      "list_all (\<lambda>t. list_ex (\<lambda>k. pt_user_id k = pm_user_id m \<and> pt_active k \<and> pt_token k = t) (tokens w)) toks"
      "(\<exists>e w1. pr_Get (prefsRepo svc) (pm_user_id m) w = ((None, Some e), w1)) \<or>
       (\<exists>p. stored_prefs w (pm_user_id m) = Some p \<and> up_push_enabled p)"
      "pushes w' = pushes w @ [push_of m toks] \<or> r \<noteq> Ret None \<and> pushes w' = pushes w"
      "logs w' = logs w @ ls" "ls = [] \<or> (\<exists>l. ls = [l] \<and> logged (pm_user_id m) ChannelPush r l)"
      "inbox w' = inbox w" "emails w' = emails w"
proof -
  obtain got w1 where get: "pr_Get (prefsRepo svc) (pm_user_id m) w = (got, w1)" by fastforce
  from opted_out_ret [OF get, of up_push_enabled] obtain b where b:
    "opted_out up_push_enabled got = Ret b"
    "\<not> b \<Longrightarrow> (\<exists>e. got = (None, Some e)) \<or> (\<exists>p. stored_prefs w (pm_user_id m) = Some p \<and> up_push_enabled p)"
    by blast
  obtain g w2 where list: "tr_GetByUserID (pushTokenRepo svc) (pm_user_id m) w1 = (g, w2)" by fastforce
  note frame = get_frame [OF get] token_frame [OF list]
  show thesis
  proof (cases "\<not> b \<and> (\<exists>ts send. g = Inr ts \<and> active_tokens ts \<noteq> [] \<and> pushSender svc = Some send)")
    case False
    with assms(2) get b(1) list frame show thesis
      by (cases b; cases g; cases "pushSender svc")
         (auto simp: SendPush_def active_tokens_def split: if_splits intro: silent)
  next
    case True
    then obtain ts send where ts: "\<not> b" "g = Inr ts" "active_tokens ts \<noteq> []" "pushSender svc = Some send"
      by blast
    obtain r3 w3 where sent: "send m (active_tokens ts) w2 = (r3, w3)" by fastforce
    have ne: "ts \<noteq> []" using ts(3) by (auto simp: active_tokens_def)
    have "(r, w') = (case r3 of
        Panic p \<Rightarrow> (Panic p, w3)
      | Ret (Some e) \<Rightarrow> (Ret (Some (wrap ''Service - SendPush - s.pushSender.Send'' e)),
          logDelivery svc uuid_Nil (pm_user_id m) ChannelPush StatusFailed (err_msg e) w3)
      | Ret None \<Rightarrow> (Ret None, logDelivery svc uuid_Nil (pm_user_id m) ChannelPush StatusSent '''' w3))"
      unfolding assms(2) [symmetric] using ts ne b(1)
      by (simp add: SendPush_def get list sent split: outcome.split option.split)
    then obtain ls where ls: "logs w' = logs w3 @ ls"
      "ls = [] \<or> (\<exists>l. ls = [l] \<and> logged (pm_user_id m) ChannelPush r l)"
      "inbox w' = inbox w3" "emails w' = emails w3" "pushes w' = pushes w3" "r = Ret None \<longleftrightarrow> r3 = Ret None"
      by (rule finish_logged)
    have toks: "list_all (\<lambda>t. list_ex (\<lambda>k. pt_user_id k = pm_user_id m \<and> pt_active k \<and> pt_token k = t)
        (tokens w)) (active_tokens ts)"
      using token_list [of w1 "pm_user_id m" ts w2] list ts(2) get_frame [OF get]
        get_fine [OF assms(1), of "pm_user_id m"] get
      by (auto simp: list_all_iff list_ex_iff active_tokens_def)
    have may: "(\<exists>e w1. pr_Get (prefsRepo svc) (pm_user_id m) w = ((None, Some e), w1)) \<or>
       (\<exists>p. stored_prefs w (pm_user_id m) = Some p \<and> up_push_enabled p)"
      using b(2) [OF ts(1)] get by auto
    show thesis
      using push_send [OF ts(4,3) sent] push_frame [OF ts(4) sent] frame ls
      by (intro attempt [OF ts(3) toks may, of ls]) auto
  qed
qed

text \<open>Email: the same, one mail to the addresses of the message.\<close>

lemma SendEmail_cases:
  assumes "SendEmail svc m w = (r, w')"
  obtains (silent) "emails w' = emails w" "logs w' = logs w" "r = Ret None"
      "inbox w' = inbox w" "pushes w' = pushes w"
      "emailSender svc = None \<or> (\<exists>p. stored_prefs w (em_user_id m) = Some p \<and> \<not> up_email_enabled p)"
  | (attempt) ls where
      "(\<exists>e w1. pr_Get (prefsRepo svc) (em_user_id m) w = ((None, Some e), w1)) \<or>
       (\<exists>p. stored_prefs w (em_user_id m) = Some p \<and> up_email_enabled p)"
      "emails w' = emails w @ [email_of m] \<or> r \<noteq> Ret None \<and> emails w' = emails w"
      "logs w' = logs w @ ls" "ls = [] \<or> (\<exists>l. ls = [l] \<and> logged (em_user_id m) ChannelEmail r l)"
      "inbox w' = inbox w" "pushes w' = pushes w"
proof (cases "emailSender svc")
  case None
  with assms show thesis by (intro silent) (auto simp: SendEmail_def)
next
  case send: (Some send)
  obtain p e w1 where get: "pr_Get (prefsRepo svc) (em_user_id m) w = ((p, e), w1)" by (metis prod.collapse)
  note frame = get_frame [OF get]
  show thesis
  proof (cases "email_off (p, e)")
    case True
    then have "\<exists>q. stored_prefs w (em_user_id m) = Some q \<and> \<not> up_email_enabled q"
      using get_answer [OF get] by (cases p; cases e) (auto simp: email_off_def)
    with True assms get send frame show thesis by (intro silent) (auto simp: SendEmail_def)
  next
    case False
    obtain r2 w2 where sent: "send m w1 = (r2, w2)" by fastforce
    have "(r, w') = (case r2 of
        Panic p \<Rightarrow> (Panic p, w2)
      | Ret (Some e) \<Rightarrow> (Ret (Some (wrap ''Service - SendEmail - s.emailSender.Send'' e)),
          logDelivery svc uuid_Nil (em_user_id m) ChannelEmail StatusFailed (err_msg e) w2)
      | Ret None \<Rightarrow> (Ret None, logDelivery svc uuid_Nil (em_user_id m) ChannelEmail StatusSent '''' w2))"
      unfolding assms [symmetric] using False
      by (simp add: SendEmail_def get send sent split: outcome.split option.split)
    then obtain ls where ls: "logs w' = logs w2 @ ls"
      "ls = [] \<or> (\<exists>l. ls = [l] \<and> logged (em_user_id m) ChannelEmail r l)"
      "inbox w' = inbox w2" "emails w' = emails w2" "pushes w' = pushes w2" "r = Ret None \<longleftrightarrow> r2 = Ret None"
      by (rule finish_logged)
    have may: "(\<exists>e w1. pr_Get (prefsRepo svc) (em_user_id m) w = ((None, Some e), w1)) \<or>
       (\<exists>p. stored_prefs w (em_user_id m) = Some p \<and> up_email_enabled p)"
      using get_answer [OF get] False get by (cases p; cases e) (auto simp: email_off_def)
    show thesis
      using email_send [OF send sent] email_frame [OF send sent] frame ls
      by (intro attempt [OF may, of ls]) auto
  qed
qed

end

section \<open>The audit trail never decides\<close>

text \<open>Whatever the delivery log does, what the three methods return is the same.\<close>

lemma SendEmail_ignores_log:
  "fst (SendEmail (s\<lparr>deliveryLogRepo := lr\<rparr>) m w) = fst (SendEmail s m w)"
  by (simp add: SendEmail_def split: option.split prod.split outcome.split)

lemma SendPush_ignores_log:
  "fst (SendPush (s\<lparr>deliveryLogRepo := lr\<rparr>) m w) = fst (SendPush s m w)"
  by (simp add: SendPush_def split: option.split prod.split outcome.split bool.split sum.split)

end
