(* ===== verification/NotificationRepo.thy ===== *)
theory NotificationRepo
  imports Database RepoContracts
begin

text \<open>
  \<open>internal/repo/persistent/notification_postgres.go\<close>: the table \<open>notifications\<close> of the in-app
  messages, with paging, the two marks and the unread counter.
\<close>

section \<open>The operations\<close>

definition errNotificationNotFound :: goerr where
  "errNotificationNotFound = ErrNew ''notification not found''"

text \<open>The row an \<open>INSERT\<close> of a struct makes: its instants in microseconds.\<close>

definition notification_row :: "in_app_notification \<Rightarrow> in_app_notification" where
  "notification_row n = n\<lparr>n_read_at := map_option column_time (n_read_at n),
     n_created_at := column_time (n_created_at n)\<rparr>"

text \<open>The method writes \<open>n.ID\<close> and \<open>n.CreatedAt\<close> through the pointer, also when the insert fails.\<close>

definition notification_Store ::
  "in_app_notification \<Rightarrow> 'a pg_scheme \<Rightarrow> goerr option \<times> in_app_notification \<times> 'a pg_scheme" where
  "notification_Store n w =
     (let n1 = (if n_id n = uuid_Nil then n\<lparr>n_id := fresh_uuid w\<rparr> else n);
          n2 = n1\<lparr>n_created_at := now w\<rparr>;
          (r, w') = with_sql ''NotificationRepo - Store - r.Builder''
            (pg_exec ''NotificationRepo - Store - r.Pool.Exec''
              (\<lambda>w'. case insert_rows n_id [notification_row n2] (notifications w') of
                      Inl e \<Rightarrow> Inl e
                    | Inr rs \<Rightarrow> Inr (w'\<lparr>notifications := rs\<rparr>))) w
      in (r, n2, w'))"

definition notification_GetByID ::
  "uuid \<Rightarrow> 'a pg_scheme \<Rightarrow> (goerr + in_app_notification) \<times> 'a pg_scheme" where
  "notification_GetByID i w =
     (case build_answer w (tick w) of
        Some e \<Rightarrow> (Inl (wrap ''NotificationRepo - GetByID - r.Builder'' e), advance w)
      | None \<Rightarrow>
        (case pg_query_row (filter (\<lambda>n. n_id n = i) (notifications w)) w of
           (Inl e, w') \<Rightarrow>
             (if err_is e pgx_ErrNoRows then (Inl errNotificationNotFound, w')
              else (Inl (wrap ''NotificationRepo - GetByID - r.Pool.QueryRow'' e), w'))
         | (Inr n, w') \<Rightarrow> (Inr n, w')))"

text \<open>
  \<open>WHERE user_id = ? ORDER BY created_at DESC\<close>, then \<open>LIMIT\<close> and \<open>OFFSET\<close>. The order of rows with the
  same \<open>created_at\<close> is that of the current query alone.
\<close>

definition notifications_of :: "uuid \<Rightarrow> 'a pg_scheme \<Rightarrow> in_app_notification list" where
  "notifications_of u w = filter (\<lambda>n. n_user_id n = u) (notifications w)"

definition user_listing :: "uuid \<Rightarrow> 'a pg_scheme \<Rightarrow> in_app_notification list" where
  "user_listing u w =
     order_by (scan_notifications w) (tick w) (\<lambda>n. - n_created_at n) (notifications_of u w)"

definition page :: "nat \<Rightarrow> nat \<Rightarrow> 'b list \<Rightarrow> 'b list" where
  "page limit offset xs = take limit (drop offset xs)"

definition notification_GetByUserID ::
  "uuid \<Rightarrow> nat \<Rightarrow> nat \<Rightarrow> 'a pg_scheme \<Rightarrow> (goerr + in_app_notification list) \<times> 'a pg_scheme" where
  "notification_GetByUserID u limit offset w =
     query_list ''NotificationRepo - GetByUserID'' (page limit offset (user_listing u w)) w"

definition mark_read :: "time \<Rightarrow> in_app_notification \<Rightarrow> in_app_notification" where
  "mark_read t n = n\<lparr>n_read := True, n_read_at := Some t\<rparr>"

definition notification_MarkAsRead :: "uuid \<Rightarrow> 'a pg_scheme \<Rightarrow> goerr option \<times> 'a pg_scheme" where
  "notification_MarkAsRead i w =
     (let t = column_time (now w) in
      with_sql ''NotificationRepo - MarkAsRead - r.Builder''
        (pg_exec ''NotificationRepo - MarkAsRead - r.Pool.Exec''
          (\<lambda>w'. Inr (w'\<lparr>notifications :=
             update_where (\<lambda>n. n_id n = i) (mark_read t) (notifications w')\<rparr>))) w)"

definition notification_MarkAllAsRead :: "uuid \<Rightarrow> 'a pg_scheme \<Rightarrow> goerr option \<times> 'a pg_scheme" where
  "notification_MarkAllAsRead u w =
     (let t = column_time (now w) in
      with_sql ''NotificationRepo - MarkAllAsRead - r.Builder''
        (pg_exec ''NotificationRepo - MarkAllAsRead - r.Pool.Exec''
          (\<lambda>w'. Inr (w'\<lparr>notifications :=
             update_where (\<lambda>n. n_user_id n = u \<and> \<not> n_read n) (mark_read t) (notifications w')\<rparr>))) w)"

definition unread_of :: "uuid \<Rightarrow> in_app_notification list \<Rightarrow> in_app_notification list" where
  "unread_of u ns = filter (\<lambda>n. n_user_id n = u \<and> \<not> n_read n) ns"

text \<open>\<open>SELECT COUNT( * )\<close> always gives one row; on an error the count returned is 0.\<close>

definition notification_GetUnreadCount :: "uuid \<Rightarrow> 'a pg_scheme \<Rightarrow> (goerr + int) \<times> 'a pg_scheme" where
  "notification_GetUnreadCount u w =
     (case build_answer w (tick w) of
        Some e \<Rightarrow> (Inl (wrap ''NotificationRepo - GetUnreadCount - r.Builder'' e), advance w)
      | None \<Rightarrow>
        (case pg_query_row [int (length (unread_of u (notifications w)))] w of
           (Inl e, w') \<Rightarrow> (Inl (wrap ''NotificationRepo - GetUnreadCount - r.Pool.QueryRow'' e), w')
         | (Inr c, w') \<Rightarrow> (Inr c, w')))"

definition pg_notification_repo :: "'a pg_scheme notification_repo" where
  "pg_notification_repo = \<lparr>nr_Store = notification_Store, nr_GetByID = notification_GetByID,
     nr_GetByUserID = notification_GetByUserID, nr_MarkAsRead = notification_MarkAsRead,
     nr_MarkAllAsRead = notification_MarkAllAsRead, nr_GetUnreadCount = notification_GetUnreadCount\<rparr>"

section \<open>Lemmas\<close>

lemma notification_row_sel [simp]:
  "n_id (notification_row n) = n_id n" "n_user_id (notification_row n) = n_user_id n"
  "n_read (notification_row n) = n_read n"
  "n_created_at (notification_row n) = column_time (n_created_at n)"
  by (simp_all add: notification_row_def)

lemma mark_read_sel [simp]:
  "n_id (mark_read t n) = n_id n" "n_user_id (mark_read t n) = n_user_id n"
  "n_created_at (mark_read t n) = n_created_at n" "n_read (mark_read t n)"
  "n_read_at (mark_read t n) = Some t"
  by (simp_all add: mark_read_def)

lemma page_all: "length xs \<le> k \<Longrightarrow> page k 0 xs = xs"
  by (simp add: page_def)

text \<open>Pages of the same size, one after the other, give the whole listing.\<close>

lemma pages_take: "concat (map (\<lambda>i. page k (i * k) xs) [0..<m]) = take (m * k) xs"
proof (induction m)
  case (Suc m)
  have "take (Suc m * k) xs = take (m * k) xs @ take k (drop (m * k) xs)"
    by (metis add.commute mult_Suc take_add)
  with Suc show ?case by (simp add: page_def)
qed simp

definition notifications_okay :: "'a pg_scheme \<Rightarrow> bool" where
  "notifications_okay w \<longleftrightarrow> distinct (map n_id (notifications w)) \<and> scan_ok (scan_notifications w)"

text \<open>What each writing call may do to the table, whatever the database answers.\<close>

lemma notification_Store_rows:
  assumes "notification_Store n w = (r, n', w')"
  shows "notifications w' = notifications w @ [notification_row n'] \<and>
      distinct (map n_id (notifications w')) \<or>
    r \<noteq> None \<and> notifications w' = notifications w"
  using assms
  by (auto simp: notification_Store_def with_sql_def pg_exec_def insert_rows_def Let_def
      split: option.splits exec_answer.splits if_splits prod.splits)

lemma notification_Store_fields:
  assumes "notification_Store n w = (r, n', w')"
  shows "n' = n\<lparr>n_id := (if n_id n = uuid_Nil then fresh_uuid w else n_id n), n_created_at := now w\<rparr>"
  using assms by (auto simp: notification_Store_def Let_def split: prod.splits)

lemma MarkAsRead_rows:
  assumes "notification_MarkAsRead i w = (r, w')"
  shows "notifications w' =
      update_where (\<lambda>n. n_id n = i) (mark_read (column_time (now w))) (notifications w) \<or>
    r \<noteq> None \<and> notifications w' = notifications w"
  using assms
  by (auto simp: notification_MarkAsRead_def with_sql_def pg_exec_def Let_def
      split: option.splits exec_answer.splits)

lemma MarkAllAsRead_rows:
  assumes "notification_MarkAllAsRead u w = (r, w')"
  shows "notifications w' =
      update_where (\<lambda>n. n_user_id n = u \<and> \<not> n_read n) (mark_read (column_time (now w))) (notifications w) \<or>
    r \<noteq> None \<and> notifications w' = notifications w"
  using assms
  by (auto simp: notification_MarkAllAsRead_def with_sql_def pg_exec_def Let_def
      split: option.splits exec_answer.splits)

text \<open>No call touches another table, the clock or the answers still to come.\<close>

lemma notification_repo_view:
  assumes "\<And>w. view (advance w) = view w" and "\<And>w rs. view (w\<lparr>notifications := rs\<rparr>) = view w"
  shows "view (snd (snd (notification_Store n w))) = view w"
    and "view (snd (notification_GetByID i w)) = view w"
    and "view (snd (notification_GetByUserID u l k w)) = view w"
    and "view (snd (notification_MarkAsRead i w)) = view w"
    and "view (snd (notification_MarkAllAsRead u w)) = view w"
    and "view (snd (notification_GetUnreadCount u w)) = view w"
  using assms
  by (simp_all add: notification_Store_def notification_GetByID_def notification_GetByUserID_def
      notification_MarkAsRead_def notification_MarkAllAsRead_def notification_GetUnreadCount_def
      pg_query_row_def with_sql_def pg_exec_def Let_def
      split: option.splits exec_answer.splits query_answer.splits sum.splits list.splits prod.splits)

lemmas notification_repo_healthy = notification_repo_view [where view = healthy, simplified]

lemma unread_count_healthy:
  "healthy w \<Longrightarrow>
     fst (notification_GetUnreadCount u w) = Inr (int (length (unread_of u (notifications w))))"
  by (simp add: notification_GetUnreadCount_def pg_query_row_healthy healthy_answers)

lemma unread_of_mark_all [simp]:
  "unread_of v (update_where (\<lambda>n. n_user_id n = u \<and> \<not> n_read n) (mark_read t) ns) =
     (if v = u then [] else unread_of v ns)"
  by (induction ns) (auto simp: unread_of_def update_where_def)

lemma unread_of_mark_one:
  assumes "distinct (map n_id ns)" and "n \<in> set ns" and "\<not> n_read n"
  shows "length (unread_of v (update_where (\<lambda>m. n_id m = n_id n) (mark_read t) ns)) =
    length (unread_of v ns) - (if v = n_user_id n then 1 else 0)"
  using assms
proof (induction ns)
  case (Cons m ns)
  have rest: "update_where (\<lambda>m. n_id m = n_id n) (mark_read t) ns = ns" if "m = n"
    using Cons.prems(1) that by (intro update_where_none) (auto simp: image_iff)
  show ?case
  proof (cases "m = n")
    case True
    then show ?thesis using rest Cons.prems(3) by (simp add: unread_of_def update_where_def)
  next
    case False
    then have n: "n \<in> set ns" "n_id m \<noteq> n_id n" using Cons.prems(1,2) by auto
    with Cons.IH Cons.prems(1,3)
    have IH: "length (unread_of v (update_where (\<lambda>m. n_id m = n_id n) (mark_read t) ns)) =
      length (unread_of v ns) - (if v = n_user_id n then 1 else 0)" by simp
    have "0 < length (unread_of v ns)" if "v = n_user_id n"
      using that n(1) Cons.prems(3) by (auto simp: unread_of_def filter_empty_conv)
    with IH n(2) show ?thesis by (auto simp: unread_of_def update_where_def Suc_diff_le)
  qed
qed simp

section \<open>Properties\<close>

definition sample_note :: "uuid \<Rightarrow> uuid \<Rightarrow> time \<Rightarrow> in_app_notification" where
  "sample_note i u t = \<lparr>n_id = i, n_user_id = u, n_type = ''info'', n_title = ''Hi'', n_body = ''there'',
     n_data = None, n_action_url = None, n_image_url = None, n_read = False, n_read_at = None,
     n_created_at = t\<rparr>"

definition sample_notes :: pg where
  "sample_notes = empty_db\<lparr>notifications := [sample_note 1 7 10, sample_note 2 7 30,
     sample_note 3 8 40, sample_note 4 7 20]\<rparr>"

lemma sample_note_sel [simp]:
  "n_id (sample_note i u t) = i" "n_user_id (sample_note i u t) = u"
  "n_created_at (sample_note i u t) = t" "\<not> n_read (sample_note i u t)"
  by (simp_all add: sample_note_def)

lemma sample_notes_facts [simp]:
  "healthy sample_notes" "notifications_okay sample_notes"
  "notifications sample_notes = [sample_note 1 7 10, sample_note 2 7 30, sample_note 3 8 40, sample_note 4 7 20]"
  "new_uuid sample_notes = (\<lambda>n. word_of_nat (n + 1))" "tick sample_notes = 0"
  "scan_notifications sample_notes = (\<lambda>k rs. rs)"
  by (simp_all add: sample_notes_def healthy_def notifications_okay_def empty_db_def)

text \<open>
  C32. What was stored is what is read back, but for the nanoseconds: on an answering database a
  notification whose identifier is new (or generated, and not yet in the table) is stored, the
  caller's struct has the identifier and the current instant, and reading by that identifier gives
  every field of the struct back, its two instants cut to the microseconds of their columns.
\<close>

theorem notification_roundtrip:
  assumes "healthy w" and "notifications_okay w" and "notification_Store n w = (r, n', w')"
    and "n_id n' \<notin> n_id ` set (notifications w)"
  shows "r = None \<and>
    fst (notification_GetByID (n_id n') w') =
      Inr (n'\<lparr>n_read_at := map_option column_time (n_read_at n'), n_created_at := column_time (now w)\<rparr>) \<and>
    n' = n\<lparr>n_id := n_id n', n_created_at := now w\<rparr> \<and> (n_id n \<noteq> uuid_Nil \<longrightarrow> n_id n' = n_id n)"
proof -
  from assms(1,3) have "healthy w'"
    using notification_repo_healthy(1) [of n w] by simp
  moreover have stored: "r = None \<and> notifications w' = notifications w @ [notification_row n']"
    using assms by (auto simp: notification_Store_def pg_exec_healthy insert_rows_def Let_def
        notifications_okay_def split: sum.splits prod.splits if_splits)
  moreover have "filter (\<lambda>n. n_id n = n_id n') (notifications w) = []"
    using assms(4) by (auto simp: filter_empty_conv image_iff)
  ultimately show ?thesis
    using notification_Store_fields [OF assms(3)]
    by (simp add: notification_GetByID_def healthy_answers pg_query_row_healthy notification_row_def)
qed

lemma notification_roundtrip_witness:
  "\<exists>n' w'. notification_Store (sample_note 9 7 0) sample_notes = (None, n', w') \<and>
     n_created_at n' = 1000500 \<and> fst (notification_GetByID 9 w') = Inr (sample_note 9 7 1000000)"
proof -
  obtain r n' w' where st: "notification_Store (sample_note 9 7 0) sample_notes = (r, n', w')"
    by (metis prod_cases3)
  have now_sample: "now sample_notes = 1000500"
    by (simp add: sample_notes_def now_def empty_db_def)
  have n': "n' = (sample_note 9 7 0)\<lparr>n_created_at := 1000500\<rparr>"
    using notification_Store_fields [OF st] by (simp only: now_sample) (simp add: sample_note_def)
  then have row: "n'\<lparr>n_read_at := map_option column_time (n_read_at n'), n_created_at := column_time (now sample_notes)\<rparr> =
      sample_note 9 7 1000000"
    by (simp only: now_sample) (simp add: sample_note_def column_time_def)
  have "n_id n' \<notin> n_id ` set (notifications sample_notes)"
    by (simp add: n')
  note read_back = notification_roundtrip [OF sample_notes_facts(1,2) st this]
  have "r = None" using read_back by blast
  moreover have "fst (notification_GetByID 9 w') = Inr (sample_note 9 7 1000000)"
    using read_back [THEN conjunct2, THEN conjunct1] unfolding row by (simp add: n')
  moreover have "n_created_at n' = 1000500" by (simp add: n')
  ultimately show ?thesis using st by blast
qed

text \<open>A client that asks for the pages of a listing one after the other.\<close>

fun read_pages :: "uuid \<Rightarrow> nat \<Rightarrow> nat \<Rightarrow> nat \<Rightarrow> 'a pg_scheme \<Rightarrow> in_app_notification list" where
  "read_pages u k offset 0 w = []"
| "read_pages u k offset (Suc m) w =
     (case notification_GetByUserID u k offset w of
        (Inl e, w') \<Rightarrow> []
      | (Inr xs, w') \<Rightarrow> xs @ read_pages u k (offset + k) m w')"

lemma notifications_of_advance [simp]: "notifications_of u (advance w) = notifications_of u w"
  by (simp add: notifications_of_def)

lemma scan_notifications_advance [simp]: "scan_notifications (advance w) = scan_notifications w"
  by (simp add: advance_def)

lemma user_listing_distinct:
  assumes "scan_ok (scan_notifications w)" and "distinct (map n_created_at (notifications_of u w))"
  shows "user_listing u w = sort_key (\<lambda>n. - n_created_at n) (notifications_of u w)"
proof -
  have "distinct (map (\<lambda>n. - n_created_at n) (notifications_of u w))"
    using assms(2) by (simp add: distinct_map inj_on_def)
  with assms(1) show ?thesis
    unfolding user_listing_def by (rule order_by_distinct)
qed

lemma read_pages_healthy:
  assumes "healthy w" and "scan_ok (scan_notifications w)"
    and "distinct (map n_created_at (notifications_of u w))"
  shows "read_pages u k offset m w =
    take (m * k) (drop offset (sort_key (\<lambda>n. - n_created_at n) (notifications_of u w)))"
  using assms
proof (induction m arbitrary: offset w)
  case (Suc m)
  then show ?case
    by (simp add: notification_GetByUserID_def query_list_healthy page_def take_add add.commute
        user_listing_distinct)
qed simp

text \<open>
  C33. Paging is complete when no two notifications of the user have the same \<open>created_at\<close>: enough
  pages of any size, read from an answering database, give every notification of the user exactly
  once and none of another user, the newest first, whatever plan each page's query has.
\<close>

theorem pages_give_everything:
  assumes "healthy w" and "notifications_okay w"
    and "distinct (map n_created_at (filter (\<lambda>n. n_user_id n = u) (notifications w)))"
    and "length (filter (\<lambda>n. n_user_id n = u) (notifications w)) \<le> m * k"
  shows "mset (read_pages u k 0 m w) = mset (filter (\<lambda>n. n_user_id n = u) (notifications w)) \<and>
    sorted (map (\<lambda>n. - n_created_at n) (read_pages u k 0 m w))"
  using assms
  by (simp add: read_pages_healthy [unfolded notifications_of_def] notifications_okay_def)

lemma pages_give_everything_witness:
  "mset (read_pages 7 2 0 2 (sample_notes\<lparr>scan_notifications := (\<lambda>k. if odd k then rev else (\<lambda>rs. rs))\<rparr>)) =
     {#sample_note 1 7 10, sample_note 2 7 30, sample_note 4 7 20#}"
  using pages_give_everything
    [of "sample_notes\<lparr>scan_notifications := (\<lambda>k. if odd k then rev else (\<lambda>rs. rs))\<rparr>" 7 2 2]
  by (simp add: healthy_def notifications_okay_def sample_notes_def empty_db_def)

text \<open>
  With ties the pages may repeat one notification and miss another: \<open>created_at\<close> alone does not fix
  the order, and two queries may order the tied rows differently.
\<close>

lemma tied_pages_repeat_and_miss:
  "read_pages 7 1 0 2 (sample_notes\<lparr>notifications := [sample_note 1 7 10, sample_note 2 7 10],
     scan_notifications := (\<lambda>k. if odd k then rev else (\<lambda>rs. rs))\<rparr>) = [sample_note 1 7 10, sample_note 1 7 10]"
  by (simp add: numeral_2_eq_2 notification_GetByUserID_def query_list_def pg_query_def user_listing_def
      notifications_of_def order_by_def page_def sample_notes_def empty_db_def advance_def)

text \<open>
  A listing whose connection breaks after \<open>j\<close> rows is reported as success with the first \<open>j\<close>
  rows of the page: \<open>rows.Err\<close> is not checked.
\<close>

theorem broken_listing_is_a_success:
  assumes "build_answer w (tick w) = None" and "query_answer w (tick w) = RowsBroken j e"
  shows "fst (notification_GetByUserID u k offset w) =
    Inr (take j (take k (drop offset (user_listing u w))))"
  using assms by (simp add: notification_GetByUserID_def query_list_broken page_def)

lemma broken_listing_is_a_success_witness:
  "fst (notification_GetByUserID 7 10 0
     (sample_notes\<lparr>query_answer := (\<lambda>_. RowsBroken 1 (ErrNew ''connection reset''))\<rparr>)) =
   Inr [sample_note 2 7 30]"
  using broken_listing_is_a_success
    [of "sample_notes\<lparr>query_answer := (\<lambda>_. RowsBroken 1 (ErrNew ''connection reset''))\<rparr>" 1 _ 7 10 0]
  by (simp add: user_listing_def notifications_of_def order_by_def sample_notes_def empty_db_def)

text \<open>
  Marking everything as read leaves the user with an unread count of zero and every other user
  with the count they had; a failed call changes nothing or has that same effect.
\<close>

theorem MarkAllAsRead_clears_the_count:
  assumes "notification_MarkAllAsRead u w = (r, w')" and "healthy w'"
  shows "(r = None \<longrightarrow> fst (notification_GetUnreadCount u w') = Inr 0) \<and>
    (v = u \<or> fst (notification_GetUnreadCount v w') =
       Inr (int (length (unread_of v (notifications w)))))"
  using MarkAllAsRead_rows [OF assms(1)] assms(2)
  by (auto simp: unread_count_healthy split: if_splits)

lemma MarkAllAsRead_clears_the_count_witness:
  "fst (notification_GetUnreadCount 7 (snd (notification_MarkAllAsRead 7 sample_notes))) = Inr 0 \<and>
   fst (notification_GetUnreadCount 8 (snd (notification_MarkAllAsRead 7 sample_notes))) = Inr 1"
proof -
  let ?w = "snd (notification_MarkAllAsRead 7 sample_notes)"
  have run: "notification_MarkAllAsRead 7 sample_notes = (None, ?w)"
    by (simp add: notification_MarkAllAsRead_def pg_exec_healthy Let_def)
  have "healthy ?w" by (simp add: notification_repo_healthy)
  from MarkAllAsRead_clears_the_count [OF run this, of 8] show ?thesis
    by (simp add: unread_of_def)
qed

text \<open>
  Marking one unread notification as read lowers its owner's unread count by exactly one and
  changes nobody else's; marking an identifier that is not in the table reports success and changes
  nothing.
\<close>

theorem MarkAsRead_counts:
  assumes "notification_MarkAsRead i w = (None, w')" and "healthy w'" and "notifications_okay w"
  shows "(\<forall>n \<in> set (notifications w). n_id n = i \<and> \<not> n_read n \<longrightarrow>
      fst (notification_GetUnreadCount v w') =
        Inr (int (length (unread_of v (notifications w)) - (if v = n_user_id n then 1 else 0)))) \<and>
    (i \<notin> n_id ` set (notifications w) \<longrightarrow> notifications w' = notifications w)"
proof -
  have rows: "notifications w' =
      update_where (\<lambda>n. n_id n = i) (mark_read (column_time (now w))) (notifications w)"
    using MarkAsRead_rows [OF assms(1)] by simp
  have "notifications w' = notifications w" if "i \<notin> n_id ` set (notifications w)"
    unfolding rows by (rule update_where_none) (use that in auto)
  with rows assms(2,3) show ?thesis
    by (auto simp: unread_count_healthy unread_of_mark_one notifications_okay_def)
qed

lemma MarkAsRead_counts_witness:
  "fst (notification_GetUnreadCount 7 (snd (notification_MarkAsRead 2 sample_notes))) = Inr 2 \<and>
   notifications (snd (notification_MarkAsRead 99 sample_notes)) = notifications sample_notes"
proof -
  have run: "notification_MarkAsRead i sample_notes = (None, snd (notification_MarkAsRead i sample_notes))" for i
    by (simp add: notification_MarkAsRead_def pg_exec_healthy Let_def)
  have "healthy (snd (notification_MarkAsRead i sample_notes))" for i
    by (simp add: notification_repo_healthy)
  from MarkAsRead_counts [OF run this, of 2 7] MarkAsRead_counts [OF run this, of 99 7]
  show ?thesis by (simp add: unread_of_def)
qed

end
