(* ===== verification/PushTokenRepo.thy ===== *)
theory PushTokenRepo
  imports Database RepoContracts
begin

text \<open>
  \<open>internal/repo/persistent/push_token_postgres.go\<close>: the table \<open>push_tokens\<close>, one row per user and
  device.
\<close>

section \<open>The operations\<close>

definition same_device :: "push_token \<Rightarrow> push_token \<Rightarrow> bool" where
  "same_device t r \<longleftrightarrow> pt_user_id r = pt_user_id t \<and> pt_device_id r = pt_device_id t"

text \<open>\<open>DO UPDATE SET\<close>: four columns of the row that is there.\<close>

definition overwrite_token :: "push_token \<Rightarrow> push_token \<Rightarrow> push_token" where
  "overwrite_token t r = r\<lparr>pt_token := pt_token t, pt_platform := pt_platform t,
     pt_active := pt_active t, pt_updated_at := pt_updated_at t\<rparr>"

text \<open>
  \<open>INSERT ... ON CONFLICT (user_id, device_id) DO UPDATE\<close>: a row of the same device is overwritten;
  otherwise the row is inserted, unless its primary key is taken.
\<close>

definition upsert_token :: "push_token \<Rightarrow> push_token list \<Rightarrow> goerr + push_token list" where
  "upsert_token t rs =
     (if list_ex (same_device t) rs then Inr (update_where (same_device t) (overwrite_token t) rs)
      else insert_rows pt_id [t] rs)"

text \<open>The two instants as their columns keep them.\<close>

definition token_row :: "push_token \<Rightarrow> push_token" where
  "token_row t = t\<lparr>pt_created_at := column_time (pt_created_at t), pt_updated_at := column_time (pt_updated_at t)\<rparr>"

definition token_Store ::
  "push_token \<Rightarrow> 'a pg_scheme \<Rightarrow> goerr option \<times> push_token \<times> 'a pg_scheme" where
  "token_Store t w =
     (let t1 = (if pt_id t = uuid_Nil then t\<lparr>pt_id := fresh_uuid w\<rparr> else t);
          t2 = t1\<lparr>pt_updated_at := now w\<rparr>;
          t3 = (if pt_created_at t2 = 0 then t2\<lparr>pt_created_at := now w\<rparr> else t2);
          (r, w') = pg_exec ''PushTokenRepo - Store - r.Pool.Exec''
            (\<lambda>w'. case upsert_token (token_row t3) (push_tokens w') of
                    Inl e \<Rightarrow> Inl e
                  | Inr rs \<Rightarrow> Inr (w'\<lparr>push_tokens := rs\<rparr>)) w
      in (r, t3, w'))"

text \<open>Without an \<open>ORDER BY\<close> the rows come in the scan order.\<close>

definition token_GetByUserID ::
  "uuid \<Rightarrow> 'a pg_scheme \<Rightarrow> (goerr + push_token list) \<times> 'a pg_scheme" where
  "token_GetByUserID u w =
     query_list ''PushTokenRepo - GetByUserID''
       (scan_push_tokens w (tick w) (filter (\<lambda>t. pt_user_id t = u) (push_tokens w))) w"

definition token_Delete :: "string \<Rightarrow> 'a pg_scheme \<Rightarrow> goerr option \<times> 'a pg_scheme" where
  "token_Delete tok w =
     with_sql ''PushTokenRepo - Delete - r.Builder''
       (pg_exec ''PushTokenRepo - Delete - r.Pool.Exec''
         (\<lambda>w'. Inr (w'\<lparr>push_tokens := delete_where (\<lambda>t. pt_token t = tok) (push_tokens w')\<rparr>))) w"

definition token_DeleteByUserID :: "uuid \<Rightarrow> 'a pg_scheme \<Rightarrow> goerr option \<times> 'a pg_scheme" where
  "token_DeleteByUserID u w =
     with_sql ''PushTokenRepo - DeleteByUserID - r.Builder''
       (pg_exec ''PushTokenRepo - DeleteByUserID - r.Pool.Exec''
         (\<lambda>w'. Inr (w'\<lparr>push_tokens := delete_where (\<lambda>t. pt_user_id t = u) (push_tokens w')\<rparr>))) w"

definition pg_push_token_repo :: "'a pg_scheme push_token_repo" where
  "pg_push_token_repo = \<lparr>tr_Store = token_Store, tr_GetByUserID = token_GetByUserID,
     tr_Delete = token_Delete, tr_DeleteByUserID = token_DeleteByUserID\<rparr>"

section \<open>Lemmas\<close>

lemma same_device_refl [simp]: "same_device t t"
  by (simp add: same_device_def)

lemma same_device_overwrite [simp]: "same_device t (overwrite_token t r) = same_device t r"
  by (simp add: same_device_def overwrite_token_def)

lemma overwrite_sel [simp]:
  "pt_id (overwrite_token t r) = pt_id r" "pt_user_id (overwrite_token t r) = pt_user_id r"
  "pt_device_id (overwrite_token t r) = pt_device_id r" "pt_token (overwrite_token t r) = pt_token t"
  "pt_active (overwrite_token t r) = pt_active t"
  by (simp_all add: overwrite_token_def)

lemma token_row_sel [simp]:
  "pt_id (token_row t) = pt_id t" "pt_user_id (token_row t) = pt_user_id t"
  "pt_device_id (token_row t) = pt_device_id t" "pt_token (token_row t) = pt_token t"
  "pt_platform (token_row t) = pt_platform t" "pt_active (token_row t) = pt_active t"
  "same_device (token_row t) = same_device t"
  by (simp_all add: token_row_def same_device_def fun_eq_iff)

text \<open>The two unique keys of the table.\<close>

definition device_key :: "push_token \<Rightarrow> uuid \<times> string" where
  "device_key t = (pt_user_id t, pt_device_id t)"

definition tokens_okay :: "'a pg_scheme \<Rightarrow> bool" where
  "tokens_okay w \<longleftrightarrow> distinct (map pt_id (push_tokens w)) \<and>
     distinct (map device_key (push_tokens w)) \<and> scan_ok (scan_push_tokens w)"

lemma same_device_key: "same_device t r \<longleftrightarrow> device_key r = device_key t"
  by (auto simp: same_device_def device_key_def)

lemma same_device_fun: "same_device t = (\<lambda>r. device_key r = device_key t)"
  by (simp add: fun_eq_iff same_device_key)

lemma upsert_keeps_keys:
  assumes "upsert_token t rs = Inr rs'" and "distinct (map pt_id rs)" and "distinct (map device_key rs)"
  shows "distinct (map pt_id rs') \<and> distinct (map device_key rs')"
proof (cases "list_ex (same_device t) rs")
  case True
  with assms show ?thesis
    by (auto simp: upsert_token_def map_update_where device_key_def)
next
  case False
  with assms show ?thesis
    by (fastforce simp: upsert_token_def insert_rows_def list_ex_iff same_device_key split: if_splits)
qed

text \<open>After an upsert exactly one row is the device's, and it carries the new token.\<close>

lemma upsert_device_row:
  assumes "upsert_token t rs = Inr rs'" and "distinct (map device_key rs)"
  shows "\<exists>r. filter (same_device t) rs' = [r] \<and> pt_token r = pt_token t \<and>
    pt_platform r = pt_platform t \<and> pt_active r = pt_active t"
proof (cases "list_ex (same_device t) rs")
  case True
  then obtain r where r: "r \<in> set rs" "device_key r = device_key t"
    by (auto simp: list_ex_iff same_device_key)
  have "filter (same_device t) rs = [r]"
    using filter_by_key [OF assms(2) r(1)] r(2) by (simp add: same_device_fun)
  moreover have "filter (same_device t) (update_where (same_device t) (overwrite_token t) xs) =
      map (overwrite_token t) (filter (same_device t) xs)" for xs
    by (induction xs) (auto simp: update_where_def)
  ultimately show ?thesis
    using assms(1) True by (auto simp: upsert_token_def overwrite_token_def)
next
  case False
  with assms(1) have "rs' = rs @ [t]" "filter (same_device t) rs = []"
    by (auto simp: upsert_token_def insert_rows_def list_ex_iff filter_empty_conv split: if_splits)
  then show ?thesis by simp
qed

lemma upsert_other_devices:
  assumes "upsert_token t rs = Inr rs'"
  shows "filter (\<lambda>r. \<not> same_device t r) rs' = filter (\<lambda>r. \<not> same_device t r) rs"
  using assms
  by (auto simp: upsert_token_def insert_rows_def filter_update_where_other split: if_splits)

lemma token_Store_rows:
  assumes "token_Store t w = (r, t', w')"
  shows "upsert_token (token_row t') (push_tokens w) = Inr (push_tokens w') \<or>
    r \<noteq> None \<and> push_tokens w' = push_tokens w"
  using assms
  by (auto simp: token_Store_def pg_exec_def Let_def
      split: exec_answer.splits sum.splits prod.splits if_splits)

lemma token_Store_fields:
  assumes "token_Store t w = (r, t', w')"
  shows "pt_user_id t' = pt_user_id t" "pt_device_id t' = pt_device_id t" "pt_token t' = pt_token t"
    "pt_active t' = pt_active t" "pt_platform t' = pt_platform t" "same_device t' = same_device t"
  using assms by (auto simp: token_Store_def Let_def same_device_def split: prod.splits if_splits)

lemma token_Delete_rows:
  assumes "token_Delete tok w = (r, w')"
  shows "push_tokens w' = delete_where (\<lambda>t. pt_token t = tok) (push_tokens w) \<or>
    r \<noteq> None \<and> push_tokens w' = push_tokens w"
  using assms
  by (auto simp: token_Delete_def with_sql_def pg_exec_def Let_def split: option.splits exec_answer.splits)

lemma token_DeleteByUserID_rows:
  assumes "token_DeleteByUserID u w = (r, w')"
  shows "push_tokens w' = delete_where (\<lambda>t. pt_user_id t = u) (push_tokens w) \<or>
    r \<noteq> None \<and> push_tokens w' = push_tokens w"
  using assms
  by (auto simp: token_DeleteByUserID_def with_sql_def pg_exec_def Let_def
      split: option.splits exec_answer.splits)

lemma push_token_repo_view:
  assumes "\<And>w. view (advance w) = view w" and "\<And>w rs. view (w\<lparr>push_tokens := rs\<rparr>) = view w"
  shows "view (snd (snd (token_Store t w))) = view w"
    and "view (snd (token_GetByUserID u w)) = view w"
    and "view (snd (token_Delete tok w)) = view w"
    and "view (snd (token_DeleteByUserID u w)) = view w"
  using assms
  by (simp_all add: token_Store_def token_GetByUserID_def token_Delete_def token_DeleteByUserID_def
      with_sql_def pg_exec_def Let_def
      split: option.splits exec_answer.splits sum.splits prod.splits)

lemmas push_token_repo_healthy = push_token_repo_view [where view = healthy, simplified]

lemma tokens_okay_rows:
  assumes "tokens_okay w" and "scan_push_tokens w' = scan_push_tokens w"
    and "distinct (map pt_id (push_tokens w'))" and "distinct (map device_key (push_tokens w'))"
  shows "tokens_okay w'"
  using assms by (simp add: tokens_okay_def)

lemmas push_token_repo_scan =
  push_token_repo_view [where view = scan_push_tokens, unfolded advance_def, simplified, folded advance_def]

text \<open>Every operation keeps both keys unique, whatever the database answers.\<close>

lemma token_ops_okay:
  assumes "tokens_okay w"
  shows "tokens_okay (snd (snd (token_Store t w)))"
    and "tokens_okay (snd (token_Delete tok w))"
    and "tokens_okay (snd (token_DeleteByUserID u w))"
proof -
  obtain r t' w' where st: "token_Store t w = (r, t', w')" by (metis prod_cases3)
  from token_Store_rows [OF st] upsert_keeps_keys [of "token_row t'" "push_tokens w"] assms
  show "tokens_okay (snd (snd (token_Store t w)))"
    using push_token_repo_scan(1) [of t w]
    by (intro tokens_okay_rows [OF assms]) (auto simp: st tokens_okay_def)
  obtain r2 w2 where del: "token_Delete tok w = (r2, w2)" by fastforce
  from token_Delete_rows [OF del] assms push_token_repo_scan(3) [of tok w]
  show "tokens_okay (snd (token_Delete tok w))"
    by (intro tokens_okay_rows [OF assms]) (auto simp: del tokens_okay_def distinct_delete_where)
  obtain r3 w3 where del3: "token_DeleteByUserID u w = (r3, w3)" by fastforce
  from token_DeleteByUserID_rows [OF del3] assms push_token_repo_scan(4) [of u w]
  show "tokens_okay (snd (token_DeleteByUserID u w))"
    by (intro tokens_okay_rows [OF assms]) (auto simp: del3 tokens_okay_def distinct_delete_where)
qed

section \<open>Properties\<close>

definition sample_token :: "uuid \<Rightarrow> string \<Rightarrow> string \<Rightarrow> bool \<Rightarrow> push_token" where
  "sample_token i tok device active = \<lparr>pt_id = i, pt_user_id = 7, pt_token = tok, pt_platform = ''ios'',
     pt_device_id = device, pt_active = active, pt_created_at = 5, pt_updated_at = 5\<rparr>"

definition sample_tokens :: pg where
  "sample_tokens = empty_db\<lparr>push_tokens :=
     [sample_token 1 ''old'' ''phone'' True, sample_token 2 ''tab'' ''tablet'' False]\<rparr>"

lemma sample_token_sel [simp]:
  "pt_id (sample_token i tok d a) = i" "pt_user_id (sample_token i tok d a) = 7"
  "pt_token (sample_token i tok d a) = tok" "pt_device_id (sample_token i tok d a) = d"
  "pt_active (sample_token i tok d a) = a" "pt_platform (sample_token i tok d a) = ''ios''"
  by (simp_all add: sample_token_def)

lemma sample_tokens_facts [simp]:
  "healthy sample_tokens" "tokens_okay sample_tokens"
  "push_tokens sample_tokens = [sample_token 1 ''old'' ''phone'' True, sample_token 2 ''tab'' ''tablet'' False]"
  "exec_answer sample_tokens = (\<lambda>_. Executed)"
  by (simp_all add: sample_tokens_def healthy_def tokens_okay_def device_key_def empty_db_def)

text \<open>
  C34. Registering a device keeps one token per user and device: after a successful \<open>Store\<close> exactly one
  row is that device's and it has the new token, platform and activity; the rows of every other
  device are untouched; identifiers and devices stay unique.
\<close>

theorem token_Store_one_per_device:
  assumes "tokens_okay w" and "token_Store t w = (None, t', w')"
  shows "(\<exists>r. filter (\<lambda>r. pt_user_id r = pt_user_id t \<and> pt_device_id r = pt_device_id t) (push_tokens w') = [r] \<and>
      pt_token r = pt_token t \<and> pt_platform r = pt_platform t \<and> pt_active r = pt_active t) \<and>
    filter (\<lambda>r. \<not> (pt_user_id r = pt_user_id t \<and> pt_device_id r = pt_device_id t)) (push_tokens w') =
      filter (\<lambda>r. \<not> (pt_user_id r = pt_user_id t \<and> pt_device_id r = pt_device_id t)) (push_tokens w) \<and>
    tokens_okay w'"
proof -
  have dev: "same_device t' = (\<lambda>r. pt_user_id r = pt_user_id t \<and> pt_device_id r = pt_device_id t)"
    using token_Store_fields(6) [OF assms(2)] by (simp add: fun_eq_iff same_device_def)
  have up: "upsert_token (token_row t') (push_tokens w) = Inr (push_tokens w')"
    using token_Store_rows [OF assms(2)] by simp
  have keys: "distinct (map device_key (push_tokens w))" using assms(1) by (simp add: tokens_okay_def)
  from token_ops_okay(1) [OF assms(1), of t] have "tokens_okay w'" by (simp add: assms(2))
  with upsert_device_row [OF up keys] upsert_other_devices [OF up] token_Store_fields(3-5) [OF assms(2)]
  show ?thesis unfolding token_row_sel dev by simp
qed

lemma sample_token_Store:
  "token_Store (sample_token 9 ''new'' ''phone'' True) sample_tokens =
     (None, (sample_token 9 ''new'' ''phone'' True)\<lparr>pt_updated_at := 1000500\<rparr>,
      advance sample_tokens\<lparr>push_tokens :=
        [(sample_token 1 ''new'' ''phone'' True)\<lparr>pt_updated_at := 1000000\<rparr>, sample_token 2 ''tab'' ''tablet'' False]\<rparr>)"
  by (simp add: token_Store_def Let_def pg_exec_healthy upsert_token_def same_device_def update_where_def
      overwrite_token_def now_def sample_tokens_def empty_db_def sample_token_def healthy_def token_row_def
      column_time_def)

lemma token_Store_one_per_device_witness:
  "tokens_okay (snd (snd (token_Store (sample_token 9 ''new'' ''phone'' True) sample_tokens)))"
  using token_Store_one_per_device [OF _ sample_token_Store]
  by (simp add: sample_token_Store)

text \<open>
  When a known device registers again, the struct handed to \<open>Store\<close> comes back with an identifier
  that is in no row: the upsert keeps the identifier of the existing row.
\<close>

theorem token_Store_reports_unknown_id:
  assumes "token_Store t w = (None, t', w')" and "list_ex (same_device t) (push_tokens w)"
    and "pt_id t' \<notin> pt_id ` set (push_tokens w)"
  shows "pt_id t' \<notin> pt_id ` set (push_tokens w')"
proof -
  have "push_tokens w' = update_where (same_device t) (overwrite_token (token_row t')) (push_tokens w)"
    using token_Store_rows [OF assms(1)] token_Store_fields(6) [OF assms(1)] assms(2)
    by (simp add: upsert_token_def)
  with assms(3) show ?thesis by (auto simp: set_update_where)
qed

lemma token_Store_reports_unknown_id_witness:
  "9 \<notin> pt_id ` set (push_tokens (snd (snd (token_Store (sample_token 9 ''new'' ''phone'' True) sample_tokens))))"
  using token_Store_reports_unknown_id [OF sample_token_Store]
  by (simp add: sample_token_Store same_device_def)

text \<open>
  Unregistering is exact: a successful \<open>Delete\<close> removes the rows with that token and no other, a
  successful \<open>DeleteByUserID\<close> the rows of that user and no other, and then an answering database
  lists no token for the user.
\<close>

theorem token_deletes_exactly:
  assumes "token_Delete tok w = (None, w1)" and "token_DeleteByUserID u w = (None, w2)"
  shows "push_tokens w1 = filter (\<lambda>t. pt_token t \<noteq> tok) (push_tokens w) \<and>
    push_tokens w2 = filter (\<lambda>t. pt_user_id t \<noteq> u) (push_tokens w) \<and>
    (healthy w \<and> scan_ok (scan_push_tokens w) \<longrightarrow> fst (token_GetByUserID u w2) = Inr [])"
proof -
  have rows: "push_tokens w2 = filter (\<lambda>t. pt_user_id t \<noteq> u) (push_tokens w)"
    using token_DeleteByUserID_rows [OF assms(2)] by (simp add: delete_where_def)
  have "scan_push_tokens w2 = scan_push_tokens w"
    using push_token_repo_scan(4) [of u w] assms(2) by simp
  moreover have "healthy w2" if "healthy w"
    using push_token_repo_healthy(4) [of u w] assms(2) that by simp
  moreover have "scan k [] = []" if "scan_ok scan" for k and scan :: "push_token scan"
    using that by (metis mset_zero_iff mset.simps(1) scan_ok_def)
  ultimately show ?thesis
    using token_Delete_rows [OF assms(1)] rows
    by (auto simp: delete_where_def token_GetByUserID_def query_list_healthy)
qed

lemma token_deletes_exactly_witness:
  "push_tokens (snd (token_Delete ''old'' sample_tokens)) = [sample_token 2 ''tab'' ''tablet'' False]"
proof -
  have "token_Delete ''old'' sample_tokens = (None, snd (token_Delete ''old'' sample_tokens))"
    "token_DeleteByUserID 7 sample_tokens = (None, snd (token_DeleteByUserID 7 sample_tokens))"
    by (simp_all add: token_Delete_def token_DeleteByUserID_def pg_exec_healthy)
  from token_deletes_exactly [OF this] show ?thesis by simp
qed

end
