(* ===== verification/PreferencesRepo.thy ===== *)
theory PreferencesRepo
  imports Database RepoContracts
begin

text \<open>
  \<open>internal/repo/persistent/notification_preferences_postgres.go\<close> and
  \<open>delivery_log_postgres.go\<close>: the preferences of a user, one row each, and the audit trail of
  deliveries, which only grows.
\<close>

section \<open>Preferences\<close>

definition errPreferencesNotFound :: goerr where
  "errPreferencesNotFound = ErrNew ''notification preferences not found''"

text \<open>The eight columns that are selected; the two \<open>TIME\<close> columns come back in the server's form.\<close>

definition preference_columns :: "(string \<Rightarrow> string) \<Rightarrow> preference_row \<Rightarrow> user_preferences" where
  "preference_columns rt p = \<lparr>up_user_id = up_user_id p, up_email_enabled = up_email_enabled p,
     up_sms_enabled = up_sms_enabled p, up_push_enabled = up_push_enabled p,
     up_in_app_enabled = up_in_app_enabled p, up_quiet_start = map_option rt (up_quiet_start p),
     up_quiet_end = map_option rt (up_quiet_end p), up_updated_at = up_updated_at p\<rparr>"

text \<open>The pointer is nil exactly when the error is not.\<close>

definition preferences_Get ::
  "uuid \<Rightarrow> 'a pg_scheme \<Rightarrow> (user_preferences option \<times> goerr option) \<times> 'a pg_scheme" where
  "preferences_Get u w =
     (case build_answer w (tick w) of
        Some e \<Rightarrow> ((None, Some (wrap ''NotificationPreferencesRepo - Get - r.Builder'' e)), advance w)
      | None \<Rightarrow>
        (case pg_query_row (map (preference_columns (read_time w))
                (filter (\<lambda>p. up_user_id p = u) (preferences w))) w of
           (Inl e, w') \<Rightarrow>
             (if err_is e pgx_ErrNoRows then ((None, Some errPreferencesNotFound), w')
              else ((None, Some (wrap ''NotificationPreferencesRepo - Get - r.Pool.QueryRow'' e)), w'))
         | (Inr p, w') \<Rightarrow> ((Some p, None), w')))"

text \<open>\<open>ON CONFLICT (user_id) DO UPDATE SET\<close>: every column but \<open>created_at\<close>.\<close>

definition overwrite_preferences :: "user_preferences \<Rightarrow> preference_row \<Rightarrow> preference_row" where
  "overwrite_preferences p r = r\<lparr>up_email_enabled := up_email_enabled p,
     up_sms_enabled := up_sms_enabled p, up_push_enabled := up_push_enabled p,
     up_in_app_enabled := up_in_app_enabled p, up_quiet_start := up_quiet_start p,
     up_quiet_end := up_quiet_end p, up_updated_at := up_updated_at p\<rparr>"

definition upsert_preferences ::
  "user_preferences \<Rightarrow> time \<Rightarrow> preference_row list \<Rightarrow> preference_row list" where
  "upsert_preferences p t rs =
     (if list_ex (\<lambda>r. up_user_id r = up_user_id p) rs
      then update_where (\<lambda>r. up_user_id r = up_user_id p) (overwrite_preferences p) rs
      else rs @ [user_preferences.extend p \<lparr>up_created_at = t\<rparr>])"

text \<open>The instant of the last change as its column keeps it.\<close>

definition stamped_preferences :: "user_preferences \<Rightarrow> user_preferences" where
  "stamped_preferences p = p\<lparr>up_updated_at := column_time (up_updated_at p)\<rparr>"

definition preferences_Upsert ::
  "user_preferences \<Rightarrow> 'a pg_scheme \<Rightarrow> goerr option \<times> user_preferences \<times> 'a pg_scheme" where
  "preferences_Upsert p w =
     (let t = now w; p1 = p\<lparr>up_updated_at := t\<rparr>;
          (r, w') = pg_exec ''NotificationPreferencesRepo - Upsert - r.Pool.Exec''
            (\<lambda>w'. Inr (w'\<lparr>preferences :=
               upsert_preferences (stamped_preferences p1) (column_time t) (preferences w')\<rparr>)) w
      in (r, p1, w'))"

definition pg_preferences_repo :: "'a pg_scheme preferences_repo" where
  "pg_preferences_repo = \<lparr>pr_Get = preferences_Get, pr_Upsert = preferences_Upsert\<rparr>"

section \<open>Delivery logs\<close>

definition delivery_log_row :: "delivery_log \<Rightarrow> delivery_log" where
  "delivery_log_row l = l\<lparr>dl_created_at := column_time (dl_created_at l),
     dl_delivered_at := map_option column_time (dl_delivered_at l)\<rparr>"

definition delivery_log_Store ::
  "delivery_log \<Rightarrow> 'a pg_scheme \<Rightarrow> goerr option \<times> delivery_log \<times> 'a pg_scheme" where
  "delivery_log_Store l w =
     (let l1 = (if dl_id l = uuid_Nil then l\<lparr>dl_id := fresh_uuid w\<rparr> else l);
          l2 = (if dl_created_at l1 = 0 then l1\<lparr>dl_created_at := now w\<rparr> else l1);
          (r, w') = with_sql ''DeliveryLogRepo - Store - r.Builder''
            (pg_exec ''DeliveryLogRepo - Store - r.Pool.Exec''
              (\<lambda>w'. case insert_rows dl_id [delivery_log_row l2] (delivery_logs w') of
                      Inl e \<Rightarrow> Inl e
                    | Inr rs \<Rightarrow> Inr (w'\<lparr>delivery_logs := rs\<rparr>))) w
      in (r, l2, w'))"

definition delivery_log_GetByNotificationID ::
  "uuid \<Rightarrow> 'a pg_scheme \<Rightarrow> (goerr + delivery_log list) \<times> 'a pg_scheme" where
  "delivery_log_GetByNotificationID i w =
     query_list ''DeliveryLogRepo - GetByNotificationID''
       (order_by (scan_delivery_logs w) (tick w) (\<lambda>l. - dl_created_at l)
          (filter (\<lambda>l. dl_notification_id l = i) (delivery_logs w))) w"

definition pg_delivery_log_repo :: "'a pg_scheme delivery_log_repo" where
  "pg_delivery_log_repo = \<lparr>lr_Store = delivery_log_Store,
     lr_GetByNotificationID = delivery_log_GetByNotificationID\<rparr>"

section \<open>Lemmas\<close>

definition preferences_okay :: "'a pg_scheme \<Rightarrow> bool" where
  "preferences_okay w \<longleftrightarrow> distinct (map up_user_id (preferences w))"

lemma overwrite_preferences_sel [simp]:
  "up_user_id (overwrite_preferences p r) = up_user_id r"
  "up_created_at (overwrite_preferences p r) = up_created_at r"
  by (simp_all add: overwrite_preferences_def)

lemma stamped_preferences_user [simp]: "up_user_id (stamped_preferences p) = up_user_id p"
  by (simp add: stamped_preferences_def)

lemma extend_preferences_sel [simp]:
  "up_user_id (user_preferences.extend p m) = up_user_id p"
  by (simp add: user_preferences.extend_def)

lemma columns_overwrite:
  "up_user_id r = up_user_id p \<Longrightarrow>
     preference_columns rt (overwrite_preferences p r) =
       p\<lparr>up_quiet_start := map_option rt (up_quiet_start p), up_quiet_end := map_option rt (up_quiet_end p)\<rparr>"
  by (simp add: preference_columns_def overwrite_preferences_def)

lemma columns_extend:
  "preference_columns rt (user_preferences.extend p m) =
     p\<lparr>up_quiet_start := map_option rt (up_quiet_start p), up_quiet_end := map_option rt (up_quiet_end p)\<rparr>"
  by (simp add: preference_columns_def user_preferences.extend_def)

text \<open>After an upsert one row is the user's and reads back as what was written.\<close>

lemma upsert_preferences_row:
  assumes "distinct (map up_user_id rs)"
  shows "map (preference_columns rt) (filter (\<lambda>r. up_user_id r = up_user_id p) (upsert_preferences p t rs)) =
    [p\<lparr>up_quiet_start := map_option rt (up_quiet_start p), up_quiet_end := map_option rt (up_quiet_end p)\<rparr>]"
proof (cases "list_ex (\<lambda>r. up_user_id r = up_user_id p) rs")
  case True
  then obtain r where r: "r \<in> set rs" "up_user_id r = up_user_id p" by (auto simp: list_ex_iff)
  have one: "filter (\<lambda>r. up_user_id r = up_user_id p) rs = [r]"
    using filter_by_key [OF assms r(1)] r(2) by simp
  have "filter (\<lambda>r. up_user_id r = up_user_id p)
      (update_where (\<lambda>r. up_user_id r = up_user_id p) (overwrite_preferences p) xs) =
      map (overwrite_preferences p) (filter (\<lambda>r. up_user_id r = up_user_id p) xs)" for xs
    by (induction xs) (auto simp: update_where_def)
  with True one r(2) show ?thesis by (simp add: upsert_preferences_def columns_overwrite)
next
  case False
  then show ?thesis
    by (simp add: upsert_preferences_def columns_extend list_ex_iff filter_empty_conv)
qed

lemma upsert_preferences_others:
  "filter (\<lambda>r. up_user_id r \<noteq> up_user_id p) (upsert_preferences p t rs) =
     filter (\<lambda>r. up_user_id r \<noteq> up_user_id p) rs"
  by (auto simp: upsert_preferences_def filter_update_where_other)

lemma upsert_preferences_distinct:
  "distinct (map up_user_id rs) \<Longrightarrow> distinct (map up_user_id (upsert_preferences p t rs))"
  by (auto simp: upsert_preferences_def map_update_where list_ex_iff)

lemma preferences_Upsert_rows:
  assumes "preferences_Upsert p w = (r, p', w')"
  shows "p' = p\<lparr>up_updated_at := now w\<rparr> \<and>
    (preferences w' = upsert_preferences (stamped_preferences p') (column_time (now w)) (preferences w) \<or>
     r \<noteq> None \<and> preferences w' = preferences w)"
  using assms
  by (auto simp: preferences_Upsert_def pg_exec_def Let_def split: exec_answer.splits)

lemma preferences_Get_stored:
  assumes "preferences_Get u w = ((p, e), w')"
  shows "(p = None \<longleftrightarrow> e \<noteq> None) \<and>
    (\<forall>q. p = Some q \<longrightarrow> (\<exists>r \<in> set (preferences w). up_user_id r = u \<and> q = preference_columns (read_time w) r))"
proof -
  have "\<exists>r \<in> set (preferences w). up_user_id r = u \<and> q = preference_columns (read_time w) r"
    if "map (preference_columns (read_time w)) (filter (\<lambda>p. up_user_id p = u) (preferences w)) = q # qs"
    for q qs
  proof -
    from that have "q \<in> set (map (preference_columns (read_time w)) (filter (\<lambda>p. up_user_id p = u) (preferences w)))"
      by simp
    then show ?thesis by auto
  qed
  with assms show ?thesis
    by (auto simp: preferences_Get_def pg_query_row_def split: option.splits query_answer.splits
        sum.splits list.splits if_splits)
qed

lemma preferences_repo_view:
  assumes "\<And>w. view (advance w) = view w" and "\<And>w rs. view (w\<lparr>preferences := rs\<rparr>) = view w"
  shows "view (snd (preferences_Get u w)) = view w"
    and "view (snd (snd (preferences_Upsert p w))) = view w"
  using assms
  by (simp_all add: preferences_Get_def preferences_Upsert_def pg_query_row_def pg_exec_def Let_def
      split: option.splits exec_answer.splits query_answer.splits sum.splits list.splits prod.splits)

lemma preferences_Get_state: "snd (preferences_Get u w) = advance w"
  by (simp add: preferences_Get_def pg_query_row_def
      split: option.splits query_answer.splits sum.splits list.splits prod.splits)

lemma delivery_log_Store_rows:
  assumes "delivery_log_Store l w = (r, l', w')"
  shows "delivery_logs w' = delivery_logs w @ [delivery_log_row l'] \<or>
    r \<noteq> None \<and> delivery_logs w' = delivery_logs w"
  using assms
  by (auto simp: delivery_log_Store_def with_sql_def pg_exec_def insert_rows_def Let_def
      split: option.splits exec_answer.splits if_splits prod.splits)

lemma delivery_log_repo_view:
  assumes "\<And>w. view (advance w) = view w" and "\<And>w rs. view (w\<lparr>delivery_logs := rs\<rparr>) = view w"
  shows "view (snd (snd (delivery_log_Store l w))) = view w"
    and "view (snd (delivery_log_GetByNotificationID i w)) = view w"
  using assms
  by (simp_all add: delivery_log_Store_def delivery_log_GetByNotificationID_def with_sql_def pg_exec_def
      Let_def split: option.splits exec_answer.splits sum.splits prod.splits)

section \<open>Properties\<close>

definition sample_preferences :: "uuid \<Rightarrow> bool \<Rightarrow> user_preferences" where
  "sample_preferences u on = \<lparr>up_user_id = u, up_email_enabled = on, up_sms_enabled = on,
     up_push_enabled = on, up_in_app_enabled = on, up_quiet_start = Some ''22:00'', up_quiet_end = None,
     up_updated_at = 0\<rparr>"

text \<open>
  Preferences read back as they were written, with the two quiet hours in the form of the \<open>TIME\<close>
  column and the instant of the change in microseconds; the rows of other users are untouched, and no user gets
  a second row.
\<close>

theorem preferences_roundtrip:
  assumes "healthy w" and "preferences_okay w" and "preferences_Upsert p w = (r, p', w')"
  shows "r = None \<and> p' = p\<lparr>up_updated_at := now w\<rparr> \<and>
    fst (preferences_Get (up_user_id p) w') =
      (Some (p'\<lparr>up_quiet_start := map_option (read_time w) (up_quiet_start p),
                 up_quiet_end := map_option (read_time w) (up_quiet_end p),
                 up_updated_at := column_time (now w)\<rparr>), None) \<and>
    filter (\<lambda>r. up_user_id r \<noteq> up_user_id p) (preferences w') =
      filter (\<lambda>r. up_user_id r \<noteq> up_user_id p) (preferences w) \<and> preferences_okay w'"
proof -
  have run: "r = None" "p' = p\<lparr>up_updated_at := now w\<rparr>"
    "preferences w' = upsert_preferences (stamped_preferences p') (column_time (now w)) (preferences w)"
    "w' = advance w\<lparr>preferences := preferences w'\<rparr>"
    using assms(1,3) by (auto simp: preferences_Upsert_def pg_exec_healthy Let_def)
  have env: "healthy w'" "read_time w' = read_time w"
    using assms(1) by (subst run(4); simp add: advance_def healthy_def)+
  have key: "up_user_id (stamped_preferences p') = up_user_id p"
    by (simp add: run(2) stamped_preferences_def)
  have dist: "distinct (map up_user_id (preferences w))" using assms(2) by (simp add: preferences_okay_def)
  have "map (preference_columns (read_time w)) (filter (\<lambda>r. up_user_id r = up_user_id p) (preferences w')) =
      [p'\<lparr>up_quiet_start := map_option (read_time w) (up_quiet_start p'),
          up_quiet_end := map_option (read_time w) (up_quiet_end p'), up_updated_at := column_time (now w)\<rparr>]"
    using upsert_preferences_row [OF dist, of "read_time w" "stamped_preferences p'" "column_time (now w)"]
      run(3) key
    by (simp add: stamped_preferences_def run(2))
  then have "fst (preferences_Get (up_user_id p) w') =
      (Some (p'\<lparr>up_quiet_start := map_option (read_time w) (up_quiet_start p),
          up_quiet_end := map_option (read_time w) (up_quiet_end p), up_updated_at := column_time (now w)\<rparr>), None)"
    by (simp add: preferences_Get_def env healthy_answers pg_query_row_healthy run(2))
  with run(1,2) upsert_preferences_others [of "stamped_preferences p'" "column_time (now w)" "preferences w"]
    upsert_preferences_distinct [OF dist, of "stamped_preferences p'" "column_time (now w)"]
  show ?thesis by (simp add: run(3) key preferences_okay_def)
qed

lemma preferences_roundtrip_witness:
  "\<exists>p' w'. preferences_Upsert (sample_preferences 7 False) empty_db = (None, p', w') \<and>
     fst (preferences_Get 7 w') =
       (Some ((sample_preferences 7 False)\<lparr>up_updated_at := 1000000, up_quiet_start := Some ''22:00:00''\<rparr>), None)"
proof -
  obtain r p' w' where up: "preferences_Upsert (sample_preferences 7 False) empty_db = (r, p', w')"
    by (metis prod_cases3)
  from preferences_roundtrip [OF _ _ up] up show ?thesis
    by (auto simp: preferences_okay_def sample_preferences_def column_time_def)
qed

end
