(* ===== verification/Notify.thy ===== *)
theory Notify
  imports Database
begin

text \<open>
  \<open>pkg/notify\<close>: the SMTP sender and the FCM sender. The libraries \<open>net/smtp\<close> and \<open>net/http\<close> are
  modelled by what the code uses of them: the commands of one SMTP session and one HTTP request. How
  the servers answer is a field of the state, as for the database.
\<close>

section \<open>The network\<close>

text \<open>The answer to an FCM request: the steps that may fail before, or a status and a decoded body.\<close>

record fcm_result =
  fr_message_id :: string
  fr_registration_id :: string
  fr_error :: string

record fcm_response =
  fs_multicast_id :: int64
  fs_success :: int
  fs_failure :: int
  fs_results :: "fcm_result list"

datatype http_reply =
    MarshalFailed goerr
  | RequestInvalid goerr
  | SendFailed goerr
  | Reply int "goerr + fcm_response"

record fcm_notification =
  fn_title :: string
  fn_body :: string
  fn_image_url :: string
  fn_sound :: string
  fn_badge :: string

record fcm_message =
  fm_registration_ids :: "string list"
  fm_to :: string
  fm_notification :: "fcm_notification option"
  fm_data :: data_map
  fm_priority :: string
  fm_content_available :: bool

text \<open>
  One SMTP session at a time: what the server has of the current mail, the mails it accepted, and
  whether the connection is open. \<open>requests\<close> are the HTTP requests that were sent, with the value of
  the \<open>Authorization\<close> header.
\<close>

record net = pg +
  smtp_answer :: "nat \<Rightarrow> exec_answer"
  smtp_open :: bool
  mail_from :: string
  mail_to :: "string list"
  mail_data :: bytes
  mails :: "(string \<times> string list \<times> bytes) list"
  http_answer :: "nat \<Rightarrow> http_reply"
  requests :: "(string \<times> fcm_message) list"

text \<open>A command of the session: carried out, refused, or carried out with the reply lost.\<close>

definition smtp_command ::
  "string \<Rightarrow> ('a net_scheme \<Rightarrow> 'a net_scheme) \<Rightarrow> 'a net_scheme \<Rightarrow> goerr option \<times> 'a net_scheme" where
  "smtp_command site effect w =
     (case smtp_answer w (tick w) of
        Executed \<Rightarrow> (None, effect (advance w))
      | Refused e \<Rightarrow> (Some (if site = '''' then e else wrap site e), advance w)
      | LostReply e \<Rightarrow> (Some (if site = '''' then e else wrap site e), effect (advance w)))"

text \<open>\<open>Mail\<close> and \<open>Rcpt\<close> refuse a line break in their argument (\<open>validateLine\<close> of \<open>net/smtp\<close>).\<close>

definition line_break :: goerr where
  "line_break = ErrNew ''smtp: A line must not contain CR or LF''"

definition has_line_break :: "string \<Rightarrow> bool" where
  "has_line_break s \<longleftrightarrow> CHR 0x0D \<in> set s \<or> CHR 0x0A \<in> set s"

section \<open>SMTP\<close>

record smtp_config =
  sc_host :: string
  sc_port :: int
  sc_username :: string
  sc_password :: string
  sc_from :: string
  sc_use_tls :: bool

text \<open>\<open>type SMTPSender struct\<close>: \<open>NewSMTPSender\<close> copies the configuration, so later changes of it have no effect.\<close>

record smtp_sender =
  ss_config :: smtp_config

definition NewSMTPSender :: "smtp_config \<Rightarrow> smtp_sender" where
  [simp]: "NewSMTPSender config = \<lparr>ss_config = config\<rparr>"

definition errTLSRequired :: goerr where
  "errTLSRequired = ErrNew ''TLS is required for secure email delivery''"

fun strings_Join :: "string list \<Rightarrow> string \<Rightarrow> string" where
  "strings_Join [] sep = ''''"
| "strings_Join [s] sep = s"
| "strings_Join (s # ss) sep = s @ sep @ strings_Join ss sep"

definition crlf :: string where
  "crlf = [CHR 0x0D, CHR 0x0A]"

definition buildMessage :: "smtp_config \<Rightarrow> email_message \<Rightarrow> bytes" where
  "buildMessage c m =
     (let (content_type, body) =
        (if em_html_body m \<noteq> '''' then (''text/html; charset=UTF-8'', em_html_body m)
         else (''text/plain; charset=UTF-8'', em_body m))
      in ''From: '' @ sc_from c @ crlf @
         ''To: '' @ strings_Join (em_to m) '', '' @ crlf @
         ''Subject: '' @ em_subject m @ crlf @
         ''MIME-Version: 1.0'' @ crlf @
         ''Content-Type: '' @ content_type @ crlf @
         crlf @ body)"

text \<open>
  \<open>dialTLS\<close>: the TLS dial, then the greeting. When the greeting fails the connection is closed.
\<close>

definition dialTLS :: "'a net_scheme \<Rightarrow> goerr option \<times> 'a net_scheme" where
  "dialTLS w =
     (case smtp_command ''tls dial'' (\<lambda>w. w\<lparr>smtp_open := True\<rparr>) w of
        (Some e, w1) \<Rightarrow> (Some e, w1\<lparr>smtp_open := False\<rparr>)
      | (None, w1) \<Rightarrow>
          (case smtp_command ''smtp client'' (\<lambda>w. w) w1 of
             (Some e, w2) \<Rightarrow> (Some e, w2\<lparr>smtp_open := False\<rparr>)
           | (None, w2) \<Rightarrow> (None, w2)))"

text \<open>\<open>authenticate\<close>; the \<open>auth\<close> is nil when there is no user name.\<close>

definition authenticate :: "smtp_config \<Rightarrow> 'a net_scheme \<Rightarrow> goerr option \<times> 'a net_scheme" where
  "authenticate c w =
     (if sc_username c = '''' then (None, w) else smtp_command ''smtp auth'' (\<lambda>w. w) w)"

fun send_rcpts :: "string list \<Rightarrow> 'a net_scheme \<Rightarrow> goerr option \<times> 'a net_scheme" where
  "send_rcpts [] w = (None, w)"
| "send_rcpts (rcpt # rest) w =
     (if has_line_break rcpt then (Some (wrap ''smtp rcpt'' line_break), w)
      else (case smtp_command ''smtp rcpt'' (\<lambda>w. w\<lparr>mail_to := mail_to w @ [rcpt]\<rparr>) w of
              (Some e, w1) \<Rightarrow> (Some e, w1)
            | (None, w1) \<Rightarrow> send_rcpts rest w1))"

text \<open>
  The writer that \<open>client.Data\<close> returns (\<open>dotWriter\<close> of \<open>net/textproto\<close>): a line feed without a carriage
  return gets one, a dot at the beginning of a line is doubled, and \<open>Close\<close> ends the last line. The
  line with the one dot that it then sends ends the data and is not part of it.
\<close>

datatype wstate = WBegin | WBeginLine | WCR | WData

definition dot_byte :: "wstate \<Rightarrow> char \<Rightarrow> bytes \<times> wstate" where
  "dot_byte st c =
     (if st = WCR then ([c], if c = CHR 0x0A then WBeginLine else WData)
      else ((if st \<noteq> WData \<and> c = CHR ''.'' then ''.'' else if c = CHR 0x0A then [CHR 0x0D] else []) @ [c],
        if c = CHR 0x0D then WCR else if c = CHR 0x0A then WBeginLine else WData))"

fun dot_Write :: "wstate \<Rightarrow> bytes \<Rightarrow> bytes \<times> wstate" where
  "dot_Write st [] = ([], st)"
| "dot_Write st (c # cs) =
     (let (out, st1) = dot_byte st c; (rest, st2) = dot_Write st1 cs in (out @ rest, st2))"

definition dot_Close :: "wstate \<Rightarrow> bytes" where
  "dot_Close st = (case st of WBeginLine \<Rightarrow> [] | WCR \<Rightarrow> [CHR 0x0A] | _ \<Rightarrow> crlf)"

definition mail_text :: "bytes \<Rightarrow> bytes" where
  "mail_text msg = (let (out, st) = dot_Write WBegin msg in out @ dot_Close st)"

text \<open>
  \<open>sendMessage\<close>: the envelope, the recipients, the data and its end, at which the server takes the
  mail, and \<open>Quit\<close>, whose error is returned as it is.
\<close>

definition sendMessage ::
  "smtp_config \<Rightarrow> string list \<Rightarrow> bytes \<Rightarrow> 'a net_scheme \<Rightarrow> goerr option \<times> 'a net_scheme" where
  "sendMessage c rcpts msg w =
     (if has_line_break (sc_from c) then (Some (wrap ''smtp mail'' line_break), w)
      else case smtp_command ''smtp mail''
          (\<lambda>w. w\<lparr>mail_from := sc_from c, mail_to := [], mail_data := []\<rparr>) w of
        (Some e, w1) \<Rightarrow> (Some e, w1)
      | (None, w1) \<Rightarrow>
        (case send_rcpts rcpts w1 of
           (Some e, w2) \<Rightarrow> (Some e, w2)
         | (None, w2) \<Rightarrow>
           (case smtp_command ''smtp data'' (\<lambda>w. w) w2 of
              (Some e, w3) \<Rightarrow> (Some e, w3)
            | (None, w3) \<Rightarrow>
              (case smtp_command ''smtp write''
                  (\<lambda>w. w\<lparr>mail_data := mail_data w @ fst (dot_Write WBegin msg)\<rparr>) w3 of
                 (Some e, w4) \<Rightarrow> (Some e, w4)
               | (None, w4) \<Rightarrow>
                 (case smtp_command ''smtp close writer''
                     (\<lambda>w. w\<lparr>mails := mails w @ [(mail_from w, mail_to w,
                        mail_data w @ dot_Close (snd (dot_Write WBegin msg)))]\<rparr>) w4 of
                    (Some e, w5) \<Rightarrow> (Some e, w5)
                  | (None, w5) \<Rightarrow> smtp_command '''' (\<lambda>w. w\<lparr>smtp_open := False\<rparr>) w5)))))"

text \<open>The deferred \<open>client.Close()\<close> runs on every way out.\<close>

definition sendWithTLS ::
  "smtp_config \<Rightarrow> string list \<Rightarrow> bytes \<Rightarrow> 'a net_scheme \<Rightarrow> goerr option \<times> 'a net_scheme" where
  "sendWithTLS c rcpts msg w =
     (case dialTLS w of
        (Some e, w1) \<Rightarrow> (Some e, w1)
      | (None, w1) \<Rightarrow>
        (case authenticate c w1 of
           (Some e, w2) \<Rightarrow> (Some e, w2\<lparr>smtp_open := False\<rparr>)
         | (None, w2) \<Rightarrow> (let (r, w3) = sendMessage c rcpts msg w2 in (r, w3\<lparr>smtp_open := False\<rparr>))))"

definition smtp_Send :: "smtp_config \<Rightarrow> email_message \<Rightarrow> 'a net_scheme \<Rightarrow> goerr option \<times> 'a net_scheme" where
  "smtp_Send c m w =
     (if \<not> sc_use_tls c then (Some errTLSRequired, w)
      else sendWithTLS c (em_to m) (buildMessage c m) w)"

section \<open>FCM\<close>

definition errFCMBadStatus :: goerr where
  "errFCMBadStatus = ErrNew ''fcm returned non-200 status''"

definition fcmEndpoint :: string where
  "fcmEndpoint = ''https://fcm.googleapis.com/fcm/send''"

record fcm_config =
  fc_server_key :: string
  fc_timeout :: int

definition defaultFCMTimeout :: int where
  "defaultFCMTimeout = 10000000000"

text \<open>\<open>type FCMSender struct\<close>: of its HTTP client the timeout is kept, which is never zero, so never none.\<close>

record fcm_sender =
  fx_config :: fcm_config
  fx_client_timeout :: int

definition NewFCMSender :: "fcm_config \<Rightarrow> fcm_sender" where
  "NewFCMSender config = \<lparr>fx_config = config,
     fx_client_timeout = (if fc_timeout config = 0 then defaultFCMTimeout else fc_timeout config)\<rparr>"

lemma NewFCMSender_sel [simp]: "fx_config (NewFCMSender config) = config"
  by (simp add: NewFCMSender_def)

record failed_token =
  ft_token :: string
  ft_error :: string

record fcm_send_result =
  sr_success_count :: int
  sr_failure_count :: int
  sr_failed_tokens :: "failed_token list"

definition fcm_message_of :: "push_message \<Rightarrow> string list \<Rightarrow> fcm_message" where
  "fcm_message_of m tokens =
     \<lparr>fm_registration_ids = tokens, fm_to = '''',
      fm_notification = Some \<lparr>fn_title = pm_title m, fn_body = pm_body m,
        fn_image_url = pm_image_url m, fn_sound = pm_sound m, fn_badge = ''''\<rparr>,
      fm_data = pm_data m, fm_priority = ''high'', fm_content_available = False\<rparr>"

text \<open>The loop over the results; \<open>tokens[i]\<close> panics when there are more results than tokens.\<close>

fun collect_failed ::
  "string list \<Rightarrow> nat \<Rightarrow> fcm_result list \<Rightarrow> failed_token list \<Rightarrow> failed_token list outcome" where
  "collect_failed tokens i [] acc = Ret acc"
| "collect_failed tokens i (r # rs) acc =
     (if fr_error r \<noteq> '''' then
        (if i < length tokens
         then collect_failed tokens (Suc i) rs (acc @ [\<lparr>ft_token = tokens ! i, ft_error = fr_error r\<rparr>])
         else Panic ''index out of range'')
      else collect_failed tokens (Suc i) rs acc)"

text \<open>\<open>fmt.Errorf("%w: %d", ...)\<close>; \<open>itoa\<close> stands for the decimal of \<open>fmt\<close>.\<close>

definition SendWithResult ::
  "(int \<Rightarrow> string) \<Rightarrow> fcm_config \<Rightarrow> push_message \<Rightarrow> string list \<Rightarrow> 'a net_scheme \<Rightarrow>
   (goerr + fcm_send_result) outcome \<times> 'a net_scheme" where
  "SendWithResult itoa c m tokens w =
     (if tokens = [] then
        (Ret (Inr \<lparr>sr_success_count = 0, sr_failure_count = 0, sr_failed_tokens = []\<rparr>), w)
      else
        (let sent = (advance w)\<lparr>requests := requests w @ [(''key='' @ fc_server_key c, fcm_message_of m tokens)]\<rparr>
         in case http_answer w (tick w) of
              MarshalFailed e \<Rightarrow> (Ret (Inl (wrap ''marshal fcm message'' e)), advance w)
            | RequestInvalid e \<Rightarrow> (Ret (Inl (wrap ''create request'' e)), advance w)
            | SendFailed e \<Rightarrow> (Ret (Inl (wrap ''send request'' e)), sent)
            | Reply status body \<Rightarrow>
                (if status \<noteq> 200 then (Ret (Inl (ErrWrap '''' errFCMBadStatus ('': '' @ itoa status))), sent)
                 else case body of
                   Inl e \<Rightarrow> (Ret (Inl (wrap ''decode response'' e)), sent)
                 | Inr resp \<Rightarrow>
                     (if fs_failure resp > 0 then
                        (if max_slice w < fs_failure resp then (Panic ''makeslice: cap out of range'', sent)
                         else (outcome_bind (collect_failed tokens 0 (fs_results resp) [])
                           (\<lambda>ft. Ret (Inr \<lparr>sr_success_count = fs_success resp,
                              sr_failure_count = fs_failure resp, sr_failed_tokens = ft\<rparr>)), sent))
                      else (Ret (Inr \<lparr>sr_success_count = fs_success resp,
                              sr_failure_count = fs_failure resp, sr_failed_tokens = []\<rparr>), sent)))))"

definition fcm_Send ::
  "(int \<Rightarrow> string) \<Rightarrow> fcm_config \<Rightarrow> push_message \<Rightarrow> string list \<Rightarrow> 'a net_scheme \<Rightarrow>
   goerr option outcome \<times> 'a net_scheme" where
  "fcm_Send itoa c m tokens w =
     (case SendWithResult itoa c m tokens w of
        (Panic p, w') \<Rightarrow> (Panic p, w')
      | (Ret (Inl e), w') \<Rightarrow> (Ret (Some e), w')
      | (Ret (Inr r), w') \<Rightarrow> (Ret None, w'))"

section \<open>Lemmas on a session\<close>

lemma smtp_command_cases:
  assumes "smtp_command site f w = (r, w')"
  obtains (ok) "r = None" "w' = f (advance w)" | (none) e where "r = Some e" "w' = advance w"
  | (lost) e where "r = Some e" "w' = f (advance w)"
  using assms by (auto simp: smtp_command_def split: exec_answer.splits)

lemma net_advance [simp]:
  "smtp_open (advance w) = smtp_open w" "mails (advance w) = mails w" "mail_from (advance w) = mail_from w"
  "mail_to (advance w) = mail_to w" "mail_data (advance w) = mail_data w"
  "requests (advance w) = requests w" "smtp_answer (advance w) = smtp_answer w"
  "http_answer (advance w) = http_answer w"
  by (simp_all add: advance_def)

lemma dialTLS_sel:
  assumes "dialTLS w = (r, w')"
  shows "mails w' = mails w" and "r \<noteq> None \<Longrightarrow> \<not> smtp_open w'"
proof -
  obtain r1 w1 where one: "smtp_command ''tls dial'' (\<lambda>w. w\<lparr>smtp_open := True\<rparr>) w = (r1, w1)" by fastforce
  obtain r2 w2 where two: "smtp_command ''smtp client'' (\<lambda>w. w) w1 = (r2, w2)" by fastforce
  have "mails w1 = mails w" using one by (cases rule: smtp_command_cases) auto
  moreover have "mails w2 = mails w1" using two by (cases rule: smtp_command_cases) auto
  ultimately show "mails w' = mails w" and "r \<noteq> None \<Longrightarrow> \<not> smtp_open w'"
    using assms one two by (auto simp: dialTLS_def split: option.splits)
qed

lemma authenticate_sel: "authenticate c w = (r, w') \<Longrightarrow> mails w' = mails w"
  by (auto simp: authenticate_def elim: smtp_command_cases split: if_splits)

lemma send_rcpts_sel:
  assumes "send_rcpts rs w = (r, w')"
  shows "mails w' = mails w \<and> mail_from w' = mail_from w \<and> mail_data w' = mail_data w \<and>
    (r = None \<longrightarrow> mail_to w' = mail_to w @ rs)"
  using assms
proof (induction rs w rule: send_rcpts.induct)
  case (2 rcpt rest w)
  show ?case
  proof (cases "has_line_break rcpt")
    case False
    obtain r1 w1 where one:
      "smtp_command ''smtp rcpt'' (\<lambda>w. w\<lparr>mail_to := mail_to w @ [rcpt]\<rparr>) w = (r1, w1)" by fastforce
    then have w1: "mails w1 = mails w" "mail_from w1 = mail_from w" "mail_data w1 = mail_data w"
      "r1 = None \<Longrightarrow> mail_to w1 = mail_to w @ [rcpt]"
      by (cases rule: smtp_command_cases; simp)+
    show ?thesis
    proof (cases r1)
      case None
      with 2 False one have "send_rcpts rest w1 = (r, w')" by simp
      with "2.IH" [OF False one [symmetric] None] w1 None show ?thesis by simp
    next
      case (Some e)
      with 2 False one w1 show ?thesis by auto
    qed
  qed (use 2 in auto)
qed simp

text \<open>
  No data can end the mail early: in what is written, a dot at the beginning of a line is followed by
  a second one.
\<close>

fun dots_doubled :: "bool \<Rightarrow> bytes \<Rightarrow> bool" where
  "dots_doubled start [] = True"
| "dots_doubled start (c # cs) =
     ((start \<and> c = CHR ''.'' \<longrightarrow> cs \<noteq> [] \<and> hd cs = CHR ''.'') \<and> dots_doubled (c = CHR 0x0A) cs)"

lemma dots_doubled_Write: "dots_doubled (st = WBegin \<or> st = WBeginLine) (fst (dot_Write st msg) @ dot_Close (snd (dot_Write st msg)))"
proof (induction msg arbitrary: st)
  case Nil
  then show ?case by (cases st) (simp_all add: dot_Close_def crlf_def)
next
  case (Cons c cs)
  show ?case
    using Cons.IH [of WBeginLine] Cons.IH [of WCR] Cons.IH [of WData]
    by (cases st) (auto simp: dot_byte_def split: prod.splits if_splits)
qed

lemma mail_text_dots: "dots_doubled True (mail_text msg)"
  using dots_doubled_Write [of WBegin msg]
  by (cases "dot_Write WBegin msg") (simp add: mail_text_def)

text \<open>A message of complete lines, none of them beginning with a dot, goes out as it is.\<close>

lemma dot_Write_append:
  "dot_Write st (xs @ ys) = (fst (dot_Write st xs) @ fst (dot_Write (snd (dot_Write st xs)) ys),
     snd (dot_Write (snd (dot_Write st xs)) ys))"
  by (induction xs arbitrary: st) (auto split: prod.splits)

lemma dot_Write_line:
  assumes "CHR 0x0D \<notin> set l" and "CHR 0x0A \<notin> set l" and "l = [] \<or> hd l \<noteq> CHR ''.''"
    and "st = WBegin \<or> st = WBeginLine"
  shows "dot_Write st (l @ crlf) = (l @ crlf, WBeginLine)"
proof -
  have rest: "dot_Write WData (xs @ crlf) = (xs @ crlf, WBeginLine)"
    if "CHR 0x0D \<notin> set xs" "CHR 0x0A \<notin> set xs" for xs
    using that by (induction xs) (auto simp: crlf_def dot_byte_def)
  show ?thesis
    using assms rest by (cases l) (auto simp: crlf_def dot_byte_def)
qed

lemma mail_text_lines:
  assumes "list_all (\<lambda>l. CHR 0x0D \<notin> set l \<and> CHR 0x0A \<notin> set l \<and> (l = [] \<or> hd l \<noteq> CHR ''.'')) ls" and "ls \<noteq> []"
  shows "mail_text (concat (map (\<lambda>l. l @ crlf) ls)) = concat (map (\<lambda>l. l @ crlf) ls)"
proof -
  let ?ok = "\<lambda>l. CHR 0x0D \<notin> set l \<and> CHR 0x0A \<notin> set l \<and> (l = [] \<or> hd l \<noteq> CHR ''.'')"
  have "dot_Write st (concat (map (\<lambda>l. l @ crlf) ls)) =
      (concat (map (\<lambda>l. l @ crlf) ls), if ls = [] then st else WBeginLine)"
    if "list_all ?ok ls" "st = WBegin \<or> st = WBeginLine" for ls st
    using that
  proof (induction ls arbitrary: st)
    case (Cons l ls)
    then show ?case
      using dot_Write_append [of st "l @ crlf" "concat (map (\<lambda>l. l @ crlf) ls)"] dot_Write_line [of l st]
      by simp
  qed simp
  from this [OF assms(1), of WBegin] assms(2) show ?thesis
    by (simp add: mail_text_def dot_Close_def)
qed

text \<open>What \<open>sendMessage\<close> may leave behind: nothing, or the one mail to the given recipients.\<close>

lemma sendMessage_mails:
  assumes "sendMessage c rcpts msg w = (r, w')"
  shows "mails w' = mails w @ [(sc_from c, rcpts, mail_text msg)] \<or> r \<noteq> None \<and> mails w' = mails w"
proof (cases "has_line_break (sc_from c)")
  case True
  with assms show ?thesis by (auto simp: sendMessage_def)
next
  case False
  let ?mail = "\<lambda>w. w\<lparr>mail_from := sc_from c, mail_to := [], mail_data := []\<rparr>"
  let ?put = "\<lambda>w. w\<lparr>mail_data := mail_data w @ fst (dot_Write WBegin msg)\<rparr>"
  let ?last = "dot_Close (snd (dot_Write WBegin msg))"
  let ?fin = "\<lambda>w. w\<lparr>mails := mails w @ [(mail_from w, mail_to w, mail_data w @ ?last)]\<rparr>"
  obtain r1 w1 where 1: "smtp_command ''smtp mail'' ?mail w = (r1, w1)" by fastforce
  obtain r2 w2 where 2: "send_rcpts rcpts w1 = (r2, w2)" by fastforce
  obtain r3 w3 where 3: "smtp_command ''smtp data'' (\<lambda>w. w) w2 = (r3, w3)" by fastforce
  obtain r4 w4 where 4: "smtp_command ''smtp write'' ?put w3 = (r4, w4)" by fastforce
  obtain r5 w5 where 5: "smtp_command ''smtp close writer'' ?fin w4 = (r5, w5)" by fastforce
  obtain r6 w6 where 6: "smtp_command '''' (\<lambda>w. w\<lparr>smtp_open := False\<rparr>) w5 = (r6, w6)" by fastforce
  have m1: "mails w1 = mails w" "r1 = None \<Longrightarrow> mail_from w1 = sc_from c \<and> mail_to w1 = [] \<and> mail_data w1 = []"
    using 1 by (cases rule: smtp_command_cases; simp)+
  note m2 = send_rcpts_sel [OF 2]
  have m3: "mails w3 = mails w2" "mail_from w3 = mail_from w2" "mail_to w3 = mail_to w2" "mail_data w3 = mail_data w2"
    using 3 by (cases rule: smtp_command_cases; simp)+
  have m4: "mails w4 = mails w3" "mail_from w4 = mail_from w3" "mail_to w4 = mail_to w3"
    "r4 = None \<Longrightarrow> mail_data w4 = mail_data w3 @ fst (dot_Write WBegin msg)"
    using 4 by (cases rule: smtp_command_cases; simp)+
  have m5: "mails w5 = mails w4 @ [(mail_from w4, mail_to w4, mail_data w4 @ ?last)] \<or> r5 \<noteq> None \<and> mails w5 = mails w4"
    using 5 by (cases rule: smtp_command_cases; simp)
  have m6: "mails w6 = mails w5"
    using 6 by (cases rule: smtp_command_cases; simp)
  have same: "mails w1 = mails w" "mails w2 = mails w" "mails w3 = mails w" "mails w4 = mails w"
    using m1 m2 m3 m4 by simp_all
  have mail: "(mail_from w4, mail_to w4, mail_data w4 @ ?last) = (sc_from c, rcpts, mail_text msg)"
    if "r1 = None" "r2 = None" "r4 = None"
    using m1(2) m2 m3 m4 that by (simp add: mail_text_def split: prod.splits)
  have run: "(r, w') = (if r1 \<noteq> None then (r1, w1) else if r2 \<noteq> None then (r2, w2)
      else if r3 \<noteq> None then (r3, w3) else if r4 \<noteq> None then (r4, w4)
      else if r5 \<noteq> None then (r5, w5) else (r6, w6))"
    unfolding assms [symmetric] sendMessage_def
    by (simp add: False 1 2 3 4 5 6 split: option.split)
  show ?thesis
  proof (cases "r1 = None \<and> r2 = None \<and> r3 = None \<and> r4 = None")
    case True
    with run have "(r, w') = (if r5 \<noteq> None then (r5, w5) else (r6, w6))" by simp
    then have "mails w' = mails w5" "r5 \<noteq> None \<Longrightarrow> r \<noteq> None"
      using m6 by (auto split: if_splits)
    with m5 mail True same show ?thesis by auto
  next
    case False
    with run same show ?thesis by (auto split: if_splits)
  qed
qed

lemma smtp_Send_mails:
  assumes "smtp_Send c m w = (r, w')"
  shows "mails w' = mails w @ [(sc_from c, em_to m, mail_text (buildMessage c m))] \<and> sc_use_tls c \<or>
    r \<noteq> None \<and> mails w' = mails w"
    and "smtp_open w' \<Longrightarrow> smtp_open w"
proof -
  obtain r1 w1 where dial: "dialTLS w = (r1, w1)" by fastforce
  obtain r2 w2 where auth: "authenticate c w1 = (r2, w2)" by fastforce
  obtain r3 w3 where msg: "sendMessage c (em_to m) (buildMessage c m) w2 = (r3, w3)" by fastforce
  note all = dialTLS_sel [OF dial] authenticate_sel [OF auth] sendMessage_mails [OF msg]
  show "mails w' = mails w @ [(sc_from c, em_to m, mail_text (buildMessage c m))] \<and> sc_use_tls c \<or>
      r \<noteq> None \<and> mails w' = mails w"
    using assms all dial auth msg
    by (cases r1; cases r2) (auto simp: smtp_Send_def sendWithTLS_def Let_def split: if_splits)
  show "smtp_open w' \<Longrightarrow> smtp_open w"
    using assms all dial auth msg
    by (cases r1; cases r2) (auto simp: smtp_Send_def sendWithTLS_def Let_def split: if_splits)
qed

lemma send_rcpts_view:
  assumes "\<And>w. view (advance w) = view w" and "\<And>w a. view (w\<lparr>mail_to := a\<rparr>) = view w"
  shows "view (snd (send_rcpts rs w)) = view w"
  by (induction rs w rule: send_rcpts.induct)
     (use assms in \<open>auto simp: smtp_command_def split: exec_answer.splits prod.splits option.splits\<close>)

text \<open>No sender touches what it does not write.\<close>

lemma smtp_command_view:
  assumes "\<And>w. view (advance w) = view w" and "\<And>w. view (f w) = view w"
  shows "view (snd (smtp_command site f w)) = view w"
  using assms by (simp add: smtp_command_def split: exec_answer.splits)

lemma smtp_Send_view:
  assumes adv: "\<And>w. view (advance w) = view w" and op: "\<And>w b. view (w\<lparr>smtp_open := b\<rparr>) = view w"
    and upd: "\<And>w a. view (w\<lparr>mail_from := a\<rparr>) = view w" "\<And>w a. view (w\<lparr>mail_to := a\<rparr>) = view w"
      "\<And>w a. view (w\<lparr>mail_data := a\<rparr>) = view w" "\<And>w a. view (w\<lparr>mails := a\<rparr>) = view w"
  shows "view (snd (smtp_Send c m w)) = view w"
proof -
  note cmd = smtp_command_view [where view = view, OF adv]
  have cmd': "view w' = view w" if "smtp_command site f w = (r, w')" "\<And>w. view (f w) = view w" for site f w r w'
    using cmd [of f site w] that by simp
  have rcpts: "view w' = view w" if "send_rcpts rs w = (r, w')" for rs w r w'
    using send_rcpts_view [where view = view, OF adv upd(2), of rs w] that by simp
  have send: "view w' = view w" if "sendMessage c rcpts msg w = (r, w')" for rcpts msg w r w'
    using that
    by (auto simp: sendMessage_def upd op split: if_splits prod.splits option.splits
        dest!: cmd' rcpts)
  have dial: "view w' = view w" if "dialTLS w = (r, w')" for w r w'
    using that by (auto simp: dialTLS_def op split: prod.splits option.splits dest!: cmd')
  have auth: "view w' = view w" if "authenticate c w = (r, w')" for w r w'
    using that by (auto simp: authenticate_def split: if_splits dest!: cmd')
  show ?thesis
    by (auto simp: smtp_Send_def sendWithTLS_def Let_def op split: prod.splits option.splits
        dest!: send dial auth)
qed

lemma SendWithResult_view:
  assumes "\<And>w. view (advance w) = view w" and "\<And>w rs. view (w\<lparr>requests := rs\<rparr>) = view w"
  shows "view (snd (SendWithResult itoa c m tokens w)) = view w"
  using assms
  by (simp add: SendWithResult_def Let_def split: http_reply.splits sum.splits)

lemma fcm_Send_view:
  assumes "\<And>w. view (advance w) = view w" and "\<And>w rs. view (w\<lparr>requests := rs\<rparr>) = view w"
  shows "view (snd (fcm_Send itoa c m tokens w)) = view w"
  using SendWithResult_view [where view = view, OF assms, of itoa c m tokens w]
  by (auto simp: fcm_Send_def split: prod.splits outcome.splits sum.splits)

text \<open>The loop over the results pairs each with its token.\<close>

lemma collect_failed_zip:
  "i + length rs \<le> length tokens \<Longrightarrow>
     collect_failed tokens i rs acc = Ret (acc @
       map (\<lambda>(t, r). \<lparr>ft_token = t, ft_error = fr_error r\<rparr>)
         (filter (\<lambda>(t, r). fr_error r \<noteq> '''') (zip (drop i tokens) rs)))"
proof (induction rs arbitrary: i acc)
  case (Cons r rs)
  then have "i < length tokens" by simp
  then have "drop i tokens = tokens ! i # drop (Suc i) tokens" by (simp add: Cons_nth_drop_Suc)
  with Cons show ?case by simp
qed simp

section \<open>Properties\<close>

definition sample_response :: fcm_response where
  "sample_response = \<lparr>fs_multicast_id = 1, fs_success = 0, fs_failure = 1,
     fs_results = [\<lparr>fr_message_id = '''', fr_registration_id = '''', fr_error = ''NotRegistered''\<rparr>]\<rparr>"

definition sample_net :: net where
  "sample_net = pg.extend empty_db (net.fields (\<lambda>_. Executed) False '''' [] [] []
     (\<lambda>_. Reply 200 (Inr sample_response)) [])"

definition sample_config :: smtp_config where
  "sample_config = \<lparr>sc_host = ''mail.local'', sc_port = 465, sc_username = ''u'', sc_password = ''p'',
     sc_from = ''noreply@local'', sc_use_tls = True\<rparr>"

definition sample_email :: email_message where
  "sample_email = \<lparr>em_user_id = 7, em_to = [''a@x'', ''b@x''], em_cc = [''c@x''], em_bcc = [],
     em_subject = ''Hi'', em_body = ''text'', em_html_body = '''', em_attachments = []\<rparr>"

definition sample_push :: push_message where
  "sample_push = \<lparr>pm_user_id = 7, pm_title = ''Hi'', pm_body = ''there'', pm_data = None,
     pm_image_url = '''', pm_badge = Some 3, pm_sound = ''''\<rparr>"

lemma sample_net_sel [simp]:
  "smtp_answer sample_net = (\<lambda>_. Executed)" "mails sample_net = []" "\<not> smtp_open sample_net"
  "tick sample_net = 0" "max_slice sample_net = 1000000" "requests sample_net = []"
  "http_answer sample_net = (\<lambda>_. Reply 200 (Inr sample_response))"
  by (simp_all add: sample_net_def empty_db_def pg.defs net.defs)

lemma smtp_command_executed [simp]:
  "smtp_answer w = (\<lambda>_. Executed) \<Longrightarrow> smtp_command site f w = (None, f (advance w))"
  by (simp add: smtp_command_def)

lemma sample_email_sel [simp]:
  "sc_from sample_config = ''noreply@local''" "em_to sample_email = [''a@x'', ''b@x'']"
  by (simp_all add: sample_config_def sample_email_def)

lemma sample_email_sent:
  "smtp_Send sample_config sample_email sample_net = (None, snd (smtp_Send sample_config sample_email sample_net))"
  by (rule prod_eqI)
     (simp_all add: smtp_Send_def sendWithTLS_def dialTLS_def authenticate_def sendMessage_def Let_def
       sample_config_def sample_email_def has_line_break_def)

text \<open>
  C31. Sending an email is one mail or none: when \<open>Send\<close> reports success the server accepted exactly one
  more mail, from the configured sender, to the addresses of \<open>To\<close> in their order, with the built
  message in the form of the data writer, over TLS; when it reports an error, at most that one was accepted; and the connection is
  closed on every way out.
\<close>

theorem smtp_Send_one_mail:
  assumes "smtp_Send c m w = (r, w')" and "\<not> smtp_open w"
  shows "(r = None \<longrightarrow> sc_use_tls c \<and> mails w' = mails w @ [(sc_from c, em_to m, mail_text (buildMessage c m))]) \<and>
    (r \<noteq> None \<longrightarrow> mails w' = mails w \<or> mails w' = mails w @ [(sc_from c, em_to m, mail_text (buildMessage c m))]) \<and>
    \<not> smtp_open w'"
  using smtp_Send_mails [OF assms(1)] assms(2) by auto

lemma smtp_Send_one_mail_witness:
  "mails (snd (smtp_Send sample_config sample_email sample_net)) =
     [(''noreply@local'', [''a@x'', ''b@x''], mail_text (buildMessage sample_config sample_email))]"
  using smtp_Send_one_mail [OF sample_email_sent] by simp

text \<open>
  Copies, blind copies and attachments are ignored: a message with them is sent exactly as one
  without, so those people get nothing and no error says so.
\<close>

lemma copies_are_not_sent:
  "smtp_Send c (m\<lparr>em_cc := cc, em_bcc := bcc, em_attachments := atts\<rparr>) w = smtp_Send c m w"
  by (simp add: smtp_Send_def buildMessage_def)

text \<open>A line break in the subject starts a header of its own.\<close>

lemma subject_can_add_a_header:
  "\<exists>pre post. buildMessage c (m\<lparr>em_subject := s @ crlf @ h\<rparr>) = pre @ crlf @ h @ crlf @ post \<and>
     pre = ''From: '' @ sc_from c @ crlf @ ''To: '' @ strings_Join (em_to m) '', '' @ crlf @ ''Subject: '' @ s"
  by (auto simp: buildMessage_def Let_def split: prod.splits)

text \<open>
  What FCM reports is passed on faithfully: for an answer with status 200 and at most one result
  per token, the counts are the server's and, when it reports failures, the failed tokens are exactly
  the tokens whose result carries an error, in order, each with its own error; nothing panics.
\<close>

theorem fcm_failed_tokens:
  assumes "tokens \<noteq> []" and "http_answer w (tick w) = Reply 200 (Inr resp)"
    and "length (fs_results resp) \<le> length tokens" and "fs_failure resp \<le> max_slice w"
  shows "fst (SendWithResult itoa c m tokens w) = Ret (Inr
    \<lparr>sr_success_count = fs_success resp, sr_failure_count = fs_failure resp,
     sr_failed_tokens = (if fs_failure resp > 0
       then map (\<lambda>(t, r). \<lparr>ft_token = t, ft_error = fr_error r\<rparr>)
         (filter (\<lambda>(t, r). fr_error r \<noteq> '''') (zip tokens (fs_results resp)))
       else [])\<rparr>)"
  using assms by (simp add: SendWithResult_def Let_def collect_failed_zip)

lemma fcm_failed_tokens_witness:
  "fst (SendWithResult (\<lambda>n. '''') \<lparr>fc_server_key = ''k'', fc_timeout = 0\<rparr> sample_push [''tok'', ''tok2''] sample_net) =
   Ret (Inr \<lparr>sr_success_count = 0, sr_failure_count = 1,
     sr_failed_tokens = [\<lparr>ft_token = ''tok'', ft_error = ''NotRegistered''\<rparr>]\<rparr>)"
  using fcm_failed_tokens [of "[''tok'', ''tok2'']" sample_net sample_response "\<lambda>n. ''''"
      "\<lparr>fc_server_key = ''k'', fc_timeout = 0\<rparr>" sample_push]
  by (simp add: sample_response_def)

text \<open>
  A push that no device received still counts as sent: for a status of 200 \<open>Send\<close> returns no error
  whatever the results say, and more errors than tokens make it panic instead.
\<close>

theorem fcm_Send_ignores_failures:
  assumes "tokens \<noteq> []" and "http_answer w (tick w) = Reply 200 (Inr resp)"
    and "fs_failure resp \<le> max_slice w"
  shows "(length (fs_results resp) \<le> length tokens \<longrightarrow> fst (fcm_Send itoa c m tokens w) = Ret None) \<and>
    (fs_failure resp > 0 \<and> length tokens < length (fs_results resp) \<and>
      list_all (\<lambda>r. fr_error r \<noteq> '''') (fs_results resp) \<longrightarrow>
      fst (fcm_Send itoa c m tokens w) = Panic ''index out of range'')"
proof -
  have "collect_failed tokens i rs acc = Panic ''index out of range''"
    if "length tokens < i + length rs" "i \<le> length tokens" "list_all (\<lambda>r. fr_error r \<noteq> '''') rs" for i rs acc
    using that by (induction rs arbitrary: i acc) auto
  then show ?thesis
    using assms by (auto simp: fcm_Send_def SendWithResult_def Let_def collect_failed_zip
        split: prod.splits)
qed

lemma fcm_Send_ignores_failures_witness:
  "fst (fcm_Send (\<lambda>n. '''') \<lparr>fc_server_key = ''k'', fc_timeout = 0\<rparr> sample_push [''tok''] sample_net) = Ret None"
  using fcm_Send_ignores_failures [of "[''tok'']" sample_net sample_response "\<lambda>n. ''''"
      "\<lparr>fc_server_key = ''k'', fc_timeout = 0\<rparr>" sample_push]
  by (simp add: sample_response_def)

end
