(* ===== verification/NotificationSystem.thy ===== *)
theory NotificationSystem
  imports NotificationService NotificationRepo PushTokenRepo PreferencesRepo Notify
begin

text \<open>
  The notification service as \<open>NewService\<close> wires it: the four PostgreSQL repositories, the SMTP sender
  and the FCM sender. The locale of the service is interpreted here on these definitions, and what it
  promises to a user is read off.
\<close>

section \<open>The wiring\<close>

text \<open>\<open>NewService\<close> copies the six dependencies.\<close>

record 'w service_deps =
  sd_NotificationRepo :: "'w notification_repo"
  sd_PrefsRepo :: "'w preferences_repo"
  sd_PushTokenRepo :: "'w push_token_repo"
  sd_DeliveryLogRepo :: "'w delivery_log_repo"
  sd_EmailSender :: "'w email_sender option"
  sd_PushSender :: "'w push_sender option"

definition NewService :: "'w service_deps \<Rightarrow> 'w service" where
  "NewService deps = \<lparr>notificationRepo = sd_NotificationRepo deps, prefsRepo = sd_PrefsRepo deps,
     pushTokenRepo = sd_PushTokenRepo deps, deliveryLogRepo = sd_DeliveryLogRepo deps,
     emailSender = sd_EmailSender deps, pushSender = sd_PushSender deps\<rparr>"

definition wired_service ::
  "(int \<Rightarrow> string) \<Rightarrow> smtp_config \<Rightarrow> fcm_config \<Rightarrow> net service" where
  "wired_service itoa sc fc = NewService
     \<lparr>sd_NotificationRepo = pg_notification_repo, sd_PrefsRepo = pg_preferences_repo,
      sd_PushTokenRepo = pg_push_token_repo, sd_DeliveryLogRepo = pg_delivery_log_repo,
      sd_EmailSender = Some (\<lambda>m w. let (r, w') = smtp_Send (ss_config (NewSMTPSender sc)) m w in (Ret r, w')),
      sd_PushSender = Some (fcm_Send itoa (fx_config (NewFCMSender fc)))\<rparr>"

lemma wired_service_sel [simp]:
  "notificationRepo (wired_service itoa sc fc) = pg_notification_repo"
  "prefsRepo (wired_service itoa sc fc) = pg_preferences_repo"
  "pushTokenRepo (wired_service itoa sc fc) = pg_push_token_repo"
  "deliveryLogRepo (wired_service itoa sc fc) = pg_delivery_log_repo"
  "emailSender (wired_service itoa sc fc) = Some (\<lambda>m w. let (r, w') = smtp_Send sc m w in (Ret r, w'))"
  "pushSender (wired_service itoa sc fc) = Some (fcm_Send itoa fc)"
  by (simp_all add: wired_service_def NewService_def)

text \<open>The preferences a user has in the table, as a query returns them.\<close>

definition preferences_of :: "'a pg_scheme \<Rightarrow> uuid \<Rightarrow> user_preferences option" where
  "preferences_of w u = map_option (preference_columns (read_time w))
     (find (\<lambda>p. up_user_id p = u) (preferences w))"

lemma preferences_Get_found:
  assumes "preferences_Get u w = ((p, e), w')"
  shows "(p = None \<longleftrightarrow> e \<noteq> None) \<and> (p \<noteq> None \<longrightarrow> preferences_of w u = p)"
proof -
  have hd: "find (\<lambda>p. up_user_id p = u) ps = Some q" if "filter (\<lambda>p. up_user_id p = u) ps = q # qs"
    for q :: preference_row and qs ps
    using that by (induction ps) (auto split: if_splits)
  then show ?thesis
    using assms
    by (auto simp: preferences_Get_def pg_query_row_def preferences_of_def split: option.splits
        query_answer.splits sum.splits list.splits if_splits)
qed

section \<open>The frames\<close>

text \<open>Each operation leaves alone every view that does not show the one table it writes.\<close>

lemma preferences_Get_frame:
  "preferences_Get u w = (g, w') \<Longrightarrow>
     (notifications w', push_tokens w', delivery_logs w', mails w', requests w') =
     (notifications w, push_tokens w, delivery_logs w, mails w, requests w)"
  using preferences_Get_state [of u w] by simp

lemma notification_Store_frame:
  "notification_Store n w = (r, n', w') \<Longrightarrow>
     (push_tokens w', delivery_logs w', mails w', requests w') =
     (push_tokens w, delivery_logs w, mails w, requests w)"
  using notification_repo_view(1)
    [where view = "\<lambda>w. (push_tokens w, delivery_logs w, mails w, requests w)", of n w] by simp

lemma token_GetByUserID_frame:
  "token_GetByUserID u w = (g, w') \<Longrightarrow>
     (notifications w', push_tokens w', delivery_logs w', mails w', requests w') =
     (notifications w, push_tokens w, delivery_logs w, mails w, requests w)"
  using query_list_state unfolding token_GetByUserID_def by (metis advance_sel net_advance snd_conv)

lemma delivery_log_Store_frame:
  "delivery_log_Store l w = (r, l', w') \<Longrightarrow>
     (notifications w', push_tokens w', mails w', requests w') =
     (notifications w, push_tokens w, mails w, requests w)"
  using delivery_log_repo_view(1)
    [where view = "\<lambda>w. (notifications w, push_tokens w, mails w, requests w)", of l w] by simp

lemma smtp_Send_frame:
  "smtp_Send c m w = (r, w') \<Longrightarrow>
     (notifications w', push_tokens w', delivery_logs w', requests w') =
     (notifications w, push_tokens w, delivery_logs w, requests w)"
  using smtp_Send_view
    [where view = "\<lambda>w. (notifications w, push_tokens w, delivery_logs w, requests w)", of c m w] by simp

lemma fcm_Send_frame:
  "fcm_Send itoa c m ts w = (r, w') \<Longrightarrow>
     (notifications w', push_tokens w', delivery_logs w', mails w') =
     (notifications w, push_tokens w, delivery_logs w, mails w)"
  using fcm_Send_view
    [where view = "\<lambda>w. (notifications w, push_tokens w, delivery_logs w, mails w)", of itoa c m ts w] by simp

definition fcm_request :: "fcm_config \<Rightarrow> push_message \<Rightarrow> string list \<Rightarrow> string \<times> fcm_message" where
  "fcm_request c m tokens = (''key='' @ fc_server_key c, fcm_message_of m tokens)"

lemma fcm_Send_requests:
  assumes "fcm_Send itoa c m ts w = (r, w')" and "ts \<noteq> []"
  shows "requests w' = requests w @ [fcm_request c m ts] \<or> r \<noteq> Ret None \<and> requests w' = requests w"
  using assms
  by (auto simp: fcm_Send_def SendWithResult_def Let_def fcm_request_def advance_def
      split: prod.splits outcome.splits sum.splits http_reply.splits if_splits)

lemma token_GetByUserID_rows:
  assumes "token_GetByUserID u w = (Inr ts, w')" and "scan_ok (scan_push_tokens w)"
  shows "list_all (\<lambda>t. t \<in> set (push_tokens w) \<and> pt_user_id t = u) ts"
proof -
  have set: "set (scan_push_tokens w k xs) = set xs" for k xs
    using assms(2) by (metis scan_ok_def set_mset_mset)
  show ?thesis
    using assms(1) unfolding token_GetByUserID_def
    by (rule query_list_cases) (auto simp: list_all_iff set dest!: in_set_takeD)
qed

section \<open>The contract holds\<close>

lemma notification_Store_same:
  "notification_Store n w = (r, n', w') \<Longrightarrow> same_note n (notification_row n')"
  by (drule notification_Store_fields) (simp add: same_note_def notification_row_def)

lemma delivery_log_Store_same:
  "delivery_log_Store l w = (r, l', w') \<Longrightarrow> same_log l (delivery_log_row l')"
  by (auto simp: delivery_log_Store_def delivery_log_row_def Let_def same_log_def split: prod.splits if_splits)

definition email_sent :: "smtp_config \<Rightarrow> email_message \<Rightarrow> string \<times> string list \<times> bytes" where
  "email_sent c m = (sc_from c, em_to m, mail_text (buildMessage c m))"

interpretation wired: notification_service "wired_service itoa sc fc" notifications push_tokens preferences_of
  delivery_logs mails "email_sent sc" requests "fcm_request fc" "\<lambda>w. scan_ok (scan_push_tokens w)"
  for itoa sc fc
proof (rule notification_service.intro)
  fix u n w l send m psend pm ts ts2
  fix p :: "user_preferences option" and e r :: "goerr option" and g n' l' g2 r2 and w' :: net
  let ?svc = "wired_service itoa sc fc"
  show "pr_Get (prefsRepo ?svc) u w = ((p, e), w') \<Longrightarrow>
      (p = None \<longleftrightarrow> e \<noteq> None) \<and> (p \<noteq> None \<longrightarrow> preferences_of w u = p)"
    using preferences_Get_found [of u w p e w'] by (auto simp: pg_preferences_repo_def)
  show "pr_Get (prefsRepo ?svc) u w = (g, w') \<Longrightarrow>
      (notifications w', push_tokens w', delivery_logs w', mails w', requests w') =
      (notifications w, push_tokens w, delivery_logs w, mails w, requests w)"
    using preferences_Get_frame [of u w g w'] by (simp add: pg_preferences_repo_def)
  show "nr_Store (notificationRepo ?svc) n w = (r, n', w') \<Longrightarrow>
      (\<exists>row. notifications w' = notifications w @ [row] \<and> same_note n row) \<or>
      r \<noteq> None \<and> notifications w' = notifications w"
    using notification_Store_rows [of n w r n' w'] notification_Store_same [of n w r n' w']
    by (auto simp: pg_notification_repo_def)
  show "nr_Store (notificationRepo ?svc) n w = (r, n', w') \<Longrightarrow>
      (push_tokens w', delivery_logs w', mails w', requests w') =
      (push_tokens w, delivery_logs w, mails w, requests w)"
    using notification_Store_frame [of n w r n' w'] by (simp add: pg_notification_repo_def)
  show "scan_ok (scan_push_tokens w) \<Longrightarrow> scan_ok (scan_push_tokens (snd (pr_Get (prefsRepo ?svc) u w)))"
    by (simp add: pg_preferences_repo_def preferences_Get_state advance_def)
  show "scan_ok (scan_push_tokens w) \<Longrightarrow> tr_GetByUserID (pushTokenRepo ?svc) u w = (Inr ts, w') \<Longrightarrow>
      list_all (\<lambda>t. t \<in> set (push_tokens w) \<and> pt_user_id t = u) ts"
    using token_GetByUserID_rows [of u w ts w'] by (simp add: pg_push_token_repo_def)
  show "tr_GetByUserID (pushTokenRepo ?svc) u w = (g2, w') \<Longrightarrow>
      (notifications w', push_tokens w', delivery_logs w', mails w', requests w') =
      (notifications w, push_tokens w, delivery_logs w, mails w, requests w)"
    using token_GetByUserID_frame [of u w g2 w'] by (simp add: pg_push_token_repo_def)
  show "lr_Store (deliveryLogRepo ?svc) l w = (r, l', w') \<Longrightarrow>
      (\<exists>row. delivery_logs w' = delivery_logs w @ [row] \<and> same_log l row) \<or>
      r \<noteq> None \<and> delivery_logs w' = delivery_logs w"
    using delivery_log_Store_rows [of l w r l' w'] delivery_log_Store_same [of l w r l' w']
    by (auto simp: pg_delivery_log_repo_def)
  show "lr_Store (deliveryLogRepo ?svc) l w = (r, l', w') \<Longrightarrow>
      (notifications w', push_tokens w', mails w', requests w') =
      (notifications w, push_tokens w, mails w, requests w)"
    using delivery_log_Store_frame [of l w r l' w'] by (simp add: pg_delivery_log_repo_def)
  show "emailSender ?svc = Some send \<Longrightarrow> send m w = (r2, w') \<Longrightarrow>
      mails w' = mails w @ [email_sent sc m] \<or> r2 \<noteq> Ret None \<and> mails w' = mails w"
    using smtp_Send_mails(1) [of sc m w]
    by (auto simp: email_sent_def Let_def split: prod.splits)
  show "emailSender ?svc = Some send \<Longrightarrow> send m w = (r2, w') \<Longrightarrow>
      (notifications w', push_tokens w', delivery_logs w', requests w') =
      (notifications w, push_tokens w, delivery_logs w, requests w)"
    using smtp_Send_frame [of sc m w] by (auto simp: Let_def split: prod.splits)
  show "pushSender ?svc = Some psend \<Longrightarrow> ts2 \<noteq> [] \<Longrightarrow> psend pm ts2 w = (r2, w') \<Longrightarrow>
      requests w' = requests w @ [fcm_request fc pm ts2] \<or> r2 \<noteq> Ret None \<and> requests w' = requests w"
    using fcm_Send_requests [of itoa fc pm ts2 w r2 w'] by auto
  show "pushSender ?svc = Some psend \<Longrightarrow> psend pm ts2 w = (r2, w') \<Longrightarrow>
      (notifications w', push_tokens w', delivery_logs w', mails w') =
      (notifications w, push_tokens w, delivery_logs w, mails w)"
    using fcm_Send_frame [of itoa fc pm ts2 w r2 w'] by auto
qed

section \<open>Properties\<close>

text \<open>
  C8. Whoever switched a channel off gets nothing over it: when the preferences of a user can be read
  and say that in-app, push or email is off, sending over that channel reports success and does nothing
  but that one query: no notification, no request, no mail, no row in the audit trail.
\<close>

theorem opted_out_users_get_nothing:
  assumes "preferences_Get u w = ((Some p, None), w1)" and "svc = wired_service itoa sc fc"
    and "im_user_id im = u" and "pm_user_id pm = u" and "em_user_id em = u"
  shows "(\<not> up_in_app_enabled p \<longrightarrow> SendInApp svc im w = (Ret None, advance w)) \<and>
    (\<not> up_push_enabled p \<longrightarrow> SendPush svc pm w = (Ret None, advance w)) \<and>
    (\<not> up_email_enabled p \<longrightarrow> SendEmail svc em w = (Ret None, advance w))"
proof -
  have "w1 = advance w" using preferences_Get_state [of u w] by (simp add: assms(1))
  with assms show ?thesis
    by (simp add: SendInApp_def SendPush_def SendEmail_def pg_preferences_repo_def opted_out_def email_off_def)
qed

definition sample_in_app :: in_app_message where
  "sample_in_app = \<lparr>im_user_id = 7, im_type = ''info'', im_title = ''Hi'', im_body = ''there'',
     im_data = None, im_action_url = ''/x'', im_image_url = ''''\<rparr>"

definition sample_fcm :: fcm_config where
  "sample_fcm = \<lparr>fc_server_key = ''k'', fc_timeout = 0\<rparr>"

text \<open>A user with one active and one inactive device, and preferences that are all on or all off.\<close>

definition sample_user :: "bool \<Rightarrow> net" where
  "sample_user on = sample_net
     \<lparr>push_tokens := [sample_token 1 ''tok'' ''phone'' True, sample_token 2 ''tab'' ''tablet'' False],
      preferences := [user_preferences.extend (sample_preferences 7 on) \<lparr>up_created_at = 3\<rparr>]\<rparr>"

lemma sample_ids [simp]:
  "im_user_id sample_in_app = 7" "pm_user_id sample_push = 7" "em_user_id sample_email = 7"
  by (simp_all add: sample_in_app_def sample_push_def sample_email_def)

lemma sample_user_sel [simp]:
  "push_tokens (sample_user on) = [sample_token 1 ''tok'' ''phone'' True, sample_token 2 ''tab'' ''tablet'' False]"
  "notifications (sample_user on) = []" "delivery_logs (sample_user on) = []" "mails (sample_user on) = []"
  "requests (sample_user on) = []" "scan_push_tokens (sample_user on) = (\<lambda>k rs. rs)"
  "healthy (sample_user on)" "\<not> smtp_open (sample_user on)"
  by (simp_all add: sample_user_def sample_net_def healthy_def empty_db_def pg.defs net.defs)

lemma sample_user_preferences:
  "preferences_Get 7 (sample_user on) =
     ((Some ((sample_preferences 7 on)\<lparr>up_quiet_start := Some ''22:00:00''\<rparr>), None), advance (sample_user on))"
proof -
  have "build_answer (sample_user on) n = None" for n
    by (simp add: healthy_answers)
  moreover have "read_time (sample_user on) = (\<lambda>s. s @ '':00'')"
    "preferences (sample_user on) = [user_preferences.extend (sample_preferences 7 on) \<lparr>up_created_at = 3\<rparr>]"
    by (simp_all add: sample_user_def sample_net_def empty_db_def pg.defs net.defs)
  ultimately show ?thesis
    by (simp add: preferences_Get_def pg_query_row_healthy columns_extend sample_preferences_def)
qed

lemma opted_out_users_get_nothing_witness:
  "SendEmail (wired_service (\<lambda>n. '''') sample_config sample_fcm) sample_email (sample_user False) =
     (Ret None, advance (sample_user False))"
  using opted_out_users_get_nothing [OF sample_user_preferences [of False] refl,
      of sample_in_app sample_push sample_email "\<lambda>n. []" sample_config sample_fcm]
  by (simp add: sample_preferences_def)

text \<open>
  C10. An in-app message becomes at most one notification of its user, unread, with the message's
  content; success means stored or switched off, an error may be reported for a stored one; nothing
  panics and no other channel is touched.
\<close>

theorem SendInApp_stores_the_message:
  assumes "svc = wired_service itoa sc fc" and "SendInApp svc m w = (r, w')"
  shows "(notifications w' = notifications w \<and>
       (r = Ret None \<longrightarrow> (\<exists>p. preferences_of w (im_user_id m) = Some p \<and> \<not> up_in_app_enabled p)) \<or>
     (\<exists>n. notifications w' = notifications w @ [n] \<and> n_user_id n = im_user_id m \<and> n_type n = im_type m \<and>
       n_title n = im_title m \<and> n_body n = im_body m \<and> n_data n = im_data m \<and> \<not> n_read n \<and>
       n_action_url n = (if im_action_url m = '''' then None else Some (im_action_url m)) \<and>
       n_image_url n = (if im_image_url m = '''' then None else Some (im_image_url m)))) \<and>
    (\<exists>e. r = Ret e) \<and> mails w' = mails w \<and> requests w' = requests w"
proof -
  have content: "n_user_id n = im_user_id m \<and> n_type n = im_type m \<and> n_title n = im_title m \<and>
      n_body n = im_body m \<and> n_data n = im_data m \<and> \<not> n_read n \<and>
      n_action_url n = (if im_action_url m = '''' then None else Some (im_action_url m)) \<and>
      n_image_url n = (if im_image_url m = '''' then None else Some (im_image_url m))"
    if "same_note (in_app_of m) n" for n
  proof -
    have eq: "n\<lparr>n_id := n_id (in_app_of m), n_created_at := n_created_at (in_app_of m)\<rparr> = in_app_of m" (is "?k = _")
      using that by (simp add: same_note_def in_app_of_def)
    have "n_user_id n = n_user_id ?k" "n_type n = n_type ?k" "n_title n = n_title ?k" "n_body n = n_body ?k"
      "n_data n = n_data ?k" "n_read n = n_read ?k" "n_action_url n = n_action_url ?k" "n_image_url n = n_image_url ?k"
      by simp_all
    then show ?thesis unfolding eq by (simp add: in_app_of_def)
  qed
  show ?thesis
  proof (rule wired.SendInApp_cases [OF assms(2)[unfolded assms(1)], where q = "THE p. r = Panic p"])
    fix p assume "r = Ret None" "notifications w' = notifications w"
      "preferences_of w (im_user_id m) = Some p" "\<not> up_in_app_enabled p" "mails w' = mails w" "requests w' = requests w"
    then show ?thesis by auto
  next
    fix n' assume "r \<noteq> Panic (THE p. r = Panic p)" "notifications w' = notifications w @ [n']"
      "same_note (in_app_of m) n'" "mails w' = mails w" "requests w' = requests w"
    moreover from this(1) have "\<exists>e. r = Ret e" by (cases r) auto
    ultimately show ?thesis using content by blast
  qed auto
qed

lemma SendInApp_stores_the_message_witness:
  "length (notifications (snd (SendInApp (wired_service (\<lambda>n. '''') sample_config sample_fcm) sample_in_app
     (sample_user True)))) \<le> 1"
  using SendInApp_stores_the_message [OF refl prod.collapse [symmetric], of "\<lambda>n. ''''" sample_config sample_fcm
      sample_in_app "sample_user True"]
  by auto

text \<open>
  C7. A push goes to the user's active devices only: \<open>SendPush\<close> makes at most one request, its tokens are
  not empty and each is an active token registered for the user of the message; the audit trail gains at
  most one row, on the push channel, and it says \<open>sent\<close> exactly when success is reported.
\<close>

theorem SendPush_active_tokens_only:
  assumes "svc = wired_service itoa sc fc" and "scan_ok (scan_push_tokens w)"
    and "SendPush svc m w = (r, w')"
  shows "(requests w' = requests w \<or>
     (\<exists>toks. requests w' = requests w @ [fcm_request fc m toks] \<and> toks \<noteq> [] \<and>
       list_all (\<lambda>t. list_ex (\<lambda>k. pt_user_id k = pm_user_id m \<and> pt_active k \<and> pt_token k = t) (push_tokens w)) toks)) \<and>
    (\<exists>ls. delivery_logs w' = delivery_logs w @ ls \<and> length ls \<le> 1 \<and>
       list_all (\<lambda>l. dl_user_id l = pm_user_id m \<and> dl_channel l = ChannelPush \<and>
         dl_status l = (if r = Ret None then StatusSent else StatusFailed)) ls) \<and>
    mails w' = mails w \<and> notifications w' = notifications w"
  by (rule wired.SendPush_cases [OF assms(2) assms(3)[unfolded assms(1)], where q = "''''"])
     (auto simp: wired.logged_def)

lemma SendPush_active_tokens_only_witness:
  "\<exists>ls. delivery_logs (snd (SendPush (wired_service (\<lambda>n. '''') sample_config sample_fcm) sample_push
     (sample_user True))) = ls \<and> length ls \<le> 1"
  using SendPush_active_tokens_only [OF refl _ prod.collapse [symmetric], of "sample_user True" "\<lambda>n. ''''"
      sample_config sample_fcm sample_push]
  by auto

text \<open>
  C9. An email is sent at most once, and only to its addresses: \<open>SendEmail\<close> hands the server at most the
  one built mail, reports success only when the server took it or the user had email off, and the audit
  trail gains at most one row, which says \<open>sent\<close> exactly when success is reported.
\<close>

theorem SendEmail_once:
  assumes "svc = wired_service itoa sc fc" and "SendEmail svc m w = (r, w')"
  shows "(mails w' = mails w \<or> mails w' = mails w @ [(sc_from sc, em_to m, mail_text (buildMessage sc m))]) \<and>
    (r = Ret None \<longrightarrow> mails w' = mails w @ [(sc_from sc, em_to m, mail_text (buildMessage sc m))] \<or>
       (\<exists>p. preferences_of w (em_user_id m) = Some p \<and> \<not> up_email_enabled p)) \<and>
    (\<exists>ls. delivery_logs w' = delivery_logs w @ ls \<and> length ls \<le> 1 \<and>
       list_all (\<lambda>l. dl_user_id l = em_user_id m \<and> dl_channel l = ChannelEmail \<and>
         dl_status l = (if r = Ret None then StatusSent else StatusFailed)) ls)"
  by (rule wired.SendEmail_cases [OF assms(2)[unfolded assms(1)]])
     (auto simp: wired.logged_def email_sent_def)

lemma SendEmail_once_witness:
  "\<exists>ls. delivery_logs (snd (SendEmail (wired_service (\<lambda>n. '''') sample_config sample_fcm) sample_email
     (sample_user True))) = ls \<and> length ls \<le> 1"
  using SendEmail_once [OF refl prod.collapse [symmetric], of "\<lambda>n. ''''" sample_config sample_fcm
      sample_email "sample_user True"]
  by auto

text \<open>
  The audit trail never decides: whatever the delivery log repository does, also when every one of
  its calls fails, \<open>SendEmail\<close> and \<open>SendPush\<close> return what they return otherwise.
\<close>

theorem delivery_log_never_decides:
  "fst (SendEmail (s\<lparr>deliveryLogRepo := lr\<rparr>) em w) = fst (SendEmail s em w) \<and>
   fst (SendPush (s\<lparr>deliveryLogRepo := lr\<rparr>) pm w) = fst (SendPush s pm w)"
  by (simp add: SendEmail_ignores_log SendPush_ignores_log)

text \<open>
  Preferences that cannot be read count as switched on: when the query of the preferences fails,
  an in-app message is stored even for a user whose row says no.
\<close>

theorem unreadable_preferences_are_ignored:
  assumes "svc = wired_service itoa sc fc" and "build_answer w (tick w) = None"
    and "query_answer w (tick w) = QueryFailed e" and "SendInApp svc m w = (Ret None, w')"
  shows "\<exists>n. notifications w' = notifications w @ [n] \<and> n_user_id n = im_user_id m"
proof -
  have "\<exists>e'. preferences_Get (im_user_id m) w = ((None, Some e'), advance w)"
    using assms(2,3) by (simp add: preferences_Get_def pg_query_row_def)
  then obtain n' w2 where st: "notification_Store (in_app_of m) (advance w) = (None, n', w2)" and "w' = w2"
    using assms(1,4) by (auto simp: SendInApp_def pg_preferences_repo_def pg_notification_repo_def opted_out_def
        split: prod.splits option.splits)
  then show ?thesis
    using notification_Store_rows [OF st] notification_Store_fields [OF st] by (simp add: in_app_of_def)
qed

lemma unreadable_preferences_are_ignored_witness:
  "\<exists>n. notifications (snd (SendInApp (wired_service (\<lambda>n. '''') sample_config sample_fcm) sample_in_app
     ((sample_user False)\<lparr>query_answer := (\<lambda>_. QueryFailed (ErrNew ''timeout''))\<rparr>))) = [n] \<and> n_user_id n = 7"
proof -
  let ?w = "(sample_user False)\<lparr>query_answer := (\<lambda>_. QueryFailed (ErrNew ''timeout''))\<rparr>"
  let ?svc = "wired_service (\<lambda>n. '''') sample_config sample_fcm"
  have env: "build_answer ?w n = None" "exec_answer ?w n = Executed" for n
    using sample_user_sel(7) [of False] by (simp_all add: healthy_answers)
  then have run: "SendInApp ?svc sample_in_app ?w = (Ret None, snd (SendInApp ?svc sample_in_app ?w))"
    by (simp add: SendInApp_def pg_preferences_repo_def preferences_Get_def pg_query_row_def opted_out_def
        pg_notification_repo_def notification_Store_def with_sql_def pg_exec_def insert_rows_def advance_def Let_def)
  from unreadable_preferences_are_ignored [OF refl env(1) _ run] show ?thesis by simp
qed

end
