(* ===== verification/Redact.thy ===== *)
theory Redact
  imports Logger
begin

text \<open>
  \<open>pkg/logger/redact.go\<close>: what is taken out of log fields. The two regular expressions are data for a
  matcher with the semantics of the package \<open>regexp\<close>: the leftmost match, and among the matches that
  start there the one a backtracking search with greedy repetitions finds first. All classes of the two
  expressions are ASCII, so they are matched on bytes.
\<close>

section \<open>Regular expressions\<close>

text \<open>\<open>[class]{min,max}\<close>, without an upper bound for \<open>None\<close>, and \<open>\b\<close>.\<close>

datatype item = Rep "char \<Rightarrow> bool" nat "nat option" | Boundary

definition char_range :: "char \<Rightarrow> char \<Rightarrow> char \<Rightarrow> bool" where
  "char_range a b c \<longleftrightarrow> (of_char a :: nat) \<le> of_char c \<and> (of_char c :: nat) \<le> of_char b"

definition is_letter :: "char \<Rightarrow> bool" where
  "is_letter c \<longleftrightarrow> char_range CHR ''a'' CHR ''z'' c \<or> char_range CHR ''A'' CHR ''Z'' c"

definition is_digit :: "char \<Rightarrow> bool" where
  "is_digit c \<longleftrightarrow> char_range CHR ''0'' CHR ''9'' c"

definition is_word :: "char \<Rightarrow> bool" where
  "is_word c \<longleftrightarrow> is_letter c \<or> is_digit c \<or> c = CHR ''_''"

definition is_local :: "char \<Rightarrow> bool" where
  "is_local c \<longleftrightarrow> is_letter c \<or> is_digit c \<or> c \<in> set ''._%+-''"

definition is_domain :: "char \<Rightarrow> bool" where
  "is_domain c \<longleftrightarrow> is_letter c \<or> is_digit c \<or> c \<in> set ''.-''"

text \<open>\<open>[a-zA-Z0-9._%+-]+@[a-zA-Z0-9.-]+\.[a-zA-Z]{2,}\<close>\<close>

definition emailRegex :: "item list" where
  "emailRegex = [Rep is_local 1 None, Rep ((=) CHR ''@'') 1 (Some 1), Rep is_domain 1 None,
     Rep ((=) CHR ''.'') 1 (Some 1), Rep is_letter 2 None]"

text \<open>\<open>\b\d{13,16}\b\<close>\<close>

definition creditCardRegex :: "item list" where
  "creditCardRegex = [Boundary, Rep is_digit 13 (Some 16), Boundary]"

fun word_at :: "char option \<Rightarrow> bool" where
  "word_at None = False"
| "word_at (Some c) = is_word c"

fun next_char :: "string \<Rightarrow> char option" where
  "next_char [] = None"
| "next_char (c # cs) = Some c"

text \<open>
  The matches that start here, in the order of preference; \<open>prev\<close> is the character before. A
  repetition tries the longest count first.
\<close>

definition at_most :: "nat option \<Rightarrow> nat \<Rightarrow> nat" where
  "at_most hi n = (case hi of None \<Rightarrow> n | Some h \<Rightarrow> min n h)"

definition char_before :: "char option \<Rightarrow> string \<Rightarrow> nat \<Rightarrow> char option" where
  "char_before prev s k = (if k = 0 then prev else Some (s ! (k - 1)))"

fun matches :: "item list \<Rightarrow> char option \<Rightarrow> string \<Rightarrow> string list" where
  "matches [] prev s = [[]]"
| "matches (Boundary # items) prev s =
     (if word_at prev \<noteq> word_at (next_char s) then matches items prev s else [])"
| "matches (Rep P lo hi # items) prev s =
     concat (map (\<lambda>k. map ((@) (take k s))
         (matches items (char_before prev s k) (drop k s)))
       (rev [lo ..< Suc (at_most hi (length (takeWhile P s)))]))"

text \<open>
  \<open>ReplaceAllStringFunc\<close>, and \<open>ReplaceAllString\<close> for a replacement without \<open>$\<close>. Neither expression
  matches the empty string, so an empty match needs no rule of its own.
\<close>

fun replace_all :: "item list \<Rightarrow> (string \<Rightarrow> string) \<Rightarrow> char option \<Rightarrow> string \<Rightarrow> string" where
  "replace_all items f prev [] = []"
| "replace_all items f prev (c # cs) =
     (case matches items prev (c # cs) of
        (x # m) # _ \<Rightarrow> f (x # m) @ replace_all items f (Some (last (x # m))) (drop (length m) cs)
      | _ \<Rightarrow> c # replace_all items f (Some c) cs)"

section \<open>Redaction\<close>

definition sensitiveKeys :: "string list" where
  "sensitiveKeys = [''password'', ''secret'', ''token'', ''authorization'', ''api_key'', ''apikey'',
     ''credit_card'', ''ssn'', ''cvv'']"

definition redactedValue :: string where
  "redactedValue = ''[REDACTED]''"

definition isSensitiveKey :: "(string \<Rightarrow> string) \<Rightarrow> string \<Rightarrow> bool" where
  "isSensitiveKey ul key \<longleftrightarrow> ToLower ul key \<in> set sensitiveKeys"

text \<open>\<open>strings.Split\<close> with a separator of one byte.\<close>

fun split_on :: "char \<Rightarrow> string \<Rightarrow> string list" where
  "split_on sep [] = [[]]"
| "split_on sep (c # cs) =
     (if c = sep then [] # split_on sep cs
      else (case split_on sep cs of [] \<Rightarrow> [[c]] | p # ps \<Rightarrow> (c # p) # ps))"

definition minLocalPartLength :: nat where [simp]: "minLocalPartLength = 2"

definition maskEmail :: "string \<Rightarrow> string" where
  "maskEmail email =
     (case split_on CHR ''@'' email of
        [name, domain] \<Rightarrow>
          (if length name \<le> minLocalPartLength then ''**@'' @ domain
           else take 1 name @ ''***'' @ drop (length name - 1) name @ ''@'' @ domain)
      | _ \<Rightarrow> email)"

definition redactString :: "string \<Rightarrow> string" where
  "redactString s =
     replace_all creditCardRegex (\<lambda>_. redactedValue) None (replace_all emailRegex maskEmail None s)"

text \<open>The fields are a Go map: the result is a new one with the same keys.\<close>

definition RedactFields :: "(string \<Rightarrow> string) \<Rightarrow> (string \<rightharpoonup> any) \<Rightarrow> (string \<rightharpoonup> any)" where
  "RedactFields ul kvs = (\<lambda>k.
     case kvs k of
       None \<Rightarrow> None
     | Some v \<Rightarrow>
         (if isSensitiveKey ul k then Some (AnyStr redactedValue)
          else (case v of AnyStr s \<Rightarrow> Some (AnyStr (redactString s)) | _ \<Rightarrow> Some v)))"

section \<open>Lemmas on the matcher\<close>

lemma classes_at [simp]:
  "\<not> is_local CHR ''@''" "\<not> is_domain CHR ''@''" "\<not> is_letter CHR ''@''" "is_domain CHR ''.''" "\<not> is_letter CHR ''.''"
  "\<not> is_digit CHR ''[''" "\<not> is_word CHR '']''" "\<not> is_digit CHR '']''"
  by (simp_all add: is_local_def is_domain_def is_letter_def is_digit_def is_word_def char_range_def)

lemma digit_is_word: "is_digit c \<Longrightarrow> is_word c"
  by (simp add: is_word_def)

lemma letter_is_domain: "is_letter c \<Longrightarrow> is_domain c"
  by (simp add: is_domain_def)

lemma takeWhile_end:
  "list_all P xs \<Longrightarrow> rest = [] \<or> \<not> P (hd rest) \<Longrightarrow> takeWhile P (xs @ rest) = xs"
  by (induction xs) (auto simp: takeWhile_eq_Nil_iff)

text \<open>The preferred match of a repetition: the longest count the rest of the pattern accepts.\<close>

lemma rep_first:
  assumes "n = at_most hi (length (takeWhile P s))" and "lo \<le> k" and "k \<le> n"
    and "\<And>j. k < j \<Longrightarrow> j \<le> n \<Longrightarrow> matches items (char_before prev s j) (drop j s) = []"
    and "\<exists>ms. matches items (char_before prev s k) (drop k s) = m # ms"
  shows "\<exists>ms. matches (Rep P lo hi # items) prev s = (take k s @ m) # ms"
proof -
  let ?f = "\<lambda>k. map ((@) (take k s)) (matches items (char_before prev s k) (drop k s))"
  have "[lo ..< Suc n] = [lo ..< k] @ [k ..< Suc n]"
    using upt_add_eq_append [of lo k "Suc n - k"] assms(2,3) by simp
  also have "[k ..< Suc n] = k # [Suc k ..< Suc n]"
    using assms(3) by (simp add: upt_conv_Cons del: upt_Suc)
  finally have split: "rev [lo ..< Suc n] = rev [Suc k ..< Suc n] @ k # rev [lo ..< k]"
    by (simp del: upt_Suc)
  have none: "concat (map ?f (rev [Suc k ..< Suc n])) = []"
    using assms(4) by (simp add: concat_eq_Nil_conv del: upt_Suc)
  have "matches (Rep P lo hi # items) prev s = ?f k @ concat (map ?f (rev [lo ..< k]))"
    by (simp only: matches.simps assms(1) [symmetric] split map_append concat_append none
        list.map concat.simps append_Nil)
  with assms(5) show ?thesis by auto
qed

lemma rep_none:
  assumes "\<And>j. lo \<le> j \<Longrightarrow> j \<le> at_most hi (length (takeWhile P s)) \<Longrightarrow>
    matches items (char_before prev s j) (drop j s) = []"
  shows "matches (Rep P lo hi # items) prev s = []"
  using assms by (simp add: concat_eq_Nil_conv del: upt_Suc)

lemma rep_starts_with:
  "matches (Rep P (Suc lo) hi # items) prev s \<noteq> [] \<Longrightarrow> s \<noteq> [] \<and> P (hd s)"
  by (cases s) (auto simp: at_most_def split: option.splits if_splits)

section \<open>Card numbers\<close>

lemma card_inner:
  assumes "k < length (takeWhile is_digit s)"
  shows "word_at (next_char (drop k s))" and "is_word (s ! k)"
proof -
  have "drop k s = s ! k # drop (Suc k) s"
    using assms length_takeWhile_le [of is_digit s] by (simp add: Cons_nth_drop_Suc)
  moreover show "is_word (s ! k)"
    using assms by (metis digit_is_word nth_mem set_takeWhileD takeWhile_nth)
  ultimately show "word_at (next_char (drop k s))" by simp
qed

text \<open>The only match there can be is the whole run of digits, with nothing of a word around it.\<close>

lemma card_matches:
  "matches creditCardRegex prev s =
     (let d = takeWhile is_digit s in
      if \<not> word_at prev \<and> 13 \<le> length d \<and> length d \<le> 16 \<and> \<not> word_at (next_char (dropWhile is_digit s))
      then [d] else [])"
proof -
  let ?d = "takeWhile is_digit s"
  let ?n = "length ?d"
  let ?stop = "\<not> word_at (next_char (dropWhile is_digit s))"
  have tail: "matches [Boundary] (char_before prev s k) (drop k s) = (if k = ?n \<and> ?stop then [[]] else [])"
    if k: "13 \<le> k" "k \<le> ?n" for k
  proof -
    have before: "word_at (char_before prev s k)"
      using card_inner(2) [of "k - 1" s] k by (simp add: char_before_def)
    show ?thesis
    proof (cases "k < ?n")
      case True
      with card_inner(1) [OF True] before show ?thesis by simp
    next
      case False
      then have "k = ?n" using k by simp
      then show ?thesis using before by (simp flip: dropWhile_eq_drop)
    qed
  qed
  have rep: "matches [Rep is_digit 13 (Some 16), Boundary] prev s =
      (if 13 \<le> ?n \<and> ?n \<le> 16 \<and> ?stop then [?d] else [])"
  proof (cases "13 \<le> ?n \<and> ?n \<le> 16 \<and> ?stop")
    case True
    let ?f = "\<lambda>k. map ((@) (take k s)) (matches [Boundary] (char_before prev s k) (drop k s))"
    have range: "rev [13 ..< Suc (min ?n 16)] = ?n # rev [13 ..< ?n]" using True by simp
    have none: "concat (map ?f (rev [13 ..< ?n])) = []"
      using tail by (simp add: concat_eq_Nil_conv del: matches.simps)
    have one: "?f ?n = [?d]" using tail [of ?n] True by (simp flip: takeWhile_eq_take del: matches.simps)
    have "matches [Rep is_digit 13 (Some 16), Boundary] prev s = [?d]"
      by (simp only: matches.simps(3) at_most_def option.case range list.map concat.simps none one append_Nil2)
    with True show ?thesis by simp
  next
    case False
    then show ?thesis
      by (simp only: if_False) (rule rep_none, use tail in \<open>auto simp: at_most_def simp del: matches.simps\<close>)
  qed
  have start: "word_at (next_char s)" if "13 \<le> ?n"
    using card_inner(1) [of 0 s] that by fastforce
  show ?thesis
    unfolding creditCardRegex_def Let_def
    using rep start by (auto simp del: matches.simps(3))
qed

definition redact_cards :: "char option \<Rightarrow> string \<Rightarrow> string" where
  "redact_cards prev s = replace_all creditCardRegex (\<lambda>_. redactedValue) prev s"

lemma redact_cards_Nil [simp]: "redact_cards prev [] = []"
  by (simp add: redact_cards_def)

lemma redact_cards_Cons:
  "redact_cards prev (c # cs) =
     (if matches creditCardRegex prev (c # cs) = [] then c # redact_cards (Some c) cs
      else redactedValue @ redact_cards (Some (last (takeWhile is_digit (c # cs)))) (dropWhile is_digit (c # cs)))"
proof (cases "matches creditCardRegex prev (c # cs) = []")
  case False
  then have m: "matches creditCardRegex prev (c # cs) = [takeWhile is_digit (c # cs)]"
    and "13 \<le> length (takeWhile is_digit (c # cs))"
    by (auto simp: card_matches Let_def split: if_splits)
  then have c: "is_digit c" by (cases "is_digit c") auto
  have "drop (length (takeWhile is_digit cs)) cs = dropWhile is_digit cs" by (simp add: dropWhile_eq_drop)
  with m c show ?thesis by (simp add: redact_cards_def)
qed (simp add: redact_cards_def)

text \<open>Inside a word nothing is replaced until the word ends.\<close>

lemma redact_cards_word:
  "word_at prev \<Longrightarrow> takeWhile is_digit (redact_cards prev s) = takeWhile is_digit s \<and>
     word_at (next_char (dropWhile is_digit (redact_cards prev s))) = word_at (next_char (dropWhile is_digit s))"
proof (induction s arbitrary: prev)
  case (Cons c cs)
  then have "redact_cards prev (c # cs) = c # redact_cards (Some c) cs"
    by (simp add: redact_cards_Cons card_matches)
  then show ?case using Cons.IH [of "Some c"] by (simp add: digit_is_word)
qed simp

text \<open>Where a match starts in a text, if one does.\<close>

fun has_match :: "item list \<Rightarrow> char option \<Rightarrow> string \<Rightarrow> bool" where
  "has_match items prev [] = (matches items prev [] \<noteq> [])"
| "has_match items prev (c # cs) = (matches items prev (c # cs) \<noteq> [] \<or> has_match items (Some c) cs)"

lemma has_match_at:
  "matches items (if pre = [] then prev else Some (last pre)) s \<noteq> [] \<Longrightarrow> has_match items prev (pre @ s)"
  by (induction pre arbitrary: prev) (auto split: if_splits, cases s, auto)

lemma no_card_without_digit: "s = [] \<or> \<not> is_digit (hd s) \<Longrightarrow> matches creditCardRegex prev s = []"
  by (cases s) (auto simp: card_matches)

lemma no_card_in_literal:
  "list_all (\<lambda>c. \<not> is_digit c) t \<Longrightarrow> t \<noteq> [] \<Longrightarrow>
     has_match creditCardRegex prev (t @ s) = has_match creditCardRegex (Some (last t)) s"
  by (induction t arbitrary: prev) (auto simp: no_card_without_digit)

lemma has_match_prev:
  "s = [] \<or> \<not> is_digit (hd s) \<Longrightarrow> has_match creditCardRegex p s = has_match creditCardRegex q s"
  by (cases s) (auto simp: no_card_without_digit)

lemma redact_cards_clean: "\<not> has_match creditCardRegex prev (redact_cards prev s)"
proof (induction s arbitrary: prev rule: length_induct)
  case (1 s)
  show ?case
  proof (cases s)
    case Nil
    then show ?thesis by (simp add: no_card_without_digit)
  next
    case (Cons c cs)
    show ?thesis
    proof (cases "matches creditCardRegex prev s = []")
      case True
      let ?Y = "redact_cards (Some c) cs"
      have out: "redact_cards prev s = c # ?Y" using True Cons by (simp add: redact_cards_Cons)
      have "matches creditCardRegex prev (c # ?Y) = []"
      proof (cases "is_digit c")
        case True
        with redact_cards_word [of "Some c" cs] \<open>matches creditCardRegex prev s = []\<close> Cons
        show ?thesis by (simp add: card_matches Let_def digit_is_word split: if_splits)
      qed (simp add: no_card_without_digit)
      with out Cons 1 [rule_format, of cs "Some c"] show ?thesis by simp
    next
      case False
      let ?d = "takeWhile is_digit s" and ?rest = "dropWhile is_digit s"
      let ?X = "redact_cards (Some (last ?d)) ?rest"
      have out: "redact_cards prev s = redactedValue @ ?X" using False Cons by (simp add: redact_cards_Cons)
      have edge: "\<not> word_at (next_char ?rest)" "?d \<noteq> []"
        using False by (auto simp: card_matches Let_def split: if_splits)
      have "length ?rest < length s"
        using edge(2) by (metis takeWhile_dropWhile_id length_append length_greater_0_conv less_add_same_cancel2)
      then have IH: "\<not> has_match creditCardRegex (Some (last ?d)) ?X" using 1 by blast
      have "?X = [] \<or> \<not> is_digit (hd ?X)"
      proof (cases ?rest)
        case (Cons x xs)
        with edge(1) have "\<not> is_word x" by simp
        then have "\<not> is_digit x" using digit_is_word by blast
        then have "\<exists>ys. redact_cards (Some (last ?d)) (x # xs) = x # ys"
          by (simp add: redact_cards_Cons no_card_without_digit)
        with Cons \<open>\<not> is_digit x\<close> show ?thesis by auto
      next
        case Nil
        then show ?thesis by (simp only: redact_cards_Nil) simp
      qed
      then have "\<not> has_match creditCardRegex (Some (last redactedValue)) ?X"
        using IH has_match_prev by blast
      moreover have "list_all (\<lambda>c. \<not> is_digit c) redactedValue" "redactedValue \<noteq> []"
        by (simp_all add: redactedValue_def is_digit_def char_range_def)
      ultimately show ?thesis using out no_card_in_literal by simp
    qed
  qed
qed

section \<open>Email addresses\<close>

text \<open>Text in front of an address that cannot belong to it is copied.\<close>

lemma no_email_before_at:
  assumes "CHR ''@'' \<notin> set p" and "p \<noteq> []" and "\<not> is_local (last p)"
  shows "matches emailRegex prev (p @ s) = []"
  unfolding emailRegex_def
proof (rule rep_none)
  fix j assume "j \<le> at_most None (length (takeWhile is_local (p @ s)))"
  moreover have "length (takeWhile is_local (p @ s)) < length p"
  proof -
    have "last p \<in> set p" using assms(2) by simp
    then have "takeWhile is_local (p @ s) = takeWhile is_local p" using assms(3) by (rule takeWhile_append1)
    moreover have "takeWhile is_local p \<noteq> p" using assms(2,3) by (metis last_in_set set_takeWhileD)
    ultimately show ?thesis
      by (metis length_takeWhile_le le_neq_implies_less takeWhile_eq_take take_all_iff order_refl)
  qed
  ultimately have j: "j < length p" by (simp add: at_most_def)
  then have "drop j (p @ s) = p ! j # drop (Suc j) (p @ s)" by (simp add: Cons_nth_drop_Suc nth_append)
  moreover have "p ! j \<noteq> CHR ''@''" using j assms(1) by (metis nth_mem)
  ultimately show "matches [Rep ((=) CHR ''@'') 1 (Some 1), Rep is_domain 1 None,
      Rep ((=) CHR ''.'') 1 (Some 1), Rep is_letter 2 None] (char_before prev (p @ s) j) (drop j (p @ s)) = []"
    using rep_starts_with [of "(=) CHR ''@''" 0 "Some 1"] by (metis One_nat_def list.sel(1))
qed

lemma copy_before_email:
  assumes "CHR ''@'' \<notin> set p" and "p = [] \<or> \<not> is_local (last p)"
  shows "\<exists>prev'. replace_all emailRegex f prev (p @ s) = p @ replace_all emailRegex f prev' s"
  using assms
proof (induction p arbitrary: prev)
  case (Cons c p)
  then have "matches emailRegex prev ((c # p) @ s) = []" by (intro no_email_before_at) auto
  then have "replace_all emailRegex f prev ((c # p) @ s) = c # replace_all emailRegex f (Some c) (p @ s)"
    by simp
  moreover obtain prev' where "replace_all emailRegex f (Some c) (p @ s) = p @ replace_all emailRegex f prev' s"
    using Cons by (auto split: if_splits)
  ultimately show ?case by auto
qed auto

lemma email_match:
  assumes "name \<noteq> []" "list_all is_local name" "host \<noteq> []" "list_all is_domain host"
    and "2 \<le> length tld" "list_all is_letter tld" and "post = [] \<or> \<not> is_domain (hd post)"
  shows "\<exists>ms. matches emailRegex prev (name @ ''@'' @ host @ ''.'' @ tld @ post) =
    (name @ ''@'' @ host @ ''.'' @ tld) # ms"
proof -
  have post: "post = [] \<or> \<not> is_letter (hd post)" using assms(7) letter_is_domain by blast
  have tld: "\<exists>ms. matches [Rep is_letter 2 None] p (tld @ post) = tld # ms" for p
    using rep_first [of "length tld" None is_letter "tld @ post" 2 "length tld" "[]" p "[]"]
      takeWhile_end [OF assms(6) post] assms(5) by (simp add: at_most_def)
  have dot: "\<exists>ms. matches [Rep ((=) CHR ''.'') 1 (Some 1), Rep is_letter 2 None] p (''.'' @ tld @ post) =
      (''.'' @ tld) # ms" for p
    using rep_first [of 1 "Some 1" "(=) CHR ''.''" "''.'' @ tld @ post" 1 1 "[Rep is_letter 2 None]" p tld]
      tld by (simp add: at_most_def del: matches.simps)
  have host: "\<exists>ms. matches [Rep is_domain 1 None, Rep ((=) CHR ''.'') 1 (Some 1), Rep is_letter 2 None] p
      (host @ ''.'' @ tld @ post) = (host @ ''.'' @ tld) # ms" (is "\<exists>ms. matches (_ # ?items) p ?s = _") for p
  proof -
    let ?n = "length host + 1 + length tld"
    have "list_all is_domain (host @ ''.'' @ tld)"
      using assms(4,6) by (auto simp: list_all_iff letter_is_domain)
    then have run: "takeWhile is_domain ?s = host @ ''.'' @ tld"
      using takeWhile_end [of is_domain "host @ ''.'' @ tld" post] assms(7) by simp
    have none: "matches ?items q (drop j ?s) = []" if "length host < j" "j \<le> ?n" for q j
    proof (rule ccontr)
      assume "matches ?items q (drop j ?s) \<noteq> []"
      then have "drop j ?s \<noteq> []" "hd (drop j ?s) = CHR ''.''"
        using rep_starts_with [of "(=) CHR ''.''" 0 "Some 1"] by (metis One_nat_def)+
      moreover have "drop j ?s = drop (j - length host - 1) tld @ drop (j - length host - 1 - length tld) post"
        using that by (simp add: Suc_diff_Suc drop_Cons')
      moreover have "j - length host - 1 - length tld = 0" using that by simp
      ultimately have "CHR ''.'' \<in> set tld \<or> post \<noteq> [] \<and> hd post = CHR ''.''"
        by (metis append_Nil drop0 hd_append2 hd_in_set in_set_dropD)
      with assms(6,7) show False by (auto simp: list_all_iff)
    qed
    have "\<exists>ms. matches ?items (char_before p ?s (length host)) (drop (length host) ?s) = (''.'' @ tld) # ms"
      using dot by simp
    moreover have "1 \<le> length host" using assms(3) by (cases host) auto
    moreover have "?n = at_most None (length (takeWhile is_domain ?s))" unfolding run at_most_def by simp
    ultimately have "\<exists>ms. matches (Rep is_domain 1 None # ?items) p ?s =
        (take (length host) ?s @ ''.'' @ tld) # ms"
      using none by (intro rep_first [where n = ?n]) (simp_all del: matches.simps)
    then show ?thesis by (simp del: matches.simps)
  qed
  have at: "\<exists>ms. matches [Rep ((=) CHR ''@'') 1 (Some 1), Rep is_domain 1 None, Rep ((=) CHR ''.'') 1 (Some 1),
      Rep is_letter 2 None] p (''@'' @ host @ ''.'' @ tld @ post) = (''@'' @ host @ ''.'' @ tld) # ms" for p
    using rep_first [of 1 "Some 1" "(=) CHR ''@''" "''@'' @ host @ ''.'' @ tld @ post" 1 1
        "[Rep is_domain 1 None, Rep ((=) CHR ''.'') 1 (Some 1), Rep is_letter 2 None]" p "host @ ''.'' @ tld"]
      host by (simp add: at_most_def del: matches.simps)
  have "takeWhile is_local (name @ ''@'' @ host @ ''.'' @ tld @ post) = name"
    using takeWhile_end [OF assms(2), of "''@'' @ host @ ''.'' @ tld @ post"] by simp
  then show ?thesis
    unfolding emailRegex_def
    using rep_first [of "length name" None is_local "name @ ''@'' @ host @ ''.'' @ tld @ post" 1 "length name" _
        prev "''@'' @ host @ ''.'' @ tld"] at assms(1)
    by (simp add: at_most_def Suc_le_eq del: matches.simps)
qed

lemma split_on_none: "sep \<notin> set s \<Longrightarrow> split_on sep s = [s]"
  by (induction s) auto

lemma split_on_one: "sep \<notin> set a \<Longrightarrow> sep \<notin> set b \<Longrightarrow> split_on sep (a @ sep # b) = [a, b]"
  by (induction a) (auto simp: split_on_none)

section \<open>Properties\<close>



text \<open>
  C29. No card number survives in a log line: the redacted string holds no run of 13 to 16 digits that
  stands alone, that is with no letter, digit or underscore next to it.
\<close>

theorem no_card_number_survives:
  assumes "redactString s = pre @ d @ post" and "list_all is_digit d" and "13 \<le> length d" and "length d \<le> 16"
    and "\<not> word_at (next_char post)"
  shows "pre \<noteq> [] \<and> is_word (last pre)"
proof (rule ccontr)
  assume no: "\<not> (pre \<noteq> [] \<and> is_word (last pre))"
  have "post = [] \<or> \<not> is_digit (hd post)" using assms(5) digit_is_word by (cases post) auto
  then have d: "takeWhile is_digit (d @ post) = d" by (rule takeWhile_end [OF assms(2)])
  then have "dropWhile is_digit (d @ post) = post" by (simp add: dropWhile_eq_drop)
  with d assms(3-5) no have "matches creditCardRegex (if pre = [] then None else Some (last pre)) (d @ post) \<noteq> []"
    by (auto simp: card_matches)
  then have "has_match creditCardRegex None (pre @ d @ post)" by (rule has_match_at)
  then have "has_match creditCardRegex None (redactString s)" by (simp only: assms(1))
  then show False using redact_cards_clean unfolding redactString_def redact_cards_def by blast
qed

lemma redact_without_digits_or_at:
  "redactString ''x4111111111111'' = ''x4111111111111''"
  by (simp add: redactString_def emailRegex_def creditCardRegex_def at_most_def char_before_def is_local_def
      is_letter_def is_digit_def is_word_def char_range_def)

lemma no_card_number_survives_witness: "is_word CHR ''x''"
  using no_card_number_survives [of "''x4111111111111''" "''x''" "''4111111111111''" "[]"]
  by (simp add: redact_without_digits_or_at is_digit_def char_range_def)

text \<open>
  An email address in a text is masked: the first address keeps of its local part at most the first
  and the last character, or nothing when there are two or fewer, and the text before it is unchanged.
\<close>

theorem email_is_masked:
  assumes "name \<noteq> []" and "list_all is_local name" and "host \<noteq> []" and "list_all is_domain host"
    and "2 \<le> length tld" and "list_all is_letter tld" and "post = [] \<or> \<not> is_domain (hd post)"
    and "CHR ''@'' \<notin> set pre" and "pre = [] \<or> \<not> is_local (last pre)"
  shows "\<exists>rest. replace_all emailRegex maskEmail None (pre @ name @ ''@'' @ host @ ''.'' @ tld @ post) =
    pre @ (if length name \<le> 2 then ''**'' else [hd name] @ ''***'' @ [last name]) @ ''@'' @ host @ ''.'' @ tld @ rest"
proof -
  let ?email = "name @ ''@'' @ host @ ''.'' @ tld"
  obtain p where p: "replace_all emailRegex maskEmail None (pre @ ?email @ post) =
      pre @ replace_all emailRegex maskEmail p (?email @ post)"
    using copy_before_email [OF assms(8,9)] by blast
  obtain ms where ms: "matches emailRegex p (?email @ post) = ?email # ms"
    using email_match [OF assms(1-7), of p] by auto
  obtain x m where xm: "?email = x # m" using assms(1) by (cases name) auto
  then have out: "replace_all emailRegex maskEmail p (?email @ post) =
      maskEmail ?email @ replace_all emailRegex maskEmail (Some (last ?email)) post"
    using ms by simp
  have "CHR ''@'' \<notin> set name" "CHR ''@'' \<notin> set (host @ ''.'' @ tld)"
    using assms(2,4,6) letter_is_domain by (auto simp: list_all_iff)
  then have parts: "split_on CHR ''@'' ?email = [name, host @ ''.'' @ tld]"
    using split_on_one [of "CHR ''@''" name "host @ ''.'' @ tld"] by simp
  have ends: "take 1 name = [hd name]" "drop (length name - 1) name = [last name]"
    using assms(1) by (cases name, simp, simp)
       (metis append_butlast_last_id append_eq_conv_conj assms(1) length_butlast)
  have "maskEmail ?email =
      (if length name \<le> 2 then ''**'' else [hd name] @ ''***'' @ [last name]) @ ''@'' @ host @ ''.'' @ tld"
    unfolding maskEmail_def parts using ends by simp
  with p out show ?thesis by (intro exI) simp
qed

lemma email_is_masked_witness:
  "\<exists>rest. replace_all emailRegex maskEmail None ''User john@example.com logged in'' =
     ''User j***n@example.com'' @ rest"
  using email_is_masked [of "''john''" "''example''" "''com''" "'' logged in''" "''User ''"]
  by (simp add: is_local_def is_domain_def is_letter_def is_digit_def char_range_def)

text \<open>A card number written in groups of four has no run of 13 digits, so nothing of it is replaced.\<close>

lemma grouped_card_is_kept: "redactString ''card 4111 1111 1111 1111'' = ''card 4111 1111 1111 1111''"
  by code_simp

end
