(* ===== verification/Sampler.thy ===== *)
theory Sampler
  imports LogInterface
begin

text \<open>
  \<open>pkg/logger/sampler.go\<close>: the rate limit on debug and info lines. The counters are \<open>int64\<close> values with
  Go's wrap-around, compared as signed numbers. \<open>ShouldLog\<close> is given twice: as a function for one caller,
  and as the steps between its atomic operations for many.
\<close>

section \<open>One caller\<close>

record sampler =
  s_rate :: int64
  s_interval :: int64

record sampler_state =
  s_counter :: int64
  s_last_reset :: int64

text \<open>\<open>NewSampler\<close>; an \<open>int\<close> has 64 bits here, and so has a \<open>time.Duration\<close>.\<close>

definition NewSampler :: "int64 \<Rightarrow> int64 \<Rightarrow> int64 \<Rightarrow> (sampler \<times> sampler_state) outcome" where
  "NewSampler rate interval now =
     (if sint rate \<le> 0 then Panic ''sampler rate must be positive''
      else if sint interval \<le> 0 then Panic ''sampler interval must be positive''
      else Ret (\<lparr>s_rate = rate, s_interval = interval\<rparr>, \<lparr>s_counter = 0, s_last_reset = now\<rparr>))"

text \<open>\<open>now-lastReset > s.interval.Nanoseconds()\<close>.\<close>

definition expired :: "sampler \<Rightarrow> int64 \<Rightarrow> int64 \<Rightarrow> bool" where
  "expired s now seen \<longleftrightarrow> sint (s_interval s) < sint (now - seen)"

definition ShouldLog :: "sampler \<Rightarrow> int64 \<Rightarrow> sampler_state \<Rightarrow> bool \<times> sampler_state" where
  "ShouldLog s now st =
     (let st1 = (if expired s now (s_last_reset st)
                 then st\<lparr>s_last_reset := now, s_counter := 0\<rparr> else st);
          count = s_counter st1 + 1
      in (sint count \<le> sint (s_rate s), st1\<lparr>s_counter := count\<rparr>))"

fun should_logs :: "sampler \<Rightarrow> int64 list \<Rightarrow> sampler_state \<Rightarrow> bool list" where
  "should_logs s [] st = []"
| "should_logs s (now # nows) st = (let (b, st') = ShouldLog s now st in b # should_logs s nows st')"

section \<open>Many callers\<close>

text \<open>
  Where a goroutine is in \<open>ShouldLog\<close>: before it, with the clock read, with \<open>lastReset\<close> loaded, after a
  compare-and-swap it won, or before the atomic increment.
\<close>

datatype phase = Outside | Timed int64 | Loaded int64 int64 | Won | Counting

text \<open>
  The clock counts nanoseconds since 1970 and never goes back; \<open>UnixNano\<close> reads it as an \<open>int64\<close>. Four
  fields only count: the lines allowed, the swaps won, the resets done, the increments made.
\<close>

record sampler_run = sampler_state +
  clk :: int
  phase_of :: "nat \<Rightarrow> phase"
  allowed :: nat
  swaps :: nat
  resets :: nat
  adds :: nat

definition first_run :: "int \<Rightarrow> sampler_run" where
  "first_run now = \<lparr>s_counter = 0, s_last_reset = word_of_int now, clk = now, phase_of = (\<lambda>_. Outside),
     allowed = 0, swaps = 0, resets = 0, adds = 0\<rparr>"

definition goto :: "nat \<Rightarrow> phase \<Rightarrow> sampler_run \<Rightarrow> sampler_run" where
  "goto g p st = st\<lparr>phase_of := (phase_of st)(g := p)\<rparr>"

inductive sampler_step :: "sampler \<Rightarrow> sampler_run \<Rightarrow> sampler_run \<Rightarrow> bool" for s :: sampler where
  passes: "clk st \<le> t \<Longrightarrow> sampler_step s st (st\<lparr>clk := t\<rparr>)"
| clock: "phase_of st g = Outside \<Longrightarrow> sampler_step s st (goto g (Timed (word_of_int (clk st))) st)"
| load: "phase_of st g = Timed now \<Longrightarrow> sampler_step s st (goto g (Loaded now (s_last_reset st)) st)"
| fresh: "phase_of st g = Loaded now seen \<Longrightarrow> \<not> expired s now seen \<Longrightarrow>
    sampler_step s st (goto g Counting st)"
| swapped: "phase_of st g = Loaded now seen \<Longrightarrow> expired s now seen \<Longrightarrow> s_last_reset st = seen \<Longrightarrow>
    sampler_step s st (goto g Won (st\<lparr>s_last_reset := now, swaps := Suc (swaps st)\<rparr>))"
| lost: "phase_of st g = Loaded now seen \<Longrightarrow> expired s now seen \<Longrightarrow> s_last_reset st \<noteq> seen \<Longrightarrow>
    sampler_step s st (goto g Counting st)"
| reset: "phase_of st g = Won \<Longrightarrow>
    sampler_step s st (goto g Counting (st\<lparr>s_counter := 0, resets := Suc (resets st)\<rparr>))"
| count: "phase_of st g = Counting \<Longrightarrow> c = s_counter st + 1 \<Longrightarrow>
    sampler_step s st (goto g Outside (st\<lparr>s_counter := c, adds := Suc (adds st),
      allowed := (if sint c \<le> sint (s_rate s) then Suc (allowed st) else allowed st)\<rparr>))"

inductive sampler_reach :: "sampler \<Rightarrow> int \<Rightarrow> sampler_run \<Rightarrow> bool" for s :: sampler and now :: int where
  start: "sampler_reach s now (first_run now)"
| step: "sampler_reach s now st \<Longrightarrow> sampler_step s st st' \<Longrightarrow> sampler_reach s now st'"

lemma goto_sel [simp]:
  "s_counter (goto g p st) = s_counter st" "s_last_reset (goto g p st) = s_last_reset st"
  "allowed (goto g p st) = allowed st" "resets (goto g p st) = resets st" "adds (goto g p st) = adds st"
  "swaps (goto g p st) = swaps st" "clk (goto g p st) = clk st"
  "phase_of (goto g p st) = (phase_of st)(g := p)"
  by (simp_all add: goto_def)

section \<open>Lemmas\<close>

text \<open>A count below \<open>2 ^ 63\<close> is read the same signed and unsigned.\<close>

lemma sint_small:
  fixes c :: int64
  assumes "unat c < 2 ^ 63"
  shows "sint c = int (unat c)"
proof -
  have "int (unat c) < int (2 ^ 63)" using assms by (simp only: of_nat_less_iff)
  then have "uint c < 2 ^ 63" by simp
  moreover have "- (2 ^ 63) \<le> uint c" by (rule order_trans [OF _ uint_ge_0]) simp
  ultimately have "signed_take_bit 63 (uint c) = uint c"
    by (intro signed_take_bit_int_eq_self)
  then show ?thesis by (simp add: sint_uint)
qed

lemma unat_Suc_small:
  fixes c :: int64
  assumes "unat c < 2 ^ 63"
  shows "unat (c + 1) = Suc (unat c)"
  using assms by (simp add: unat_plus_if_size word_size)

text \<open>The signed rate as a number, for a sampler that \<open>NewSampler\<close> made.\<close>

definition rate_of :: "sampler \<Rightarrow> nat" where
  "rate_of s = nat (sint (s_rate s))"

lemma rate_check:
  fixes c :: int64
  assumes "unat c < 2 ^ 63"
  shows "sint c \<le> sint (s_rate s) \<longleftrightarrow> unat c \<le> rate_of s \<and> (unat c = 0 \<longrightarrow> 0 \<le> sint (s_rate s))"
  unfolding sint_small [OF assms] rate_of_def by arith

text \<open>
  Since the last reset at most \<open>rate\<close> lines were allowed, and at most \<open>rate\<close> between any two.
\<close>

definition sampler_inv :: "sampler \<Rightarrow> sampler_run \<Rightarrow> bool" where
  "sampler_inv s st \<longleftrightarrow> unat (s_counter st) \<le> adds st \<and>
     allowed st \<le> rate_of s * resets st + min (rate_of s) (unat (s_counter st))"

lemma sampler_inv_step:
  assumes "sampler_step s st st'" and "sampler_inv s st" and "adds st' < 2 ^ 63"
  shows "sampler_inv s st'"
  using assms
proof (induction rule: sampler_step.induct)
  case (reset st g)
  then show ?case by (auto simp: sampler_inv_def)
next
  case (count st g c)
  have small: "unat (s_counter st) < 2 ^ 63" "unat (s_counter st) + 1 < 2 ^ 63"
    using count.prems by (auto simp: sampler_inv_def)
  then have c: "unat c = Suc (unat (s_counter st))"
    using count.hyps(2) unat_Suc_small by simp
  then have "sint c \<le> sint (s_rate s) \<longleftrightarrow> Suc (unat (s_counter st)) \<le> rate_of s"
    using rate_check [of c s] small(2) by simp
  with count.prems c show ?case by (auto simp: sampler_inv_def)
qed (auto simp: sampler_inv_def)

lemma adds_grow: "sampler_step s st st' \<Longrightarrow> adds st \<le> adds st'"
  by (induction rule: sampler_step.induct) auto

lemma sampler_inv_reach: "sampler_reach s now st \<Longrightarrow> adds st < 2 ^ 63 \<Longrightarrow> sampler_inv s st"
proof (induction rule: sampler_reach.induct)
  case start
  then show ?case by (simp add: sampler_inv_def first_run_def)
next
  case (step st st')
  with adds_grow [OF step.hyps(2)] show ?case by (intro sampler_inv_step [OF step.hyps(2)]) auto
qed

text \<open>
  Every reset was paid for with an interval: the time stamp moves on by more than the interval with
  every swap that is won, and it is never ahead of the clock. Readings of the clock are not negative
  as long as it fits 63 bits (until the year 2262), so the differences do not wrap around.
\<close>

lemma sint_diff:
  fixes a b :: int64
  assumes "0 \<le> sint a" and "0 \<le> sint b"
  shows "sint (a - b) = sint a - sint b"
proof -
  have "sint a < 2 ^ 63" "sint b < 2 ^ 63"
    using sint_lt [of a] sint_lt [of b] by simp_all
  then have "signed_take_bit 63 (sint a - sint b) = sint a - sint b"
    using assms by (intro signed_take_bit_int_eq_self) auto
  then show ?thesis by (simp add: sint_word_ariths)
qed

lemma sint_reading: "0 \<le> t \<Longrightarrow> t < 2 ^ 63 \<Longrightarrow> sint (word_of_int t :: int64) = t"
  by (simp add: sint_sbintrunc' signed_take_bit_int_eq_self)

definition reading_ok :: "sampler_run \<Rightarrow> int64 \<Rightarrow> bool" where
  "reading_ok st w \<longleftrightarrow> 0 \<le> sint w \<and> sint w \<le> clk st"

definition won :: "sampler_run \<Rightarrow> nat set" where
  "won st = {g. phase_of st g = Won}"

definition paced :: "sampler \<Rightarrow> int \<Rightarrow> sampler_run \<Rightarrow> bool" where
  "paced s start st \<longleftrightarrow> reading_ok st (s_last_reset st) \<and>
     (\<forall>g now. phase_of st g = Timed now \<longrightarrow> reading_ok st now) \<and>
     (\<forall>g now seen. phase_of st g = Loaded now seen \<longrightarrow> reading_ok st now) \<and>
     start + int (swaps st) * sint (s_interval s) \<le> sint (s_last_reset st) \<and>
     finite (won st) \<and> resets st + card (won st) = swaps st"

lemma won_goto:
  "won (goto g p st) = (if p = Won then insert g (won st) else won st - {g})"
  by (auto simp: won_def goto_def)

lemma won_frame [simp]:
  "won (st\<lparr>s_counter := c\<rparr>) = won st" "won (st\<lparr>s_last_reset := t\<rparr>) = won st" "won (st\<lparr>clk := k\<rparr>) = won st"
  "won (st\<lparr>allowed := n\<rparr>) = won st" "won (st\<lparr>swaps := n\<rparr>) = won st" "won (st\<lparr>resets := n\<rparr>) = won st"
  "won (st\<lparr>adds := n\<rparr>) = won st"
  by (simp_all add: won_def)

lemma reading_ok_frame [simp]:
  "reading_ok (goto g p st) w = reading_ok st w" "reading_ok (st\<lparr>s_counter := c\<rparr>) w = reading_ok st w"
  "reading_ok (st\<lparr>s_last_reset := t\<rparr>) w = reading_ok st w" "reading_ok (st\<lparr>allowed := n\<rparr>) w = reading_ok st w"
  "reading_ok (st\<lparr>swaps := n\<rparr>) w = reading_ok st w" "reading_ok (st\<lparr>resets := n\<rparr>) w = reading_ok st w"
  "reading_ok (st\<lparr>adds := n\<rparr>) w = reading_ok st w"
  by (simp_all add: reading_ok_def)

lemma clk_grows: "sampler_step s st st' \<Longrightarrow> clk st \<le> clk st'"
  by (induction rule: sampler_step.induct) auto

lemma paced_step:
  assumes "sampler_step s st st'" and "paced s start st" and "clk st' < 2 ^ 63"
  shows "paced s start st'"
  using assms
proof (induction rule: sampler_step.induct)
  case (passes st t)
  then show ?case by (fastforce simp: paced_def reading_ok_def)
next
  case (clock st g)
  then have "reading_ok st (word_of_int (clk st))"
    by (auto simp: paced_def reading_ok_def sint_reading)
  moreover have "g \<notin> won st" using clock.hyps by (simp add: won_def)
  ultimately show ?case using clock.prems by (auto simp: paced_def won_goto)
next
  case (load st g now)
  moreover have "g \<notin> won st" using load.hyps by (simp add: won_def)
  ultimately show ?case by (auto simp: paced_def won_goto)
next
  case (fresh st g now seen)
  moreover have "g \<notin> won st" using fresh.hyps by (simp add: won_def)
  ultimately show ?case by (auto simp: paced_def won_goto)
next
  case (swapped st g now seen)
  then have ok: "reading_ok st now" "reading_ok st (s_last_reset st)"
    unfolding paced_def by blast+
  then have "sint (now - s_last_reset st) = sint now - sint (s_last_reset st)"
    by (intro sint_diff) (auto simp: reading_ok_def)
  with swapped.hyps have "sint (s_last_reset st) + sint (s_interval s) < sint now"
    by (simp add: expired_def)
  moreover have "g \<notin> won st" using swapped.hyps by (simp add: won_def)
  ultimately show ?case
    using swapped.prems ok(1) by (auto simp: paced_def won_goto algebra_simps)
next
  case (lost st g now seen)
  moreover have "g \<notin> won st" using lost.hyps by (simp add: won_def)
  ultimately show ?case by (auto simp: paced_def won_goto)
next
  case (reset st g)
  have "g \<in> won st" using reset.hyps by (simp add: won_def)
  moreover from this have "card (won st) = Suc (card (won st - {g}))" if "finite (won st)"
    using that by (metis card_Suc_Diff1)
  ultimately show ?case using reset.prems by (auto simp: paced_def won_goto)
next
  case (count st g c)
  moreover have "g \<notin> won st" using count.hyps by (simp add: won_def)
  ultimately show ?case by (auto simp: paced_def won_goto)
qed

lemma paced_reach:
  "sampler_reach s start st \<Longrightarrow> 0 \<le> start \<Longrightarrow> clk st < 2 ^ 63 \<Longrightarrow> paced s start st"
proof (induction rule: sampler_reach.induct)
  case start
  then show ?case by (simp add: paced_def first_run_def reading_ok_def won_def sint_reading)
next
  case (step st st')
  with clk_grows [OF step.hyps(2)] show ?case by (intro paced_step [OF step.hyps(2)]) auto
qed

text \<open>So the number of resets is bounded by the intervals that have passed.\<close>

lemma resets_bound:
  assumes "paced s start st" and "0 < sint (s_interval s)"
  shows "int (resets st) \<le> (clk st - start) div sint (s_interval s)"
proof -
  have "start + int (swaps st) * sint (s_interval s) \<le> clk st" "resets st \<le> swaps st"
    using assms(1) by (auto simp: paced_def reading_ok_def)
  moreover from this(2) assms(2) have "int (resets st) * sint (s_interval s) \<le> int (swaps st) * sint (s_interval s)"
    by (intro mult_right_mono) auto
  ultimately have "int (resets st) * sint (s_interval s) \<le> clk st - start" by simp
  then have "int (resets st) * sint (s_interval s) div sint (s_interval s) \<le> (clk st - start) div sint (s_interval s)"
    using assms(2) by (rule zdiv_mono1)
  with assms(2) show ?thesis by simp
qed

text \<open>One caller within one interval.\<close>

lemma should_logs_same_interval:
  assumes "list_all (\<lambda>t. \<not> expired s t (s_last_reset st)) nows"
    and "unat (s_counter st) + length nows < 2 ^ 63"
  shows "should_logs s nows st =
    map (\<lambda>i. unat (s_counter st) + i < rate_of s) [0..<length nows]"
  using assms
proof (induction nows arbitrary: st)
  case (Cons t nows)
  let ?st = "st\<lparr>s_counter := s_counter st + 1\<rparr>"
  have c: "unat (s_counter st + 1) = Suc (unat (s_counter st))"
    using Cons.prems(2) by (intro unat_Suc_small) simp
  then have "sint (s_counter st + 1) \<le> sint (s_rate s) \<longleftrightarrow> unat (s_counter st) < rate_of s"
    using rate_check [of "s_counter st + 1" s] Cons.prems(2) by auto
  then have now: "ShouldLog s t st = (unat (s_counter st) < rate_of s, ?st)"
    using Cons.prems(1) by (simp add: ShouldLog_def Let_def)
  have "should_logs s nows ?st = map (\<lambda>i. Suc (unat (s_counter st)) + i < rate_of s) [0..<length nows]"
    using Cons.IH [of ?st] Cons.prems c by simp
  moreover have "[0..<length (t # nows)] = 0 # map Suc [0..<length nows]"
    by (simp add: map_Suc_upt upt_conv_Cons del: upt_Suc)
  ultimately show ?case using now by (simp add: comp_def del: upt_Suc)
qed simp

section \<open>The sampled logger\<close>

text \<open>The world of a sampled logger: the one below it, the sampler's counters, and the clock.\<close>

record 'w sampled =
  below :: 'w
  counters :: sampler_state
  readings :: nat
  nanos :: "nat \<Rightarrow> int64"

definition if_sampled :: "sampler \<Rightarrow> ('w \<Rightarrow> 'w) \<Rightarrow> 'w sampled \<Rightarrow> 'w sampled" where
  "if_sampled s act w =
     (let (b, st) = ShouldLog s (nanos w (readings w)) (counters w);
          w' = w\<lparr>counters := st, readings := Suc (readings w)\<rparr>
      in if b then w'\<lparr>below := act (below w')\<rparr> else w')"

definition always :: "('w \<Rightarrow> 'w) \<Rightarrow> 'w sampled \<Rightarrow> 'w sampled" where
  "always act w = w\<lparr>below := act (below w)\<rparr>"

definition SampledLogger :: "'w logger \<Rightarrow> sampler \<Rightarrow> 'w sampled logger" where
  "SampledLogger l s = \<lparr>lg_Debug = (\<lambda>m args. if_sampled s (lg_Debug l m args)),
     lg_Info = (\<lambda>m args. if_sampled s (lg_Info l m args)),
     lg_Warn = (\<lambda>m args. always (lg_Warn l m args)),
     lg_Error = (\<lambda>m args. always (lg_Error l m args)),
     lg_Fatal = (\<lambda>m args. always (lg_Fatal l m args))\<rparr>"

text \<open>It is a quiet logger over whatever the one below leaves alone.\<close>

lemma SampledLogger_quiet:
  assumes "quiet_logger l view"
  shows "quiet_logger (SampledLogger l s) (\<lambda>w. view (below w))"
  using assms
  by unfold_locales
     (auto simp: SampledLogger_def if_sampled_def always_def Let_def quiet_logger.info_view
       quiet_logger.warn_view quiet_logger.error_view split: prod.splits)

section \<open>Properties\<close>

definition sample_sampler :: "int64 \<Rightarrow> sampler" where
  "sample_sampler rate = \<lparr>s_rate = rate, s_interval = 100\<rparr>"

text \<open>
  C30. The rate holds over time: with any number of goroutines in \<open>ShouldLog\<close> of a sampler that
  \<open>NewSampler\<close> made, in any interleaving of its atomic operations, the lines allowed by the time the
  clock shows \<open>clk\<close> are at most the rate times one more than the number of whole intervals since the
  start, as long as the clock does not go back and stays below \<open>2 ^ 63\<close> nanoseconds and fewer than
  \<open>2 ^ 63\<close> increments were made.
\<close>

theorem sampler_keeps_the_rate:
  assumes "NewSampler rate interval (word_of_int start) = Ret (s, st0)" and "0 \<le> start"
    and "sampler_reach s start st" and "clk st < 2 ^ 63" and "adds st < 2 ^ 63"
  shows "int (allowed st) \<le> sint rate * ((clk st - start) div sint interval + 1)"
proof -
  have s: "s_rate s = rate" "s_interval s = interval" "0 < sint rate" "0 < sint interval"
    using assms(1) by (auto simp: NewSampler_def split: if_splits)
  have "allowed st \<le> rate_of s * resets st + min (rate_of s) (unat (s_counter st))"
    using sampler_inv_reach [OF assms(3,5)] by (simp add: sampler_inv_def)
  also have "\<dots> \<le> rate_of s * (resets st + 1)" by simp
  finally have "int (allowed st) \<le> int (rate_of s * (resets st + 1))" by (simp only: of_nat_le_iff)
  also have "\<dots> = sint rate * (int (resets st) + 1)"
    using s by (simp add: rate_of_def distrib_left)
  also have "\<dots> \<le> sint rate * ((clk st - start) div sint interval + 1)"
    using resets_bound [OF paced_reach [OF assms(3,2,4)]] s by (intro mult_left_mono) auto
  finally show ?thesis .
qed

text \<open>
  A single caller gets exactly its share: within one interval the first \<open>rate\<close> calls are allowed and
  every later one is not.
\<close>

theorem first_rate_calls_pass:
  assumes "NewSampler rate interval t = Ret (s, st)" and "list_all (\<lambda>t'. \<not> expired s t' t) nows"
    and "length nows < 2 ^ 63"
  shows "should_logs s nows st = map (\<lambda>i. i < nat (sint rate)) [0..<length nows]"
proof -
  have "s_rate s = rate" "s_last_reset st = t" "s_counter st = 0"
    using assms(1) by (auto simp: NewSampler_def split: if_splits)
  with should_logs_same_interval [of s st nows] assms(2,3) show ?thesis
    by (simp add: rate_of_def)
qed

lemma first_rate_calls_pass_witness:
  "should_logs (sample_sampler 2) [0, 10, 20] \<lparr>s_counter = 0, s_last_reset = 0\<rparr> = [True, True, False]"
proof -
  have "NewSampler 2 100 0 = Ret (sample_sampler 2, \<lparr>s_counter = 0, s_last_reset = 0\<rparr>)"
    by (simp add: NewSampler_def sample_sampler_def)
  from first_rate_calls_pass [OF this, of "[0, 10, 20]"] show ?thesis
    by (simp add: expired_def sample_sampler_def upt_rec)
qed

text \<open>
  The reset is not atomic with the swap of the time stamp: two goroutines can get two lines through in
  the same instant with a rate of one line per interval.
\<close>

theorem race_lets_two_lines_through:
  "\<exists>st. sampler_reach (sample_sampler 1) 0 st \<and> resets st = 1 \<and> allowed st = 2 \<and> s_last_reset st = 200 \<and>
     clk st = 200 \<and> adds st = 2"
proof -
  let ?s = "sample_sampler 1"
  define z where "z = (first_run 0)\<lparr>clk := 200\<rparr>"
  define a where "a = goto 0 (Timed 200) z"
  define b where "b = goto 0 (Loaded 200 0) a"
  define c where "c = goto 0 Won (b\<lparr>s_last_reset := 200, swaps := 1\<rparr>)"
  define d where "d = goto 1 (Timed 200) c"
  define e where "e = goto 1 (Loaded 200 200) d"
  define f where "f = goto 1 Counting e"
  define g where "g = goto 1 Outside (f\<lparr>s_counter := 1, adds := 1, allowed := 1\<rparr>)"
  define h where "h = goto 0 Counting (g\<lparr>s_counter := 0, resets := 1\<rparr>)"
  define i where "i = goto 0 Outside (h\<lparr>s_counter := 1, adds := Suc 1, allowed := Suc 1\<rparr>)"
  note defs = z_def a_def b_def c_def d_def e_def f_def g_def h_def i_def first_run_def goto_def
    expired_def sample_sampler_def
  have zero: "sampler_step ?s (first_run 0) z"
    using passes [of "first_run 0" 200 ?s] by (simp add: defs)
  have one: "sampler_step ?s z a" "sampler_step ?s a b" "sampler_step ?s b c"
    using clock [of z 0 ?s] load [of a 0 200 ?s] swapped [of b 0 200 0 ?s]
    by (simp_all add: defs)
  have two: "sampler_step ?s c d" "sampler_step ?s d e" "sampler_step ?s e f"
    using clock [of c 1 ?s] load [of d 1 200 ?s] fresh [of e 1 200 200 ?s]
    by (simp_all add: defs)
  have three: "sampler_step ?s f g" "sampler_step ?s g h" "sampler_step ?s h i"
    using sampler_step.count [of f 1 1 ?s] sampler_step.reset [of g 0 ?s] sampler_step.count [of h 0 1 ?s]
    by (simp_all add: defs)
  have "sampler_reach ?s 0 c"
    by (rule step [OF step [OF step [OF step [OF start zero]]]]) (rule one)+
  then have "sampler_reach ?s 0 f"
    by (rule step [OF step [OF step]]) (rule two)+
  then have "sampler_reach ?s 0 i"
    by (rule step [OF step [OF step]]) (rule three)+
  moreover have "resets i = 1" "allowed i = 2" "s_last_reset i = 200" "clk i = 200" "adds i = 2"
    by (simp_all add: defs)
  ultimately show ?thesis by blast
qed

lemma sampler_keeps_the_rate_witness:
  "\<exists>st. sampler_reach (sample_sampler 1) 0 st \<and> allowed st = 2 \<and>
     int (allowed st) \<le> sint (1 :: int64) * ((200 - 0) div sint (100 :: int64) + 1)"
proof -
  obtain st where st: "sampler_reach (sample_sampler 1) 0 st" "allowed st = 2" "clk st = 200" "adds st = 2"
    using race_lets_two_lines_through by blast
  have "NewSampler 1 100 (word_of_int 0) = Ret (sample_sampler 1, \<lparr>s_counter = 0, s_last_reset = 0\<rparr>)"
    by (simp add: NewSampler_def sample_sampler_def)
  from sampler_keeps_the_rate [OF this _ st(1)] st show ?thesis by (intro exI [of _ st]) simp
qed

end
