(* ===== verification/LoggerFamily.thy ===== *)
theory LoggerFamily
  imports Logger Redact Sampler
begin

text \<open>
  The values of \<open>logger.Interface\<close> in \<open>pkg/logger\<close>: plain loggers and sampled ones, and what the methods
  \<open>With...\<close> derive from them. A derived sampled logger points to the sampler of its parent, so the samplers
  live in a store.
\<close>

section \<open>Loggers as values\<close>

text \<open>\<open>*Logger\<close>, and \<open>*SampledLogger\<close> with the logger below it and the pointer to its sampler.\<close>

datatype 'w log_value = Plain "'w zlogger" | Sampled "'w log_value" nat

record 'w log_state =
  out :: 'w
  samplers :: "(sampler \<times> sampler_state) list"
  ticks :: "nat \<Rightarrow> int64"
  reads :: nat

definition NewSampledLogger ::
  "'w log_value \<Rightarrow> int64 \<Rightarrow> int64 \<Rightarrow> 'w log_state \<Rightarrow> 'w log_value outcome \<times> 'w log_state" where
  "NewSampledLogger l rate interval st =
     (case NewSampler rate interval (ticks st (reads st)) of
        Panic m \<Rightarrow> (Panic m, st)
      | Ret sc \<Rightarrow> (Ret (Sampled l (length (samplers st))),
          st\<lparr>samplers := samplers st @ [sc], reads := Suc (reads st)\<rparr>))"

text \<open>\<open>sl.sampler.ShouldLog()\<close> at the next reading of the clock.\<close>

definition ask_sampler :: "nat \<Rightarrow> 'w log_state \<Rightarrow> bool \<times> 'w log_state" where
  "ask_sampler i st =
     (case samplers st ! i of (s, c) \<Rightarrow>
      case ShouldLog s (ticks st (reads st)) c of (b, c') \<Rightarrow>
        (b, st\<lparr>samplers := (samplers st)[i := (s, c')], reads := Suc (reads st)\<rparr>))"

fun value_Debug :: "'w log_value \<Rightarrow> any \<Rightarrow> any list \<Rightarrow> 'w log_state \<Rightarrow> 'w log_state" where
  "value_Debug (Plain l) m args st = st\<lparr>out := log_Debug l m args (out st)\<rparr>"
| "value_Debug (Sampled l i) m args st =
     (case ask_sampler i st of (b, st') \<Rightarrow> if b then value_Debug l m args st' else st')"

fun value_Info :: "'w log_value \<Rightarrow> string \<Rightarrow> any list \<Rightarrow> 'w log_state \<Rightarrow> 'w log_state" where
  "value_Info (Plain l) m args st = st\<lparr>out := log_Info l m args (out st)\<rparr>"
| "value_Info (Sampled l i) m args st =
     (case ask_sampler i st of (b, st') \<Rightarrow> if b then value_Info l m args st' else st')"

fun value_Warn :: "'w log_value \<Rightarrow> string \<Rightarrow> any list \<Rightarrow> 'w log_state \<Rightarrow> 'w log_state" where
  "value_Warn (Plain l) m args st = st\<lparr>out := log_Warn l m args (out st)\<rparr>"
| "value_Warn (Sampled l i) m args st = value_Warn l m args st"

fun value_Error :: "'w log_value \<Rightarrow> any \<Rightarrow> any list \<Rightarrow> 'w log_state \<Rightarrow> 'w log_state" where
  "value_Error (Plain l) m args st = st\<lparr>out := log_Error l m args (out st)\<rparr>"
| "value_Error (Sampled l i) m args st = value_Error l m args st"

fun value_Fatal :: "'w log_value \<Rightarrow> any \<Rightarrow> any list \<Rightarrow> 'w log_state \<Rightarrow> 'w log_state" where
  "value_Fatal (Plain l) m args st = st\<lparr>out := log_Fatal l m args (out st)\<rparr>"
| "value_Fatal (Sampled l i) m args st = value_Fatal l m args st"

section \<open>Derived loggers\<close>

fun value_WithField :: "string \<Rightarrow> any \<Rightarrow> 'w log_value \<Rightarrow> 'w log_value" where
  "value_WithField k v (Plain l) = Plain (with_field k v l)"
| "value_WithField k v (Sampled l i) = Sampled (value_WithField k v l) i"

fun value_WithFields :: "(string \<times> any) list \<Rightarrow> 'w log_value \<Rightarrow> 'w log_value" where
  "value_WithFields kvs (Plain l) = Plain (with_fields kvs l)"
| "value_WithFields kvs (Sampled l i) = Sampled (value_WithFields kvs l) i"

fun value_WithRequestID :: "string \<Rightarrow> 'w log_value \<Rightarrow> 'w log_value" where
  "value_WithRequestID request_id (Plain l) = Plain (with_request_id request_id l)"
| "value_WithRequestID request_id (Sampled l i) = Sampled (value_WithRequestID request_id l) i"

fun value_WithContext :: "context_value \<Rightarrow> 'w log_value \<Rightarrow> 'w log_value" where
  "value_WithContext ctx (Plain l) = Plain (with_context ctx l)"
| "value_WithContext ctx (Sampled l i) =
     (case ctx of
        Some (AnyStr request_id) \<Rightarrow>
          if request_id \<noteq> '''' then value_WithRequestID request_id (Sampled l i) else Sampled l i
      | _ \<Rightarrow> Sampled l i)"

text \<open>
  \<open>WithRedactedFields\<close>, a method of \<open>*Logger\<close> only; \<open>order\<close> lists a map in the order a range loop meets it.
\<close>

definition with_redacted_fields ::
  "(string \<Rightarrow> string) \<Rightarrow> ((string \<rightharpoonup> any) \<Rightarrow> (string \<times> any) list) \<Rightarrow> (string \<rightharpoonup> any) \<Rightarrow> 'w zlogger \<Rightarrow> 'w log_value" where
  "with_redacted_fields lower order kvs l = Plain (with_fields (order (RedactFields lower kvs)) l)"

text \<open>The plain logger at the bottom, and the samplers on the way down to it.\<close>

fun plain_of :: "'w log_value \<Rightarrow> 'w zlogger" where
  "plain_of (Plain l) = l"
| "plain_of (Sampled l i) = plain_of l"

fun sampler_path :: "'w log_value \<Rightarrow> nat list" where
  "sampler_path (Plain l) = []"
| "sampler_path (Sampled l i) = i # sampler_path l"

text \<open>Deriving adds fields at the bottom and keeps the samplers.\<close>

lemma derived_path:
  "sampler_path (value_WithField k v l) = sampler_path l" "sampler_path (value_WithFields kvs l) = sampler_path l"
  "sampler_path (value_WithRequestID i l) = sampler_path l" "sampler_path (value_WithContext ctx l) = sampler_path l"
proof -
  show rid: "sampler_path (value_WithRequestID i l) = sampler_path l" for i by (induction l) auto
  show "sampler_path (value_WithField k v l) = sampler_path l" "sampler_path (value_WithFields kvs l) = sampler_path l"
    by (induction l) auto
  show "sampler_path (value_WithContext ctx l) = sampler_path l"
    using rid by (cases l) (auto split: option.splits any.splits)
qed

lemma derived_plain:
  "plain_of (value_WithField k v l) = with_field k v (plain_of l)"
  "plain_of (value_WithFields kvs l) = with_fields kvs (plain_of l)"
  "plain_of (value_WithRequestID i l) = with_request_id i (plain_of l)"
  "plain_of (value_WithContext ctx l) = with_context ctx (plain_of l)"
proof -
  show rid: "plain_of (value_WithRequestID i l) = with_request_id i (plain_of l)" for i by (induction l) auto
  show "plain_of (value_WithField k v l) = with_field k v (plain_of l)"
    "plain_of (value_WithFields kvs l) = with_fields kvs (plain_of l)" by (induction l) auto
  show "plain_of (value_WithContext ctx l) = with_context ctx (plain_of l)"
    using rid by (cases l) (auto simp: with_context_def split: option.splits any.splits)
qed

text \<open>Warnings and errors pass every sampler.\<close>

lemma important_lines_pass:
  "value_Warn l m args st = st\<lparr>out := log_Warn (plain_of l) m args (out st)\<rparr>"
  "value_Error l a args st = st\<lparr>out := log_Error (plain_of l) a args (out st)\<rparr>"
  by (induction l) auto

text \<open>
  All loggers derived from one sampled logger share its budget: debug lines through any of them, in any
  order, come out exactly when one sampler that is asked at the same instants lets them.
\<close>

definition log_all :: "('w log_value \<times> any \<times> any list) list \<Rightarrow> 'w log_state \<Rightarrow> 'w log_state" where
  "log_all = fold (\<lambda>(l, m, args). value_Debug l m args)"

definition passed :: "('w log_value \<times> any \<times> any list) list \<Rightarrow> bool list \<Rightarrow> 'w \<Rightarrow> 'w" where
  "passed lines answers w = fold (\<lambda>((l, m, args), b) w. if b then log_Debug (plain_of l) m args w else w) (zip lines answers) w"

lemma derived_loggers_share_one_budget:
  assumes "\<forall>(l, m, args) \<in> set lines. sampler_path l = [i]" and "i < length (samplers st)" and "samplers st ! i = (s, c)"
  shows "out (log_all lines st) =
    passed lines (should_logs s (map (ticks st) [reads st..<reads st + length lines]) c) (out st)"
  using assms
proof (induction lines arbitrary: st c)
  case Nil
  then show ?case by (simp add: log_all_def passed_def)
next
  case (Cons x xs)
  obtain l m args where x: "x = (Sampled (Plain l) i, m, args)"
  proof -
    obtain v m args where "x = (v, m, args)" by (cases x) auto
    with Cons.prems(1) that show ?thesis by (cases v; cases "case v of Sampled u j \<Rightarrow> u | _ \<Rightarrow> v") auto
  qed
  obtain b c' where sl: "ShouldLog s (ticks st (reads st)) c = (b, c')" by (metis prod.exhaust)
  let ?st = "st\<lparr>samplers := (samplers st)[i := (s, c')], reads := Suc (reads st)\<rparr>"
  let ?st' = "if b then ?st\<lparr>out := log_Debug l m args (out st)\<rparr> else ?st"
  have step: "log_all (x # xs) st = log_all xs ?st'"
    using Cons.prems(3) sl by (simp add: log_all_def x ask_sampler_def)
  have "out (log_all xs ?st') = passed xs (should_logs s (map (ticks ?st') [reads ?st'..<reads ?st' + length xs]) c') (out ?st')"
    using Cons.prems(1,2) by (intro Cons.IH) simp_all
  moreover have "[reads st..<reads st + length (x # xs)] = reads st # [Suc (reads st)..<Suc (reads st) + length xs]"
    by (simp add: upt_rec)
  ultimately show ?case
    unfolding step using sl by (cases b) (simp_all add: x passed_def)
qed

end
