(* ===== verification/App.thy ===== *)
theory App
  imports LogInterface
begin

text \<open>
  The main program: \<open>config/config.go\<close> and \<open>internal/app/app.go\<close>. \<open>Run\<close> makes the parts, starts them,
  waits for a signal or a failure, and takes them down. What the parts do is in their own theories;
  here a call of one of them is an action, and what it answers comes from outside.
\<close>

section \<open>Configuration\<close>

record config =
  cfg_App_Name :: string
  cfg_App_Version :: string
  cfg_HTTP_Port :: string
  cfg_HTTP_UsePreforkMode :: bool
  cfg_Log_Level :: string
  cfg_PG_PoolMax :: int
  cfg_PG_URL :: string
  cfg_GRPC_Port :: string
  cfg_RMQ_ServerExchange :: string
  cfg_RMQ_ClientExchange :: string
  cfg_RMQ_URL :: string
  cfg_RMQ_EventExchange :: string
  cfg_Outbox_Enabled :: bool
  cfg_Outbox_PollInterval :: int
  cfg_Outbox_BatchSize :: int
  cfg_Outbox_MaxRetries :: int
  cfg_NATS_ServerExchange :: string
  cfg_NATS_URL :: string
  cfg_Metrics_Enabled :: bool
  cfg_Swagger_Enabled :: bool

text \<open>\<open>parse\<close> is \<open>env.Parse\<close> of \<open>caarlos0/env\<close>.\<close>

definition NewConfig :: "goerr + config \<Rightarrow> goerr + config" where
  "NewConfig parse = (case parse of Inl e \<Rightarrow> Inl (wrap ''config error'' e) | Inr cfg \<Rightarrow> Inr cfg)"

section \<open>The actions of Run\<close>

text \<open>The constructors carry the arguments; the level of a logged line is its own constructor.\<close>

datatype app_action =
    NewLogger string
  | NewPostgres string int
  | NewPublisher string string
  | NewOutboxWorker int int int
  | NewRmqServer string string
  | NewNatsServer string string
  | NewGrpcServer string
  | NewHttpServer string bool
  | StartRmq | StartNats | StartGrpc | StartHttp
  | StartWorker
  | LogInfo string "any list"
  | LogError goerr
  | FatalExit goerr
  | ShutdownHttp | ShutdownGrpc | ShutdownRmq | ShutdownNats
  | StopWorker
  | ClosePublisher
  | CancelContext
  | ClosePostgres

text \<open>What ends the waiting; a channel \<open>notify\<close> gives an error, or nil when it is closed and empty.\<close>

datatype wake =
    Interrupted string
  | HttpNotify "goerr option"
  | GrpcNotify "goerr option"
  | RmqNotify "goerr option"
  | NatsNotify "goerr option"

record app_answers =
  an_postgres :: "goerr option"
  an_publisher :: "goerr option"
  an_rmq :: "goerr option"
  an_nats :: "goerr option"
  an_wake :: wake
  an_http_down :: "goerr option"
  an_grpc_down :: "goerr option"
  an_rmq_down :: "goerr option"
  an_nats_down :: "goerr option"
  an_publisher_close :: "goerr option"

text \<open>\<open>fmt.Errorf("s: %w", err)\<close> of an error that may be nil.\<close>

definition wrap_opt :: "string \<Rightarrow> goerr option \<Rightarrow> goerr" where
  "wrap_opt s r = (case r of Some e \<Rightarrow> wrap s e | None \<Rightarrow> ErrNew (s @ '': %!w(<nil>)''))"

definition wake_line :: "wake \<Rightarrow> app_action" where
  "wake_line k = (case k of
     Interrupted s \<Rightarrow> LogInfo ''app - Run - signal: %s'' [AnyStr s]
   | HttpNotify r \<Rightarrow> LogError (wrap_opt ''app - Run - httpServer.Notify'' r)
   | GrpcNotify r \<Rightarrow> LogError (wrap_opt ''app - Run - grpcServer.Notify'' r)
   | RmqNotify r \<Rightarrow> LogError (wrap_opt ''app - Run - rmqServer.Notify'' r)
   | NatsNotify r \<Rightarrow> LogError (wrap_opt ''app - Run - natsServer.Notify'' r))"

text \<open>A call that can only fail by an error that is then logged.\<close>

definition logging_error :: "app_action \<Rightarrow> string \<Rightarrow> goerr option \<Rightarrow> app_action list" where
  "logging_error act site r = act # (case r of Some e \<Rightarrow> [LogError (wrap site e)] | None \<Rightarrow> [])"

text \<open>\<open>time.Duration(cfg.Outbox.PollInterval)*time.Millisecond\<close> in \<open>int64\<close>.\<close>

definition poll_interval :: "config \<Rightarrow> int" where
  "poll_interval cfg = signed_take_bit 63 (cfg_Outbox_PollInterval cfg * 1000000)"

text \<open>
  The first half: the constructors. \<open>l.Fatal\<close> ends the process with \<open>os.Exit\<close>, so nothing deferred
  runs after it; then the second component is false.
\<close>

definition construct :: "config \<Rightarrow> app_answers \<Rightarrow> app_action list \<times> bool" where
  "construct cfg an =
     (let t = [NewLogger (cfg_Log_Level cfg), NewPostgres (cfg_PG_URL cfg) (cfg_PG_PoolMax cfg)] in
      case an_postgres an of
        Some e \<Rightarrow> (t @ [FatalExit (wrap ''app - Run - postgres.New'' e)], False)
      | None \<Rightarrow>
      let t = t @ (if cfg_Outbox_Enabled cfg
                   then [NewPublisher (cfg_RMQ_URL cfg) (cfg_RMQ_EventExchange cfg)] else []) in
      case (if cfg_Outbox_Enabled cfg then an_publisher an else None) of
        Some e \<Rightarrow> (t @ [FatalExit (wrap ''app - Run - eventbus.NewRabbitMQPublisher'' e)], False)
      | None \<Rightarrow>
      let t = t @ (if cfg_Outbox_Enabled cfg
                   then [NewOutboxWorker (poll_interval cfg) (cfg_Outbox_BatchSize cfg) (cfg_Outbox_MaxRetries cfg)]
                   else []) @
              [NewRmqServer (cfg_RMQ_URL cfg) (cfg_RMQ_ServerExchange cfg)] in
      case an_rmq an of
        Some e \<Rightarrow> (t @ [FatalExit (wrap ''app - Run - rmqServer - server.New'' e)], False)
      | None \<Rightarrow>
      let t = t @ [NewNatsServer (cfg_NATS_URL cfg) (cfg_NATS_ServerExchange cfg)] in
      case an_nats an of
        Some e \<Rightarrow> (t @ [FatalExit (wrap ''app - Run - natsServer - server.New'' e)], False)
      | None \<Rightarrow>
      (t @ [NewGrpcServer (cfg_GRPC_Port cfg), NewHttpServer (cfg_HTTP_Port cfg) (cfg_HTTP_UsePreforkMode cfg)], True))"

definition start_all :: "config \<Rightarrow> app_action list" where
  "start_all cfg = [StartRmq, StartNats, StartGrpc, StartHttp] @ (if cfg_Outbox_Enabled cfg then [StartWorker] else [])"

text \<open>The second half, with the two deferred calls at its end.\<close>

definition take_down :: "config \<Rightarrow> app_answers \<Rightarrow> app_action list" where
  "take_down cfg an =
     logging_error ShutdownHttp ''app - Run - httpServer.Shutdown'' (an_http_down an) @
     logging_error ShutdownGrpc ''app - Run - grpcServer.Shutdown'' (an_grpc_down an) @
     logging_error ShutdownRmq ''app - Run - rmqServer.Shutdown'' (an_rmq_down an) @
     logging_error ShutdownNats ''app - Run - natsServer.Shutdown'' (an_nats_down an) @
     (if cfg_Outbox_Enabled cfg
      then [StopWorker] @ logging_error ClosePublisher ''app - Run - eventPublisher.Close'' (an_publisher_close an)
      else []) @
     [CancelContext, ClosePostgres]"

definition Run :: "config \<Rightarrow> app_answers \<Rightarrow> app_action list" where
  "Run cfg an =
     (case construct cfg an of
        (t, False) \<Rightarrow> t
      | (t, True) \<Rightarrow> t @ start_all cfg @ [wake_line (an_wake an)] @ take_down cfg an)"

section \<open>The entry point\<close>

text \<open>
  \<open>main\<close> of \<open>cmd/app/main.go\<close>: \<open>log.Fatalf\<close> prints the error of the configuration and exits, so that
  nothing of \<open>Run\<close> happens.
\<close>

datatype main_end = ConfigFatal string | Ran "app_action list"

definition main_program :: "goerr + config \<Rightarrow> app_answers \<Rightarrow> main_end" where
  "main_program parse an =
     (case NewConfig parse of
        Inl e \<Rightarrow> ConfigFatal (''Config error: '' @ err_msg e)
      | Inr cfg \<Rightarrow> Ran (Run cfg an))"

lemma main_without_config: "main_program (Inl e) an = ConfigFatal (''Config error: config error: '' @ err_msg e)"
  by (simp add: main_program_def NewConfig_def wrap_def)

section \<open>What every run does\<close>

text \<open>The actions that bring a part up or down, without the constructors and the log.\<close>

definition is_control :: "app_action \<Rightarrow> bool" where
  "is_control a \<longleftrightarrow> a \<in> {StartRmq, StartNats, StartGrpc, StartHttp, StartWorker, ShutdownHttp, ShutdownGrpc,
     ShutdownRmq, ShutdownNats, StopWorker, ClosePublisher, CancelContext, ClosePostgres}"

lemma control_logging_error: "filter is_control (logging_error a site r) = filter is_control [a]"
  by (simp add: logging_error_def is_control_def split: option.splits)

lemma control_wake_line: "\<not> is_control (wake_line k)"
  by (simp add: wake_line_def is_control_def split: wake.splits)

lemma control_construct: "filter is_control (fst (construct cfg an)) = []"
  by (simp add: construct_def is_control_def Let_def split: option.splits)

lemma construct_ok_iff:
  "snd (construct cfg an) \<longleftrightarrow> an_postgres an = None \<and> (cfg_Outbox_Enabled cfg \<longrightarrow> an_publisher an = None) \<and>
     an_rmq an = None \<and> an_nats an = None"
  by (simp add: construct_def Let_def split: option.splits)

lemma construct_fatal:
  "FatalExit e \<in> set (fst (construct cfg an)) \<Longrightarrow> \<not> snd (construct cfg an) \<and> last (fst (construct cfg an)) = FatalExit e"
  by (auto simp: construct_def Let_def split: option.splits if_splits)

lemma construct_fails: "\<not> snd (construct cfg an) \<Longrightarrow> \<exists>e. last (fst (construct cfg an)) = FatalExit e"
  by (auto simp: construct_def Let_def split: option.splits if_splits)

lemma no_fatal_after:
  "FatalExit e \<notin> set (start_all cfg @ [wake_line k] @ take_down cfg an)"
  by (auto simp: start_all_def take_down_def logging_error_def wake_line_def split: option.splits wake.splits)

text \<open>What a run starts and takes down, in this order, with and without the outbox.\<close>

definition control_text :: "bool \<Rightarrow> app_action list" where
  "control_text outbox_enabled =
     [StartRmq, StartNats, StartGrpc, StartHttp] @ (if outbox_enabled then [StartWorker] else []) @
     [ShutdownHttp, ShutdownGrpc, ShutdownRmq, ShutdownNats] @
     (if outbox_enabled then [StopWorker, ClosePublisher] else []) @ [CancelContext, ClosePostgres]"

lemma Run_control:
  "filter is_control (Run cfg an) =
     (if an_postgres an = None \<and> (cfg_Outbox_Enabled cfg \<longrightarrow> an_publisher an = None) \<and> an_rmq an = None \<and> an_nats an = None
      then [StartRmq, StartNats, StartGrpc, StartHttp] @ (if cfg_Outbox_Enabled cfg then [StartWorker] else []) @
        [ShutdownHttp, ShutdownGrpc, ShutdownRmq, ShutdownNats] @
        (if cfg_Outbox_Enabled cfg then [StopWorker, ClosePublisher] else []) @ [CancelContext, ClosePostgres]
      else []) \<and>
   ((\<exists>e. last (Run cfg an) = FatalExit e) \<longleftrightarrow> (\<exists>e. FatalExit e \<in> set (Run cfg an))) \<and>
   ((\<exists>e. FatalExit e \<in> set (Run cfg an)) \<longleftrightarrow> filter is_control (Run cfg an) = [])"
proof (cases "construct cfg an")
  case (Pair t ok)
  have t: "filter is_control t = []" using control_construct [of cfg an] Pair by simp
  have iff: "ok \<longleftrightarrow> an_postgres an = None \<and> (cfg_Outbox_Enabled cfg \<longrightarrow> an_publisher an = None) \<and>
     an_rmq an = None \<and> an_nats an = None"
    using construct_ok_iff [of cfg an] Pair by simp
  show ?thesis
  proof (cases ok)
    case True
    then have run: "Run cfg an = t @ start_all cfg @ [wake_line (an_wake an)] @ take_down cfg an"
      using Pair by (simp add: Run_def)
    have "FatalExit e \<notin> set (Run cfg an)" for e
      using construct_fatal [of e cfg an] no_fatal_after [of e cfg "an_wake an" an] True Pair by (auto simp: run)
    moreover have "last (Run cfg an) = ClosePostgres" by (simp add: run take_down_def)
    moreover have "filter is_control (Run cfg an) =
        [StartRmq, StartNats, StartGrpc, StartHttp] @ (if cfg_Outbox_Enabled cfg then [StartWorker] else []) @
        [ShutdownHttp, ShutdownGrpc, ShutdownRmq, ShutdownNats] @
        (if cfg_Outbox_Enabled cfg then [StopWorker, ClosePublisher] else []) @ [CancelContext, ClosePostgres]"
      by (simp add: run t start_all_def take_down_def control_logging_error control_wake_line)
        (simp add: is_control_def)
    ultimately show ?thesis using iff True by simp
  next
    case False
    then have run: "Run cfg an = t" using Pair by (simp add: Run_def)
    obtain e where e: "last t = FatalExit e" using construct_fails [of cfg an] False Pair by auto
    moreover have "t \<noteq> []" using Pair by (auto simp: construct_def Let_def split: option.splits)
    ultimately have "FatalExit e \<in> set t" by (metis last_in_set)
    with e run t iff False show ?thesis by auto
  qed
qed

lemma control_Run: "filter is_control (Run cfg an) = [] \<or> filter is_control (Run cfg an) = control_text (cfg_Outbox_Enabled cfg)"
  using Run_control [of cfg an] by (auto simp: control_text_def)

text \<open>
  The property: a run either ends in a fatal exit, and then nothing was started, or it starts the
  four servers and the worker and takes all of them down again in one order, whatever woke it and
  whichever of the steps down fails: the servers before the worker, the worker before the publisher
  it uses, and the pool of connections last.
\<close>

theorem Run_starts_and_stops:
  "filter is_control (Run cfg an) =
     (if an_postgres an = None \<and> (cfg_Outbox_Enabled cfg \<longrightarrow> an_publisher an = None) \<and> an_rmq an = None \<and> an_nats an = None
      then [StartRmq, StartNats, StartGrpc, StartHttp] @ (if cfg_Outbox_Enabled cfg then [StartWorker] else []) @
        [ShutdownHttp, ShutdownGrpc, ShutdownRmq, ShutdownNats] @
        (if cfg_Outbox_Enabled cfg then [StopWorker, ClosePublisher] else []) @ [CancelContext, ClosePostgres]
      else []) \<and>
   ((\<exists>e. last (Run cfg an) = FatalExit e) \<longleftrightarrow> (\<exists>e. FatalExit e \<in> set (Run cfg an))) \<and>
   ((\<exists>e. FatalExit e \<in> set (Run cfg an)) \<longleftrightarrow> filter is_control (Run cfg an) = [])"
  by (rule Run_control)

definition sample_config :: config where
  "sample_config = \<lparr>cfg_App_Name = ''thiam'', cfg_App_Version = ''1'', cfg_HTTP_Port = ''8080'',
     cfg_HTTP_UsePreforkMode = False, cfg_Log_Level = ''info'', cfg_PG_PoolMax = 2, cfg_PG_URL = ''postgres://db'',
     cfg_GRPC_Port = ''8081'', cfg_RMQ_ServerExchange = ''rpc_server'', cfg_RMQ_ClientExchange = ''rpc_client'',
     cfg_RMQ_URL = ''amqp://broker'', cfg_RMQ_EventExchange = ''domain.events'', cfg_Outbox_Enabled = True,
     cfg_Outbox_PollInterval = 1000, cfg_Outbox_BatchSize = 100, cfg_Outbox_MaxRetries = 5,
     cfg_NATS_ServerExchange = ''rpc'', cfg_NATS_URL = ''nats://broker'', cfg_Metrics_Enabled = True,
     cfg_Swagger_Enabled = False\<rparr>"

definition sample_answers :: app_answers where
  "sample_answers = \<lparr>an_postgres = None, an_publisher = None, an_rmq = None, an_nats = None,
     an_wake = Interrupted ''terminated'', an_http_down = Some (ErrNew ''deadline''), an_grpc_down = None,
     an_rmq_down = None, an_nats_down = None, an_publisher_close = None\<rparr>"

theorem Run_starts_and_stops_witness:
  "filter is_control (Run sample_config sample_answers) =
     [StartRmq, StartNats, StartGrpc, StartHttp, StartWorker, ShutdownHttp, ShutdownGrpc, ShutdownRmq, ShutdownNats,
      StopWorker, ClosePublisher, CancelContext, ClosePostgres]"
  using Run_starts_and_stops [of sample_config sample_answers]
  by (simp add: sample_config_def sample_answers_def)

text \<open>A fatal exit skips the deferred calls: the pool that was opened is not closed.\<close>

lemma fatal_skips_deferred:
  assumes "an_nats an \<noteq> None"
  shows "ClosePostgres \<notin> set (Run cfg an) \<and> ClosePublisher \<notin> set (Run cfg an)"
proof -
  have "\<not> snd (construct cfg an)" using assms construct_ok_iff by simp
  then have "Run cfg an = fst (construct cfg an)" by (cases "construct cfg an") (auto simp: Run_def split: bool.splits)
  with control_construct [of cfg an] have "\<not> is_control a" if "a \<in> set (Run cfg an)" for a
    using that by (simp add: filter_empty_conv)
  then show ?thesis by (auto simp: is_control_def)
qed

end
