(* ===== verification/Retry.thy ===== *)
theory Retry
  imports GoErrors
begin

text \<open>
  Calls to a remote system, and the loops that repeat them until one succeeds:
  \<open>pkg/rabbitmq/rmq_rpc/connection.go\<close>, \<open>pkg/postgres/postgres.go\<close> and \<open>internal/app/migrate.go\<close>.
\<close>

section \<open>Remote systems\<close>

text \<open>
  The calls a driver was asked to make, in order, and how it answers the one with each number: an
  error, or none. A theorem over all answers covers every schedule of failures.
\<close>

record 'c remote =
  rm_answer :: "nat \<Rightarrow> goerr option"
  rm_calls :: "'c list"
  rm_slept :: int

text \<open>\<open>time.Sleep(d)\<close>; the total is kept.\<close>

definition sleep :: "int \<Rightarrow> 'c remote \<Rightarrow> 'c remote" where
  "sleep d s = s\<lparr>rm_slept := rm_slept s + max 0 d\<rparr>"

text \<open>The number of the next call names what it opens.\<close>

definition next_handle :: "'c remote \<Rightarrow> nat" where
  "next_handle s = length (rm_calls s)"

definition asked :: "'c \<Rightarrow> 'c remote \<Rightarrow> 'c remote" where
  "asked c s = s\<lparr>rm_calls := rm_calls s @ [c]\<rparr>"

definition ask :: "'c \<Rightarrow> 'c remote \<Rightarrow> goerr option \<times> 'c remote" where
  "ask c s = (rm_answer s (next_handle s), asked c s)"

lemma asked_sel [simp]:
  "rm_answer (asked c s) = rm_answer s" "rm_calls (asked c s) = rm_calls s @ [c]"
  "next_handle (asked c s) = Suc (next_handle s)"
  by (simp_all add: asked_def next_handle_def)

lemma sleep_sel [simp]:
  "rm_answer (sleep d s) = rm_answer s" "rm_calls (sleep d s) = rm_calls s"
  "next_handle (sleep d s) = next_handle s"
  by (simp_all add: sleep_def next_handle_def)

section \<open>The loop\<close>

text \<open>
  \<open>for n > 0 { err = attempt(); if err == nil { break }; sleep; n-- }\<close>: \<open>err\<close> is the variable
  declared before the loop, so with no attempts it keeps the value it had.
\<close>

fun retry_loop ::
  "('s \<Rightarrow> goerr option \<times> 's) \<Rightarrow> ('s \<Rightarrow> 's) \<Rightarrow> nat \<Rightarrow> goerr option \<Rightarrow> 's \<Rightarrow> goerr option \<times> 's" where
  "retry_loop attempt pause 0 err s = (err, s)"
| "retry_loop attempt pause (Suc n) err s =
     (case attempt s of
        (None, s') \<Rightarrow> (None, s')
      | (Some e, s') \<Rightarrow> retry_loop attempt pause n (Some e) (pause s'))"

text \<open>The state before the attempt with number \<open>k\<close> (from 0), when all earlier ones failed.\<close>

fun after_failures :: "('s \<Rightarrow> goerr option \<times> 's) \<Rightarrow> ('s \<Rightarrow> 's) \<Rightarrow> nat \<Rightarrow> 's \<Rightarrow> 's" where
  "after_failures attempt pause 0 s = s"
| "after_failures attempt pause (Suc k) s = after_failures attempt pause k (pause (snd (attempt s)))"

lemma retry_loop_succeeds:
  assumes "k < n" and "\<And>j. j < k \<Longrightarrow> fst (attempt (after_failures attempt pause j s)) \<noteq> None"
    and "fst (attempt (after_failures attempt pause k s)) = None"
  shows "retry_loop attempt pause n err s = (None, snd (attempt (after_failures attempt pause k s)))"
  using assms
proof (induction k arbitrary: n err s)
  case 0
  then show ?case by (cases n; cases "attempt s") auto
next
  case (Suc k)
  then obtain m where n: "n = Suc m" "k < m" by (cases n) auto
  obtain e s' where a: "attempt s = (Some e, s')"
    using Suc.prems(2) [of 0] by (cases "attempt s") auto
  have "retry_loop attempt pause m (Some e) (pause s') =
      (None, snd (attempt (after_failures attempt pause k (pause s'))))"
    using Suc.prems(2) [of "Suc j" for j] Suc.prems(3) a by (intro Suc.IH [OF n(2)]) auto
  with n(1) a show ?case by simp
qed

lemma retry_loop_fails:
  assumes "0 < n" and "\<And>j. j < n \<Longrightarrow> fst (attempt (after_failures attempt pause j s)) \<noteq> None"
  shows "fst (retry_loop attempt pause n err s) =
    fst (attempt (after_failures attempt pause (n - 1) s))"
  using assms
proof (induction n arbitrary: err s)
  case (Suc n)
  obtain e s' where a: "attempt s = (Some e, s')"
    using Suc.prems(2) [of 0] by (cases "attempt s") auto
  show ?case
  proof (cases n)
    case (Suc m)
    have "fst (retry_loop attempt pause n (Some e) (pause s')) =
        fst (attempt (after_failures attempt pause (n - 1) (pause s')))"
      using Suc.prems(2) [of "Suc j" for j] a Suc by (intro Suc.IH) auto
    with a Suc show ?thesis by simp
  qed (use a in simp)
qed simp

text \<open>The answer is nil exactly when one of the attempts succeeds, or there are none.\<close>

lemma retry_loop_None_iff:
  "fst (retry_loop attempt pause n None s) = None \<longleftrightarrow>
     n = 0 \<or> (\<exists>k<n. fst (attempt (after_failures attempt pause k s)) = None)"
proof (cases "\<exists>k<n. fst (attempt (after_failures attempt pause k s)) = None")
  case True
  define k where "k = (LEAST k. k < n \<and> fst (attempt (after_failures attempt pause k s)) = None)"
  from True have k: "k < n" "fst (attempt (after_failures attempt pause k s)) = None"
    unfolding k_def by (metis (mono_tags, lifting) LeastI)+
  have early: "fst (attempt (after_failures attempt pause j s)) \<noteq> None" if "j < k" for j
    using not_less_Least [OF that [unfolded k_def]] that k(1) by auto
  have "retry_loop attempt pause n None s = (None, snd (attempt (after_failures attempt pause k s)))"
    using k(1) early k(2) by (rule retry_loop_succeeds)
  with True show ?thesis by auto
next
  case False
  then have "0 < n \<Longrightarrow> fst (retry_loop attempt pause n None s) \<noteq> None"
    by (subst retry_loop_fails) auto
  with False show ?thesis by (cases n) auto
qed

text \<open>A success is what the last attempt gave.\<close>

lemma retry_loop_last:
  assumes "retry_loop attempt pause n err s = (None, s')" and "0 < n"
  shows "\<exists>s0. attempt s0 = (None, s')"
  using assms
proof (induction n arbitrary: err s)
  case (Suc n)
  obtain r s1 where one: "attempt s = (r, s1)" by (metis prod.exhaust)
  show ?case
  proof (cases r)
    case (Some e)
    with one Suc.prems(1) have rest: "retry_loop attempt pause n (Some e) (pause s1) = (None, s')"
      by simp
    then have "0 < n" by (cases n) auto
    with Suc.IH rest show ?thesis by blast
  qed (use one Suc.prems in auto)
qed simp

text \<open>What attempts and pauses keep, the loop keeps.\<close>

locale kept_by_attempts =
  fixes attempt :: "'s \<Rightarrow> goerr option \<times> 's" and pause :: "'s \<Rightarrow> 's" and inv :: "'s \<Rightarrow> bool"
  assumes attempt_inv: "inv s \<Longrightarrow> inv (snd (attempt s))"
    and pause_inv: "inv s \<Longrightarrow> inv (pause s)"
begin

lemma retry_loop_inv: "inv s \<Longrightarrow> inv (snd (retry_loop attempt pause n err s))"
proof (induction n arbitrary: err s)
  case (Suc n)
  show ?case
  proof (cases "attempt s")
    case (Pair r s')
    from attempt_inv [OF Suc.prems] Pair have "inv s'" by simp
    with Suc.IH [OF pause_inv] Pair show ?thesis by (cases r) auto
  qed
qed simp

end

end
