(* ===== verification/Startup.thy ===== *)
theory Startup
  imports Retry "HOL-Library.Char_ord"
begin

text \<open>
  What happens before the first request: the connection pool of \<open>pkg/postgres\<close> and the migrations of
  \<open>internal/app/migrate.go\<close>. The packages \<open>pgxpool\<close> and \<open>golang-migrate\<close> are remote systems.
\<close>

section \<open>The pool\<close>

text \<open>
  \<open>pgxpool.Config\<close>, of which the code sets one field. \<open>parse\<close> stands for \<open>pgxpool.ParseConfig\<close>.
\<close>

record pool_config =
  pc_url :: string
  MaxConns :: "32 word"

datatype pgx_call = NewWithConfig pool_config | ClosePool nat

text \<open>\<open>type Postgres struct\<close>; the builder is the text of its placeholder format.\<close>

record postgres =
  maxPoolSize :: int
  connAttempts :: int
  connTimeout :: int
  Builder :: string
  Pool :: "nat option"

datatype postgres_option = MaxPoolSize int | ConnAttempts int | ConnTimeout int

fun apply_postgres_option :: "postgres_option \<Rightarrow> postgres \<Rightarrow> postgres" where
  "apply_postgres_option (MaxPoolSize n) c = c\<lparr>maxPoolSize := n\<rparr>"
| "apply_postgres_option (ConnAttempts n) c = c\<lparr>connAttempts := n\<rparr>"
| "apply_postgres_option (ConnTimeout d) c = c\<lparr>connTimeout := d\<rparr>"

definition postgres_defaults :: postgres where
  "postgres_defaults = \<lparr>maxPoolSize = 1, connAttempts = 10, connTimeout = 1000000000,
     Builder = '''', Pool = None\<rparr>"

definition max_conns :: "postgres \<Rightarrow> 32 word" where
  "max_conns pg = (if 0 < maxPoolSize pg \<and> maxPoolSize pg \<le> 1000 then word_of_int (maxPoolSize pg) else 1)"

definition open_pool ::
  "pool_config \<Rightarrow> postgres \<times> pgx_call remote \<Rightarrow> goerr option \<times> (postgres \<times> pgx_call remote)" where
  "open_pool cfg ps = (case ps of (pg, s) \<Rightarrow>
     let pool = next_handle s in
     case ask (NewWithConfig cfg) s of
       (Some e, s) \<Rightarrow> (Some e, (pg\<lparr>Pool := None\<rparr>, s))
     | (None, s) \<Rightarrow> (None, (pg\<lparr>Pool := Some pool\<rparr>, s)))"

definition pause_pool :: "postgres \<times> pgx_call remote \<Rightarrow> postgres \<times> pgx_call remote" where
  "pause_pool ps = (case ps of (pg, s) \<Rightarrow>
     (pg\<lparr>connAttempts := connAttempts pg - 1\<rparr>, sleep (connTimeout pg) s))"

definition new_postgres ::
  "(string \<Rightarrow> goerr + pool_config) \<Rightarrow> string \<Rightarrow> postgres_option list \<Rightarrow> pgx_call remote \<Rightarrow>
   (goerr + postgres) \<times> pgx_call remote" where
  "new_postgres parse url opts s =
     (let pg = (fold apply_postgres_option opts postgres_defaults)\<lparr>Builder := ''$''\<rparr> in
      case parse url of
        Inl e \<Rightarrow> (Inl (wrap ''postgres - NewPostgres - pgxpool.ParseConfig'' e), s)
      | Inr cfg \<Rightarrow>
      let cfg = cfg\<lparr>MaxConns := max_conns pg\<rparr> in
      case retry_loop (open_pool cfg) pause_pool (nat (connAttempts pg)) None (pg, s) of
        (Some e, (pg, s)) \<Rightarrow> (Inl (wrap ''postgres - NewPostgres - connAttempts == 0'' e), s)
      | (None, (pg, s)) \<Rightarrow> (Inr pg, s))"

definition close_postgres :: "postgres \<Rightarrow> pgx_call remote \<Rightarrow> pgx_call remote" where
  "close_postgres pg s = (case Pool pg of Some p \<Rightarrow> snd (ask (ClosePool p) s) | None \<Rightarrow> s)"

lemma max_conns_bounds: "1 \<le> uint (max_conns pg) \<and> uint (max_conns pg) \<le> 1000"
  by (simp add: max_conns_def uint_word_of_int)

lemma max_conns_asked: "1 \<le> maxPoolSize pg \<Longrightarrow> maxPoolSize pg \<le> 1000 \<Longrightarrow> uint (max_conns pg) = maxPoolSize pg"
  by (simp add: max_conns_def uint_word_of_int)

text \<open>
  Every pool asked for has between 1 and 1000 connections, whatever the options say, and a result
  without a pool is only possible when no attempt was allowed.
\<close>

definition pool_sizes_ok :: "pgx_call remote \<Rightarrow> bool" where
  "pool_sizes_ok s \<longleftrightarrow> list_all (\<lambda>c. case c of NewWithConfig cfg \<Rightarrow>
      1 \<le> uint (MaxConns cfg) \<and> uint (MaxConns cfg) \<le> 1000 | ClosePool p \<Rightarrow> True) (rm_calls s)"

lemma opening_inv:
  assumes "1 \<le> uint (MaxConns cfg)" and "uint (MaxConns cfg) \<le> 1000"
  shows "kept_by_attempts (open_pool cfg) pause_pool (\<lambda>ps. pool_sizes_ok (snd ps))"
  using assms
  by unfold_locales
    (auto simp: open_pool_def pause_pool_def ask_def pool_sizes_ok_def Let_def split: option.splits prod.splits)

interpretation pooling: kept_by_attempts "open_pool (cfg\<lparr>MaxConns := max_conns pg\<rparr>)" pause_pool
  "\<lambda>ps. pool_sizes_ok (snd ps)"
  by (rule opening_inv) (simp_all add: max_conns_bounds)

lemma retry_open_pool:
  assumes "retry_loop (open_pool cfg) pause_pool n err ps = (None, (pg, s))" and "0 < n"
  shows "Pool pg \<noteq> None"
  using retry_loop_last [OF assms]
  by (auto simp: open_pool_def ask_def Let_def split: option.splits prod.splits)


text \<open>
  The property: \<open>New\<close> never asks for a pool outside 1 to 1000 connections, and when it succeeds
  with at least one attempt allowed the pool is there and the size is the one asked for, or 1 when
  that was out of range.
\<close>

theorem new_postgres_pool:
  assumes "pool_sizes_ok s" and "new_postgres parse url opts s = (r, s')"
  shows "pool_sizes_ok s' \<and>
    (\<forall>pg. r = Inr pg \<longrightarrow> 0 < connAttempts (fold apply_postgres_option opts postgres_defaults) \<longrightarrow>
      Pool pg \<noteq> None)"
proof (cases "parse url")
  case (Inl e)
  with assms show ?thesis by (auto simp: new_postgres_def Let_def)
next
  case (Inr cfg)
  let ?pg = "(fold apply_postgres_option opts postgres_defaults)\<lparr>Builder := ''$''\<rparr>"
  let ?cfg = "cfg\<lparr>MaxConns := max_conns ?pg\<rparr>"
  obtain e pg' s1 where loop: "retry_loop (open_pool ?cfg) pause_pool (nat (connAttempts ?pg)) None (?pg, s) =
      (e, (pg', s1))"
    by (metis prod.exhaust)
  with Inr assms(2) have res: "s' = s1" "\<And>pg. r = Inr pg \<Longrightarrow> e = None \<and> pg = pg'"
    by (auto simp: new_postgres_def Let_def split: option.splits)
  from pooling.retry_loop_inv [where s = "(?pg, s)" and cfg = cfg and pg = ?pg
      and n = "nat (connAttempts ?pg)" and err = None] loop assms(1)
  have "pool_sizes_ok s1" by simp
  with res show ?thesis using retry_open_pool [of ?cfg "nat (connAttempts ?pg)" None "(?pg, s)"] loop
    by auto
qed

definition sample_pgx :: "(nat \<Rightarrow> goerr option) \<Rightarrow> pgx_call remote" where
  "sample_pgx answer = \<lparr>rm_answer = answer, rm_calls = [], rm_slept = 0\<rparr>"

definition sample_parse :: "string \<Rightarrow> goerr + pool_config" where
  "sample_parse url = Inr \<lparr>pc_url = url, MaxConns = 4\<rparr>"

theorem new_postgres_pool_witness:
  "(case new_postgres sample_parse ''postgres://db'' [MaxPoolSize 2000]
       (sample_pgx (\<lambda>n. if n = 0 then Some (ErrNew ''refused'') else None)) of
     (Inr pg, s') \<Rightarrow> pool_sizes_ok s' \<and> Pool pg = Some 1 \<and> connAttempts pg = 9 \<and> rm_slept s' = 1000000000
   | _ \<Rightarrow> False)"
proof -
  let ?s = "sample_pgx (\<lambda>n. if n = 0 then Some (ErrNew ''refused'') else None)"
  have ok: "pool_sizes_ok ?s" by code_simp
  obtain r s' where run: "new_postgres sample_parse ''postgres://db'' [MaxPoolSize 2000] ?s = (r, s')"
    by (metis prod.exhaust)
  have "case new_postgres sample_parse ''postgres://db'' [MaxPoolSize 2000] ?s of
      (Inr pg, s') \<Rightarrow> Pool pg = Some 1 \<and> connAttempts pg = 9 \<and> rm_slept s' = 1000000000 | _ \<Rightarrow> False"
    by code_simp
  with new_postgres_pool [OF ok run] run show ?thesis by (auto split: sum.splits)
qed

text \<open>With no attempts allowed the result is a success without a pool.\<close>

lemma no_attempts_no_pool:
  "case new_postgres sample_parse url [ConnAttempts 0] s of (Inr pg, s') \<Rightarrow> Pool pg = None \<and> s' = s | _ \<Rightarrow> False"
  by (simp add: new_postgres_def Let_def sample_parse_def postgres_defaults_def)

section \<open>Migrations\<close>

text \<open>\<open>strconv.Atoi\<close>: an optional sign and decimal digits, within the range of \<open>int\<close> (64 bits).\<close>

definition is_digit :: "char \<Rightarrow> bool" where
  "is_digit c \<longleftrightarrow> 48 \<le> (of_char c :: nat) \<and> (of_char c :: nat) \<le> 57"

definition parse_digits :: "string \<Rightarrow> int option" where
  "parse_digits s =
     (if s = [] \<or> \<not> list_all is_digit s then None
      else Some (foldl (\<lambda>n c. n * 10 + (of_char c - 48)) 0 s))"

definition in_int64 :: "int \<Rightarrow> int option" where
  "in_int64 n = (if - (2 ^ 63) \<le> n \<and> n < 2 ^ 63 then Some n else None)"

definition Atoi :: "string \<Rightarrow> int option" where
  "Atoi s =
     (case s of
        [] \<Rightarrow> None
      | c # ds \<Rightarrow>
          if c = CHR ''-'' then Option.bind (parse_digits ds) (\<lambda>n. in_int64 (- n))
          else if c = CHR ''+'' then Option.bind (parse_digits ds) in_int64
          else Option.bind (parse_digits s) in_int64)"

type_synonym environment = "string \<Rightarrow> string option"

definition Getenv :: "environment \<Rightarrow> string \<Rightarrow> string" where
  "Getenv env k = (case env k of Some v \<Rightarrow> v | None \<Rightarrow> '''')"

definition getEnvInt :: "environment \<Rightarrow> string \<Rightarrow> int \<Rightarrow> int" where
  "getEnvInt env key defaultVal =
     (let v = Getenv env key in
      if v \<noteq> '''' then (case Atoi v of Some n \<Rightarrow> n | None \<Rightarrow> defaultVal) else defaultVal)"

datatype migrate_call = NewMigrate string string | MigrateUp nat | MigrateVersion nat | CloseMigrate nat

text \<open>
  How \<open>init\<close> ends: it returns, it ends the process through \<open>log.Fatalf\<close> (which does not run the
  deferred \<open>Close\<close>), or it calls \<open>Up\<close> on a nil pointer.
\<close>

datatype migration = Disabled | Exited string | NilReceiver | NoChange | Migrated

definition ErrNoChange :: goerr where "ErrNoChange = ErrNew ''no change''"

definition open_migrate ::
  "string \<Rightarrow> nat option \<times> migrate_call remote \<Rightarrow> goerr option \<times> (nat option \<times> migrate_call remote)" where
  "open_migrate url ms = (case ms of (m, s) \<Rightarrow>
     let h = next_handle s in
     case ask (NewMigrate ''file://migrations'' url) s of
       (Some e, s) \<Rightarrow> (Some e, (None, s))
     | (None, s) \<Rightarrow> (None, (Some h, s)))"

definition migrate_defaultAttempts :: int where [simp]: "migrate_defaultAttempts = 20"

definition migrate_defaultIntervalSec :: int where [simp]: "migrate_defaultIntervalSec = 1"

definition migrate_init :: "environment \<Rightarrow> migrate_call remote \<Rightarrow> migration \<times> migrate_call remote" where
  "migrate_init env s =
     (if Getenv env ''MIGRATION_ENABLED'' = ''false'' then (Disabled, s)
      else case env ''PG_URL'' of
        None \<Rightarrow> (Exited ''migrate: environment variable not declared: PG_URL'', s)
      | Some url \<Rightarrow>
      if url = '''' then (Exited ''migrate: environment variable not declared: PG_URL'', s) else
      let attempts = getEnvInt env ''MIGRATION_RETRY_ATTEMPTS'' migrate_defaultAttempts;
          interval = signed_take_bit 63 (getEnvInt env ''MIGRATION_RETRY_INTERVAL_SEC'' migrate_defaultIntervalSec * 1000000000)
      in case retry_loop (open_migrate url) (\<lambda>(m, s). (m, sleep interval s)) (nat attempts) None (None, s) of
        (Some e, (m, s)) \<Rightarrow> (Exited (''Migrate: postgres connect error: '' @ err_msg e), s)
      | (None, (None, s)) \<Rightarrow> (NilReceiver, s)
      | (None, (Some m, s)) \<Rightarrow>
      case ask (MigrateUp m) s of
        (Some e, s) \<Rightarrow>
          if err_is e ErrNoChange then (NoChange, snd (ask (CloseMigrate m) s))
          else (Exited (''Migrate: up error: '' @ err_msg e), s)
      | (None, s) \<Rightarrow> (Migrated, snd (ask (CloseMigrate m) (snd (ask (MigrateVersion m) s)))))"

text \<open>
  A migration that fails ends the process with the migration still open, and zero attempts, which
  the environment may ask for, reach \<open>Up\<close> without an object.
\<close>

lemma getEnvInt_default: "env k = None \<Longrightarrow> getEnvInt env k d = d"
  by (simp add: getEnvInt_def Getenv_def)

lemma retry_open_migrate:
  assumes "retry_loop (open_migrate url) pause n None ms = (None, (m, s))" and "0 < n"
  shows "m \<noteq> None"
  using retry_loop_last [OF assms]
  by (auto simp: open_migrate_def ask_def Let_def split: option.splits prod.splits)

lemma migrate_init_NilReceiver:
  assumes "migrate_init env s = (NilReceiver, s')"
  shows "getEnvInt env ''MIGRATION_RETRY_ATTEMPTS'' 20 \<le> 0"
proof (rule ccontr)
  assume "\<not> getEnvInt env ''MIGRATION_RETRY_ATTEMPTS'' 20 \<le> 0"
  with assms retry_open_migrate show False
    by (fastforce simp: migrate_init_def Let_def split: if_splits option.splits prod.splits)
qed

lemma zero_attempts_NilReceiver:
  "fst (migrate_init [''PG_URL'' \<mapsto> ''postgres://db'', ''MIGRATION_RETRY_ATTEMPTS'' \<mapsto> ''0''] s) = NilReceiver"
  by (simp add: migrate_init_def Getenv_def getEnvInt_def Atoi_def parse_digits_def is_digit_def in_int64_def)

end
