(* ===== verification/Configuration.thy ===== *)
theory Configuration
  imports App Startup
begin

text \<open>
  The tags of \<open>config/config.go\<close>: which variable of the environment each field is read from, whether it
  must be set, and its default. \<open>env.Parse\<close> of \<open>caarlos0/env\<close> is a parameter; what its documentation
  promises about such tags is the predicate \<open>documented_Parse\<close>.
\<close>

section \<open>The tags\<close>

datatype env_value = StringValue string | BoolValue bool | IntValue int

record env_field =
  ef_env :: string
  ef_required :: bool
  ef_default :: "string option"
  ef_get :: "config \<Rightarrow> env_value"

definition required_tag :: "string \<Rightarrow> (config \<Rightarrow> env_value) \<Rightarrow> env_field" where
  "required_tag var get = \<lparr>ef_env = var, ef_required = True, ef_default = None, ef_get = get\<rparr>"

definition default_tag :: "string \<Rightarrow> string \<Rightarrow> (config \<Rightarrow> env_value) \<Rightarrow> env_field" where
  "default_tag var d get = \<lparr>ef_env = var, ef_required = False, ef_default = Some d, ef_get = get\<rparr>"

definition config_fields :: "env_field list" where
  "config_fields =
     [required_tag ''APP_NAME'' (\<lambda>c. StringValue (cfg_App_Name c)),
      required_tag ''APP_VERSION'' (\<lambda>c. StringValue (cfg_App_Version c)),
      required_tag ''HTTP_PORT'' (\<lambda>c. StringValue (cfg_HTTP_Port c)),
      default_tag ''HTTP_USE_PREFORK_MODE'' ''false'' (\<lambda>c. BoolValue (cfg_HTTP_UsePreforkMode c)),
      required_tag ''LOG_LEVEL'' (\<lambda>c. StringValue (cfg_Log_Level c)),
      required_tag ''PG_POOL_MAX'' (\<lambda>c. IntValue (cfg_PG_PoolMax c)),
      required_tag ''PG_URL'' (\<lambda>c. StringValue (cfg_PG_URL c)),
      required_tag ''GRPC_PORT'' (\<lambda>c. StringValue (cfg_GRPC_Port c)),
      required_tag ''RMQ_RPC_SERVER'' (\<lambda>c. StringValue (cfg_RMQ_ServerExchange c)),
      required_tag ''RMQ_RPC_CLIENT'' (\<lambda>c. StringValue (cfg_RMQ_ClientExchange c)),
      required_tag ''RMQ_URL'' (\<lambda>c. StringValue (cfg_RMQ_URL c)),
      default_tag ''RMQ_EVENT_EXCHANGE'' ''domain.events'' (\<lambda>c. StringValue (cfg_RMQ_EventExchange c)),
      default_tag ''OUTBOX_ENABLED'' ''true'' (\<lambda>c. BoolValue (cfg_Outbox_Enabled c)),
      default_tag ''OUTBOX_POLL_INTERVAL_MS'' ''1000'' (\<lambda>c. IntValue (cfg_Outbox_PollInterval c)),
      default_tag ''OUTBOX_BATCH_SIZE'' ''100'' (\<lambda>c. IntValue (cfg_Outbox_BatchSize c)),
      default_tag ''OUTBOX_MAX_RETRIES'' ''5'' (\<lambda>c. IntValue (cfg_Outbox_MaxRetries c)),
      required_tag ''NATS_RPC_SERVER'' (\<lambda>c. StringValue (cfg_NATS_ServerExchange c)),
      required_tag ''NATS_URL'' (\<lambda>c. StringValue (cfg_NATS_URL c)),
      default_tag ''METRICS_ENABLED'' ''true'' (\<lambda>c. BoolValue (cfg_Metrics_Enabled c)),
      default_tag ''SWAGGER_ENABLED'' ''false'' (\<lambda>c. BoolValue (cfg_Swagger_Enabled c))]"

text \<open>\<open>strconv.ParseBool\<close>.\<close>

definition ParseBool :: "string \<Rightarrow> bool option" where
  "ParseBool s =
     (if s \<in> {''1'', ''t'', ''T'', ''true'', ''TRUE'', ''True''} then Some True
      else if s \<in> {''0'', ''f'', ''F'', ''false'', ''FALSE'', ''False''} then Some False else None)"

text \<open>The text of a field, and that a value is what a text says.\<close>

definition field_text :: "environment \<Rightarrow> env_field \<Rightarrow> string option" where
  "field_text env f = (case env (ef_env f) of Some s \<Rightarrow> Some s | None \<Rightarrow> ef_default f)"

fun says :: "string \<Rightarrow> env_value \<Rightarrow> bool" where
  "says s (StringValue t) \<longleftrightarrow> t = s"
| "says s (BoolValue b) \<longleftrightarrow> ParseBool s = Some b"
| "says s (IntValue n) \<longleftrightarrow> Atoi s = Some n"

text \<open>
  What the documentation promises: a required variable that is not set is an error, and so is a text that
  cannot be read; otherwise each field has the value of its variable or of its default. A variable
  that is set to nothing is left open.
\<close>

definition documented_Parse :: "(environment \<Rightarrow> goerr + config) \<Rightarrow> bool" where
  "documented_Parse parse \<longleftrightarrow> (\<forall>env cfg. parse env = Inr cfg \<longrightarrow> (\<forall>f \<in> set config_fields.
     (ef_required f \<longrightarrow> env (ef_env f) \<noteq> None) \<and>
     (\<forall>s. field_text env f = Some s \<longrightarrow> s \<noteq> '''' \<longrightarrow> says s (ef_get f cfg))))"

section \<open>What the program is started with\<close>

lemma tag_sel [simp]:
  "ef_env (required_tag v g) = v" "ef_required (required_tag v g)" "ef_default (required_tag v g) = None" "ef_get (required_tag v g) = g"
  "ef_env (default_tag v d g) = v" "\<not> ef_required (default_tag v d g)" "ef_default (default_tag v d g) = Some d"
  "ef_get (default_tag v d g) = g"
  by (simp_all add: required_tag_def default_tag_def)

text \<open>No two fields are read from one variable, and every field can be read: it is required or has a default.\<close>

lemma variables_distinct: "distinct (map ef_env config_fields)"
  by (simp add: config_fields_def)

lemma required_or_default: "f \<in> set config_fields \<Longrightarrow> ef_required f \<longleftrightarrow> ef_default f = None"
  by (auto simp: config_fields_def)

text \<open>A required variable that is not set ends the process before \<open>Run\<close>.\<close>

lemma missing_variable_is_fatal:
  assumes "documented_Parse parse" and "f \<in> set config_fields" and "ef_required f" and "env (ef_env f) = None"
  shows "\<exists>e. main_program (parse env) an = ConfigFatal (''Config error: config error: '' @ err_msg e)"
proof (cases "parse env")
  case (Inl e)
  then show ?thesis by (auto simp: main_without_config)
next
  case (Inr cfg)
  with assms have False unfolding documented_Parse_def by blast
  then show ?thesis ..
qed

text \<open>With nothing set for it the outbox runs, every second, a hundred events at a time, five retries each.\<close>

lemma default_says:
  assumes "documented_Parse parse" and "parse env = Inr cfg" and "f \<in> set config_fields" and "env (ef_env f) = None"
    and "ef_default f = Some s" and "s \<noteq> ''''"
  shows "says s (ef_get f cfg)"
  using assms unfolding documented_Parse_def by (auto simp: field_text_def)

lemma outbox_tags:
  "default_tag ''OUTBOX_ENABLED'' ''true'' (\<lambda>c. BoolValue (cfg_Outbox_Enabled c)) \<in> set config_fields"
  "default_tag ''OUTBOX_POLL_INTERVAL_MS'' ''1000'' (\<lambda>c. IntValue (cfg_Outbox_PollInterval c)) \<in> set config_fields"
  "default_tag ''OUTBOX_BATCH_SIZE'' ''100'' (\<lambda>c. IntValue (cfg_Outbox_BatchSize c)) \<in> set config_fields"
  "default_tag ''OUTBOX_MAX_RETRIES'' ''5'' (\<lambda>c. IntValue (cfg_Outbox_MaxRetries c)) \<in> set config_fields"
  by (simp_all only: config_fields_def list.set insert_iff simp_thms)

lemma outbox_defaults:
  assumes "documented_Parse parse" and "NewConfig (parse env) = Inr cfg"
    and "\<forall>v \<in> {''OUTBOX_ENABLED'', ''OUTBOX_POLL_INTERVAL_MS'', ''OUTBOX_BATCH_SIZE'', ''OUTBOX_MAX_RETRIES''}. env v = None"
  shows "cfg_Outbox_Enabled cfg \<and> cfg_Outbox_PollInterval cfg = 1000 \<and> cfg_Outbox_BatchSize cfg = 100 \<and> cfg_Outbox_MaxRetries cfg = 5"
proof -
  have parsed: "parse env = Inr cfg" using assms(2) by (simp add: NewConfig_def split: sum.splits)
  have said: "says d (get cfg)" if "default_tag var d get \<in> set config_fields" "env var = None" "d \<noteq> ''''" for var d get
    using default_says [OF assms(1) parsed that(1)] that(2,3) by simp
  have "says ''true'' (BoolValue (cfg_Outbox_Enabled cfg))"
    using said [OF outbox_tags(1)] assms(3) by simp
  moreover have "says ''1000'' (IntValue (cfg_Outbox_PollInterval cfg))"
    using said [OF outbox_tags(2)] assms(3) by simp
  moreover have "says ''100'' (IntValue (cfg_Outbox_BatchSize cfg))"
    using said [OF outbox_tags(3)] assms(3) by simp
  moreover have "says ''5'' (IntValue (cfg_Outbox_MaxRetries cfg))"
    using said [OF outbox_tags(4)] assms(3) by simp
  ultimately show ?thesis by (simp add: ParseBool_def Atoi_def parse_digits_def is_digit_def in_int64_def)
qed

text \<open>The promise can be kept: a parser that reads every field, and fails when one cannot be read.\<close>

definition read_fields :: "config \<Rightarrow> environment \<Rightarrow> goerr + config" where
  "read_fields cfg env =
     (if \<forall>f \<in> set config_fields. case field_text env f of None \<Rightarrow> False | Some s \<Rightarrow> says s (ef_get f cfg)
      then Inr cfg else Inl (ErrNew ''env: cannot be read''))"

lemma read_fields_documented: "documented_Parse (read_fields cfg)"
proof -
  have "(ef_required f \<longrightarrow> env (ef_env f) \<noteq> None) \<and> (\<forall>s. field_text env f = Some s \<longrightarrow> s \<noteq> '''' \<longrightarrow> says s (ef_get f c))"
    if "read_fields cfg env = Inr c" "f \<in> set config_fields" for env c f
    using that required_or_default [OF that(2)]
    by (auto simp: read_fields_def field_text_def split: if_splits option.splits)
  then show ?thesis unfolding documented_Parse_def by blast
qed

end
