(* ===== verification/AmqpConnection.thy ===== *)
theory AmqpConnection
  imports Retry
begin

text \<open>
  The connections to RabbitMQ: \<open>pkg/rabbitmq/rmq_rpc/connection.go\<close> for the remote calls, and the
  constructors and \<open>Close\<close> of \<open>pkg/eventbus/rabbitmq.go\<close> and \<open>rabbitmq_subscriber.go\<close>. The package
  \<open>amqp091-go\<close> is the remote system: a pointer it returns is the number of the call that made it,
  and \<^term>\<open>None\<close> is nil.
\<close>

section \<open>The calls of the driver\<close>

text \<open>
  \<open>amqp.Publishing\<close> as the remote calls fill it in; the fields they leave out are zero.
\<close>

record rpc_publishing =
  pb_content_type :: string
  pb_correlation_id :: string
  pb_reply_to :: string
  pb_type :: string
  pb_body :: bytes

text \<open>
  The arguments are those of the source, without the table of arguments, which is always nil. The
  channel of \<open>Publish\<close> may be a nil pointer; \<open>Ack\<close> names the delivery by its tag.
\<close>

datatype amqp_call =
    Dial string
  | OpenChannel nat
  | ExchangeDeclare nat string string bool bool bool bool
  | QueueDeclare nat string bool bool bool bool
  | QueueBind nat string string string bool
  | Consume nat string string bool bool bool bool
  | CloseChannel nat
  | CloseConnection nat
  | Publish "nat option" string string bool bool rpc_publishing
  | Ack nat bool

type_synonym amqp = "amqp_call remote"

text \<open>A connection is open when \<open>Dial\<close> gave it and it was not closed since.\<close>

definition is_Dial :: "amqp_call \<Rightarrow> bool" where
  "is_Dial c = (case c of Dial u \<Rightarrow> True | _ \<Rightarrow> False)"

definition open_connections :: "amqp \<Rightarrow> nat list" where
  "open_connections s =
     filter (\<lambda>i. is_Dial (rm_calls s ! i) \<and> rm_answer s i = None \<and> CloseConnection i \<notin> set (rm_calls s))
       [0..<length (rm_calls s)]"

text \<open>Only connections that exist are closed.\<close>

definition amqp_ok :: "amqp \<Rightarrow> bool" where
  "amqp_ok s \<longleftrightarrow> (\<forall>i. CloseConnection i \<in> set (rm_calls s) \<longrightarrow> i < length (rm_calls s))"

lemma is_Dial_simps [simp]:
  "is_Dial (Dial u)" "\<not> is_Dial (OpenChannel n)" "\<not> is_Dial (ExchangeDeclare n a b c d e f)"
  "\<not> is_Dial (QueueDeclare n a c d e f)" "\<not> is_Dial (QueueBind n a b x c)"
  "\<not> is_Dial (Consume n a b c d e f)" "\<not> is_Dial (CloseChannel n)" "\<not> is_Dial (CloseConnection n)"
  "\<not> is_Dial (Publish co x k mm im p)" "\<not> is_Dial (Ack n f)"
  by (simp_all add: is_Dial_def)

lemma open_connections_other:
  assumes "\<not> is_Dial c" and "\<And>i. c \<noteq> CloseConnection i"
  shows "open_connections (asked c s) = open_connections s"
proof -
  have "filter (\<lambda>i. is_Dial ((rm_calls s @ [c]) ! i) \<and> rm_answer s i = None \<and>
      CloseConnection i \<notin> set (rm_calls s @ [c])) [0..<length (rm_calls s)] = open_connections s"
    unfolding open_connections_def using assms(2)
    by (intro filter_cong) (auto simp: nth_append dest: sym)
  with assms(1) show ?thesis by (simp add: open_connections_def)
qed

lemma open_connections_Dial:
  assumes "amqp_ok s"
  shows "open_connections (asked (Dial u) s) =
    open_connections s @ (if rm_answer s (next_handle s) = None then [next_handle s] else [])"
proof -
  have "filter (\<lambda>i. is_Dial ((rm_calls s @ [Dial u]) ! i) \<and> rm_answer s i = None \<and>
      CloseConnection i \<notin> set (rm_calls s @ [Dial u])) [0..<length (rm_calls s)] = open_connections s"
    unfolding open_connections_def by (intro filter_cong) (auto simp: nth_append)
  moreover have "CloseConnection (length (rm_calls s)) \<notin> set (rm_calls s)"
    using assms by (auto simp: amqp_ok_def)
  ultimately show ?thesis by (simp add: open_connections_def next_handle_def)
qed

lemma open_connections_Close:
  "open_connections (asked (CloseConnection i) s) = filter (\<lambda>j. j \<noteq> i) (open_connections s)"
proof -
  have "filter (\<lambda>j. is_Dial ((rm_calls s @ [CloseConnection i]) ! j) \<and> rm_answer s j = None \<and>
      CloseConnection j \<notin> set (rm_calls s @ [CloseConnection i])) [0..<length (rm_calls s)] =
      filter (\<lambda>j. j \<noteq> i) (open_connections s)"
    unfolding open_connections_def filter_filter by (intro filter_cong) (auto simp: nth_append)
  then show ?thesis by (simp add: open_connections_def)
qed

lemma open_connections_old: "i \<in> set (open_connections s) \<Longrightarrow> i < next_handle s"
  by (auto simp: open_connections_def next_handle_def)

lemma open_connections_sleep [simp]: "open_connections (sleep d s) = open_connections s"
  by (simp add: open_connections_def)

lemma amqp_ok_asked: "amqp_ok s \<Longrightarrow> (\<And>i. c = CloseConnection i \<Longrightarrow> i \<le> next_handle s) \<Longrightarrow> amqp_ok (asked c s)"
  by (fastforce simp: amqp_ok_def next_handle_def intro: less_SucI)

lemma amqp_ok_sleep [simp]: "amqp_ok (sleep d s) = amqp_ok s"
  by (simp add: amqp_ok_def)

section \<open>The connection of the remote calls\<close>

text \<open>\<open>type Connection struct\<close> with its embedded \<open>Config\<close>.\<close>

record connection =
  ConsumerExchange :: string
  conn_URL :: string
  WaitTime :: int
  Attempts :: int
  conn_Connection :: "nat option"
  conn_Channel :: "nat option"
  Delivery :: "nat option"

definition new_connection :: "string \<Rightarrow> string \<Rightarrow> int \<Rightarrow> int \<Rightarrow> connection" where
  "new_connection exchange url wait attempts =
     \<lparr>ConsumerExchange = exchange, conn_URL = url, WaitTime = wait, Attempts = attempts,
      conn_Connection = None, conn_Channel = None, Delivery = None\<rparr>"

text \<open>
  \<open>connect\<close>. The fields are assigned before the error is looked at, so a failed \<open>Dial\<close> leaves nil
  in \<open>Connection\<close>, a failed \<open>Channel()\<close> nil in \<open>Channel\<close> and a failed \<open>Consume\<close> nil in
  \<open>Delivery\<close>. \<open>queue_name\<close> is the name the server gave to the queue that was declared
  without one.
\<close>

definition connect ::
  "(nat \<Rightarrow> string) \<Rightarrow> connection \<times> amqp \<Rightarrow> goerr option \<times> (connection \<times> amqp)" where
  "connect queue_name cs = (case cs of (c, s) \<Rightarrow>
     let conn = next_handle s in
     case ask (Dial (conn_URL c)) s of
       (Some e, s) \<Rightarrow> (Some (wrap ''amqp.Dial'' e), (c\<lparr>conn_Connection := None\<rparr>, s))
     | (None, s) \<Rightarrow>
     let c = c\<lparr>conn_Connection := Some conn\<rparr>; ch = next_handle s in
     case ask (OpenChannel conn) s of
       (Some e, s) \<Rightarrow> (Some (wrap ''c.Connection.Channel'' e), (c\<lparr>conn_Channel := None\<rparr>, s))
     | (None, s) \<Rightarrow>
     let c = c\<lparr>conn_Channel := Some ch\<rparr> in
     case ask (ExchangeDeclare ch (ConsumerExchange c) ''fanout'' False False False False) s of
       (Some e, s) \<Rightarrow> (Some (wrap ''c.Connection.Channel'' e), (c, s))
     | (None, s) \<Rightarrow>
     let queue = queue_name (next_handle s) in
     case ask (QueueDeclare ch '''' False False True False) s of
       (Some e, s) \<Rightarrow> (Some (wrap ''c.Channel.QueueDeclare'' e), (c, s))
     | (None, s) \<Rightarrow>
     case ask (QueueBind ch queue '''' (ConsumerExchange c) False) s of
       (Some e, s) \<Rightarrow> (Some (wrap ''c.Channel.QueueBind'' e), (c, s))
     | (None, s) \<Rightarrow>
     let d = next_handle s in
     case ask (Consume ch queue '''' False False False False) s of
       (Some e, s) \<Rightarrow> (Some (wrap ''c.Channel.Consume'' e), (c\<lparr>Delivery := None\<rparr>, s))
     | (None, s) \<Rightarrow> (None, (c\<lparr>Delivery := Some d\<rparr>, s)))"

definition pause_connect :: "connection \<times> amqp \<Rightarrow> connection \<times> amqp" where
  "pause_connect cs = (fst cs, sleep (WaitTime (fst cs)) (snd cs))"

definition AttemptConnect ::
  "(nat \<Rightarrow> string) \<Rightarrow> connection \<times> amqp \<Rightarrow> goerr option \<times> (connection \<times> amqp)" where
  "AttemptConnect queue_name cs =
     (case retry_loop (connect queue_name) pause_connect (nat (Attempts (fst cs))) None cs of
        (Some e, cs') \<Rightarrow> (Some (wrap ''rmq_rpc - AttemptConnect - c.connect'' e), cs')
      | (None, cs') \<Rightarrow> (None, cs'))"


section \<open>What is open after a call\<close>

text \<open>Calls other than \<open>Dial\<close> and the closing of a connection leave the connections alone.\<close>

definition on_channel :: "amqp_call \<Rightarrow> bool" where
  "on_channel c = (case c of Dial u \<Rightarrow> False | CloseConnection i \<Rightarrow> False | _ \<Rightarrow> True)"

lemma on_channel_simps [simp]:
  "on_channel (OpenChannel n)" "on_channel (ExchangeDeclare n a b c d e f)"
  "on_channel (QueueDeclare n a c d e f)" "on_channel (QueueBind n a b x c)"
  "on_channel (Consume n a b c d e f)" "on_channel (CloseChannel n)"
  "on_channel (Publish co x k mm im p)" "on_channel (Ack n f)"
  "\<not> on_channel (Dial u)" "\<not> on_channel (CloseConnection i)"
  by (simp_all add: on_channel_def)

lemma asked_channel_open [simp]:
  "on_channel c \<Longrightarrow> open_connections (asked c s) = open_connections s"
  by (rule open_connections_other) (auto simp: on_channel_def is_Dial_def split: amqp_call.splits)

lemma asked_channel_ok [simp]: "on_channel c \<Longrightarrow> amqp_ok s \<Longrightarrow> amqp_ok (asked c s)"
  by (rule amqp_ok_asked) auto

lemma asked_Dial [simp]: "amqp_ok s \<Longrightarrow> amqp_ok (asked (Dial u) s)"
  by (rule amqp_ok_asked) simp_all

lemma asked_Close [simp]: "amqp_ok s \<Longrightarrow> i \<le> next_handle s \<Longrightarrow> amqp_ok (asked (CloseConnection i) s)"
  by (rule amqp_ok_asked) simp_all

lemma fresh_not_open [simp]: "filter (\<lambda>j. j \<noteq> next_handle s) (open_connections s) = open_connections s"
  by (auto simp: filter_id_conv dest: open_connections_old)

text \<open>
  What one attempt does to the open connections: it adds the one it dialled, and its pointer is
  the one kept.
\<close>

definition linked :: "connection \<Rightarrow> bool" where
  "linked c \<longleftrightarrow> conn_Connection c \<noteq> None \<and> conn_Channel c \<noteq> None \<and> Delivery c \<noteq> None"

lemma connect_open:
  assumes "amqp_ok s" and "connect qn (c, s) = (r, (c', s'))"
  shows "amqp_ok s' \<and> open_connections s' = open_connections s @ case_option [] (\<lambda>h. [h]) (conn_Connection c')"
  using assms
  by (auto simp: connect_def ask_def Let_def open_connections_Dial split: option.splits)

lemma connect_result:
  assumes "connect qn (c, s) = (r, (c', s'))"
  shows "(r = None \<longrightarrow> linked c') \<and> Attempts c' = Attempts c \<and> ConsumerExchange c' = ConsumerExchange c"
  using assms by (auto simp: connect_def ask_def Let_def linked_def split: option.splits)

section \<open>Connecting again and again\<close>

lemma pause_connect_pair [simp]: "pause_connect (c, s) = (c, sleep (WaitTime c) s)"
  by (simp add: pause_connect_def)

interpretation connecting: kept_by_attempts "connect qn" pause_connect
  "\<lambda>cs. amqp_ok (snd cs) \<and> Attempts (fst cs) = n \<and> ConsumerExchange (fst cs) = x"
proof (unfold_locales, goal_cases)
  case (1 cs)
  obtain c s r c' s' where "cs = (c, s)" "connect qn cs = (r, (c', s'))"
    by (metis prod.exhaust)
  with 1 connect_open [of s qn c r c' s'] connect_result [of qn c s r c' s'] show ?case by simp
next
  case (2 cs)
  then show ?case by (cases cs) simp
qed

lemma retry_connect_open:
  assumes "amqp_ok s" and "retry_loop (connect qn) pause_connect n err (c, s) = (r, (c', s'))"
  shows "\<exists>dialled. open_connections s' = open_connections s @ dialled \<and> length dialled \<le> n \<and>
    (0 < n \<longrightarrow> r = None \<longrightarrow> linked c' \<and> dialled \<noteq> [] \<and> conn_Connection c' = Some (last dialled))"
  using assms
proof (induction n arbitrary: err c s)
  case (Suc n)
  obtain r1 c1 s1 where one: "connect qn (c, s) = (r1, (c1, s1))" by (metis prod.exhaust)
  let ?new = "case_option [] (\<lambda>h. [h]) (conn_Connection c1)"
  from connect_open [OF Suc.prems(1) one]
  have ok: "amqp_ok s1" and new: "open_connections s1 = open_connections s @ ?new" by auto
  show ?case
  proof (cases r1)
    case None
    with Suc.prems(2) one have "r = None" "c' = c1" "s' = s1" by simp_all
    moreover from None connect_result [OF one] have "linked c1" by simp
    ultimately show ?thesis using new by (auto simp: linked_def intro!: exI [of _ ?new] split: option.splits)
  next
    case (Some e)
    let ?s = "sleep (WaitTime c1) s1"
    from Some Suc.prems(2) one
    have rest: "retry_loop (connect qn) pause_connect n (Some e) (c1, ?s) = (r, (c', s'))"
      by simp
    from Suc.IH [OF _ rest] ok obtain more where more: "open_connections s' = open_connections s1 @ more"
      "length more \<le> n" "0 < n \<longrightarrow> r = None \<longrightarrow> linked c' \<and> more \<noteq> [] \<and> conn_Connection c' = Some (last more)"
      by auto
    from rest have "n = 0 \<Longrightarrow> r \<noteq> None" by auto
    with more new show ?thesis
      by (intro exI [of _ "?new @ more"]) (auto split: option.splits)
  qed
qed simp

text \<open>
  The property: with at least one attempt allowed, \<open>AttemptConnect\<close> reports success exactly when
  one of the attempts succeeds, and then the connection it keeps is open and complete; every attempt
  opens at most one connection and none that was open is closed.
\<close>

theorem AttemptConnect_outcome:
  assumes "amqp_ok s" and "0 < Attempts c" and "AttemptConnect qn (c, s) = (r, (c', s'))"
  shows "(r = None \<longleftrightarrow> (\<exists>k < nat (Attempts c).
      fst (connect qn (after_failures (connect qn) pause_connect k (c, s))) = None)) \<and>
    Attempts c' = Attempts c \<and>
    (\<exists>dialled. open_connections s' = open_connections s @ dialled \<and> int (length dialled) \<le> Attempts c \<and>
      (r = None \<longrightarrow> linked c' \<and> dialled \<noteq> [] \<and> conn_Connection c' = Some (last dialled)))"
proof -
  let ?n = "nat (Attempts c)"
  obtain r0 where loop: "retry_loop (connect qn) pause_connect ?n None (c, s) = (r0, (c', s'))"
    and r0: "r = None \<longleftrightarrow> r0 = None"
    using assms(3) by (auto simp: AttemptConnect_def split: prod.splits option.splits)
  from loop have "fst (retry_loop (connect qn) pause_connect ?n None (c, s)) = r0" by simp
  with retry_loop_None_iff [of "connect qn" pause_connect ?n "(c, s)"] r0 assms(2)
  have "r = None \<longleftrightarrow> (\<exists>k < ?n. fst (connect qn (after_failures (connect qn) pause_connect k (c, s))) = None)"
    by auto
  moreover have "Attempts c' = Attempts c"
    using connecting.retry_loop_inv [of "(c, s)" "Attempts c" "ConsumerExchange c" qn ?n None] loop assms(1)
    by simp
  moreover from retry_connect_open [OF assms(1) loop] r0 assms(2)
  have "\<exists>dialled. open_connections s' = open_connections s @ dialled \<and> int (length dialled) \<le> Attempts c \<and>
      (r = None \<longrightarrow> linked c' \<and> dialled \<noteq> [] \<and> conn_Connection c' = Some (last dialled))"
    by (auto simp: le_nat_iff)
  ultimately show ?thesis by blast
qed

definition sample_amqp :: "(nat \<Rightarrow> goerr option) \<Rightarrow> amqp" where
  "sample_amqp answer = \<lparr>rm_answer = answer, rm_calls = [], rm_slept = 0\<rparr>"

definition sample_connection :: "int \<Rightarrow> connection" where
  "sample_connection n = new_connection ''replies'' ''amqp://broker'' 5 n"

definition refused_once :: "nat \<Rightarrow> goerr option" where
  "refused_once n = (if n = 0 then Some (ErrNew ''refused'') else None)"

theorem AttemptConnect_outcome_witness:
  "case AttemptConnect (\<lambda>n. ''amq.gen'') (sample_connection 2, sample_amqp refused_once) of
     (r, (c', s')) \<Rightarrow> r = None \<and> rm_slept s' = 5 \<and> open_connections s' = [1] \<and> linked c'"
proof -
  let ?s = "sample_amqp refused_once" and ?c = "sample_connection 2"
  have ok: "amqp_ok ?s" by (simp add: amqp_ok_def sample_amqp_def)
  have pos: "0 < Attempts ?c" by (simp add: sample_connection_def new_connection_def)
  obtain r c' s' where run: "AttemptConnect (\<lambda>n. ''amq.gen'') (?c, ?s) = (r, (c', s'))"
    by (metis prod.exhaust)
  have "case AttemptConnect (\<lambda>n. ''amq.gen'') (?c, ?s) of (r, (c', s')) \<Rightarrow>
      r = None \<and> rm_slept s' = 5 \<and> open_connections s' = [1]"
    by code_simp
  with AttemptConnect_outcome [OF ok pos run] run show ?thesis by auto
qed

text \<open>
  A step that fails after \<open>Dial\<close> does not close what was dialled: here the channel is refused once,
  and afterwards two connections are open of which only the second is known.
\<close>

lemma failed_attempt_leaks:
  "case AttemptConnect (\<lambda>n. ''amq.gen'') (sample_connection 2,
       sample_amqp (\<lambda>n. if n = 1 then Some (ErrNew ''channel limit'') else None)) of
     (r, (c', s')) \<Rightarrow> r = None \<and> open_connections s' = [0, 2] \<and> conn_Connection c' = Some 2"
  by code_simp

text \<open>With no attempts allowed nothing is dialled and success is reported.\<close>

lemma no_attempts_no_error:
  assumes "Attempts c \<le> 0"
  shows "AttemptConnect qn (c, s) = (None, (c, s))"
  using assms by (simp add: AttemptConnect_def)

section \<open>The connections of the event bus\<close>

text \<open>
  \<open>RabbitMQPublisher\<close> and \<open>RabbitMQSubscriber\<close>: a connection, its channel, and the names they
  were made with. The errors of the two clean-up calls are dropped.
\<close>

record rabbitmq_publisher =
  rp_conn :: nat
  rp_channel :: nat
  rp_exchange :: string

record rabbitmq_subscriber =
  rs_conn :: nat
  rs_channel :: nat
  rs_exchange :: string
  rs_queue :: string

definition exchangeType :: string where "exchangeType = ''topic''"

definition NewRabbitMQPublisher :: "string \<Rightarrow> string \<Rightarrow> amqp \<Rightarrow> (goerr + rabbitmq_publisher) \<times> amqp" where
  "NewRabbitMQPublisher url exchange s =
     (let conn = next_handle s in
      case ask (Dial url) s of
        (Some e, s) \<Rightarrow> (Inl (wrap ''RabbitMQPublisher - dial'' e), s)
      | (None, s) \<Rightarrow>
      let ch = next_handle s in
      case ask (OpenChannel conn) s of
        (Some e, s) \<Rightarrow> (case ask (CloseConnection conn) s of
           (_, s) \<Rightarrow> (Inl (wrap ''RabbitMQPublisher - channel'' e), s))
      | (None, s) \<Rightarrow>
      case ask (ExchangeDeclare ch exchange exchangeType True False False False) s of
        (Some e, s) \<Rightarrow> (case ask (CloseChannel ch) s of (_, s) \<Rightarrow>
           case ask (CloseConnection conn) s of
             (_, s) \<Rightarrow> (Inl (wrap ''RabbitMQPublisher - declare exchange'' e), s))
      | (None, s) \<Rightarrow> (Inr \<lparr>rp_conn = conn, rp_channel = ch, rp_exchange = exchange\<rparr>, s))"

definition NewRabbitMQSubscriber ::
  "string \<Rightarrow> string \<Rightarrow> string \<Rightarrow> amqp \<Rightarrow> (goerr + rabbitmq_subscriber) \<times> amqp" where
  "NewRabbitMQSubscriber url exchange queue s =
     (let conn = next_handle s in
      case ask (Dial url) s of
        (Some e, s) \<Rightarrow> (Inl (wrap ''RabbitMQSubscriber - dial'' e), s)
      | (None, s) \<Rightarrow>
      let ch = next_handle s in
      case ask (OpenChannel conn) s of
        (Some e, s) \<Rightarrow> (case ask (CloseConnection conn) s of
           (_, s) \<Rightarrow> (Inl (wrap ''RabbitMQSubscriber - channel'' e), s))
      | (None, s) \<Rightarrow>
      case ask (ExchangeDeclare ch exchange exchangeType True False False False) s of
        (Some e, s) \<Rightarrow> (case ask (CloseChannel ch) s of (_, s) \<Rightarrow>
           case ask (CloseConnection conn) s of
             (_, s) \<Rightarrow> (Inl (wrap ''RabbitMQSubscriber - declare exchange'' e), s))
      | (None, s) \<Rightarrow>
      case ask (QueueDeclare ch queue True False False False) s of
        (Some e, s) \<Rightarrow> (case ask (CloseChannel ch) s of (_, s) \<Rightarrow>
           case ask (CloseConnection conn) s of
             (_, s) \<Rightarrow> (Inl (wrap ''RabbitMQSubscriber - declare queue'' e), s))
      | (None, s) \<Rightarrow>
        (Inr \<lparr>rs_conn = conn, rs_channel = ch, rs_exchange = exchange, rs_queue = queue\<rparr>, s))"

definition publisher_Close :: "rabbitmq_publisher \<Rightarrow> amqp \<Rightarrow> goerr option \<times> amqp" where
  "publisher_Close p s =
     (case ask (CloseChannel (rp_channel p)) s of
        (Some e, s) \<Rightarrow> (Some (wrap ''RabbitMQPublisher - close channel'' e), s)
      | (None, s) \<Rightarrow>
      case ask (CloseConnection (rp_conn p)) s of
        (Some e, s) \<Rightarrow> (Some (wrap ''RabbitMQPublisher - close connection'' e), s)
      | (None, s) \<Rightarrow> (None, s))"

definition subscriber_Close :: "rabbitmq_subscriber \<Rightarrow> amqp \<Rightarrow> goerr option \<times> amqp" where
  "subscriber_Close p s =
     (case ask (CloseChannel (rs_channel p)) s of
        (Some e, s) \<Rightarrow> (Some (wrap ''RabbitMQSubscriber - close channel'' e), s)
      | (None, s) \<Rightarrow>
      case ask (CloseConnection (rs_conn p)) s of
        (Some e, s) \<Rightarrow> (Some (wrap ''RabbitMQSubscriber - close connection'' e), s)
      | (None, s) \<Rightarrow> (None, s))"

text \<open>
  The contract of a resource that holds one connection: making it fails without a trace or opens
  exactly one, and closing it either closes that one or fails before it got so far.
\<close>

locale owned_connection =
  fixes make :: "amqp \<Rightarrow> (goerr + 'p) \<times> amqp"
    and close :: "'p \<Rightarrow> amqp \<Rightarrow> goerr option \<times> amqp"
    and conn_of :: "'p \<Rightarrow> nat"
  assumes make_fails: "amqp_ok s \<Longrightarrow> make s = (Inl e, s') \<Longrightarrow>
      open_connections s' = open_connections s \<and> amqp_ok s'"
    and make_opens: "amqp_ok s \<Longrightarrow> make s = (Inr p, s') \<Longrightarrow>
      open_connections s' = open_connections s @ [conn_of p] \<and> conn_of p \<notin> set (open_connections s) \<and> amqp_ok s'"
    and close_closes: "close p s = (None, s') \<Longrightarrow>
      open_connections s' = filter (\<lambda>i. i \<noteq> conn_of p) (open_connections s)"
    and close_fails: "close p s = (Some e, s') \<Longrightarrow>
      open_connections s' = open_connections s \<or>
      open_connections s' = filter (\<lambda>i. i \<noteq> conn_of p) (open_connections s)"
begin

lemma make_then_close:
  assumes "amqp_ok s" and "make s = (Inr p, s1)" and "close p s1 = (None, s2)"
  shows "open_connections s2 = open_connections s"
  using close_closes [OF assms(3)] make_opens [OF assms(1,2)] by (auto simp: filter_id_conv)

lemma others_stay_open:
  assumes "close p s = (r, s')" and "i \<in> set (open_connections s)" and "i \<noteq> conn_of p"
  shows "i \<in> set (open_connections s')"
  using assms close_closes [of p s s'] close_fails [of p s _ s'] by (cases r) auto

end

lemmas bus_defs = NewRabbitMQPublisher_def NewRabbitMQSubscriber_def publisher_Close_def
  subscriber_Close_def

lemma next_not_open [simp]: "next_handle s \<notin> set (open_connections s)"
  using open_connections_old by blast

interpretation bus_publisher: owned_connection "NewRabbitMQPublisher url exchange" publisher_Close rp_conn
  by unfold_locales
    (auto simp: bus_defs ask_def Let_def open_connections_Dial open_connections_Close split: option.splits)

interpretation bus_subscriber:
  owned_connection "NewRabbitMQSubscriber url exchange queue" subscriber_Close rs_conn
  by unfold_locales
    (auto simp: bus_defs ask_def Let_def open_connections_Dial open_connections_Close split: option.splits)

text \<open>A channel that cannot be closed keeps \<open>Close\<close> from closing the connection.\<close>

lemma close_stops_at_the_channel:
  assumes "rm_answer s (next_handle s) = Some e" and "rp_conn p \<in> set (open_connections s)"
  shows "\<exists>e' s'. publisher_Close p s = (Some e', s') \<and> rp_conn p \<in> set (open_connections s')"
  using assms by (simp add: publisher_Close_def ask_def)

text \<open>
  C28. The property: constructing a publisher either fails and leaves the open connections as they
  were, or opens exactly the one it holds; a \<open>Close\<close> that reports success closes exactly that one,
  and no \<open>Close\<close> touches another.
\<close>

theorem publisher_owns_one_connection:
  assumes "amqp_ok s"
  shows "case NewRabbitMQPublisher url exchange s of
      (Inl e, s1) \<Rightarrow> open_connections s1 = open_connections s
    | (Inr p, s1) \<Rightarrow> open_connections s1 = open_connections s @ [rp_conn p] \<and>
        (case publisher_Close p s1 of (r, s2) \<Rightarrow>
          set (open_connections s) \<subseteq> set (open_connections s2) \<and>
          (r = None \<longrightarrow> open_connections s2 = open_connections s))"
proof (cases "NewRabbitMQPublisher url exchange s")
  case (Pair a s1)
  show ?thesis
  proof (cases a)
    case (Inl e)
    with Pair bus_publisher.make_fails [OF assms] show ?thesis by simp
  next
    case (Inr p)
    with Pair have made: "NewRabbitMQPublisher url exchange s = (Inr p, s1)" by simp
    obtain r s2 where closed: "publisher_Close p s1 = (r, s2)" by (metis prod.exhaust)
    have "r = None \<Longrightarrow> open_connections s2 = open_connections s"
      using bus_publisher.make_then_close [OF assms made] closed by simp
    then show ?thesis
      using made closed bus_publisher.make_opens [OF assms made] bus_publisher.others_stay_open [OF closed]
      by auto
  qed
qed

theorem publisher_owns_one_connection_witness:
  "amqp_ok (sample_amqp (\<lambda>n. None)) \<and>
   (case NewRabbitMQPublisher ''amqp://broker'' ''events'' (sample_amqp (\<lambda>n. None)) of
      (Inl e, s1) \<Rightarrow> False
    | (Inr p, s1) \<Rightarrow> open_connections s1 = [rp_conn p] \<and> rp_conn p = 0)"
proof -
  have ok: "amqp_ok (sample_amqp (\<lambda>n. None))" by (simp add: amqp_ok_def sample_amqp_def)
  have "case NewRabbitMQPublisher ''amqp://broker'' ''events'' (sample_amqp (\<lambda>n. None)) of
      (Inl e, s1) \<Rightarrow> False | (Inr p, s1) \<Rightarrow> rp_conn p = 0"
    by code_simp
  moreover have "open_connections (sample_amqp (\<lambda>n. None)) = []" by code_simp
  ultimately show ?thesis
    using ok publisher_owns_one_connection [OF ok, of "''amqp://broker''" "''events''"]
    by (auto simp: case_prod_beta split: sum.splits)
qed

end
