(* ===== verification/RpcProtocol.thy ===== *)
theory RpcProtocol
  imports GoErrors
begin

text \<open>
  What the two transports of remote calls share: the texts of \<open>pkg/rabbitmq/rmq_rpc/errors.go\<close> and
  \<open>pkg/nats/nats_rpc/errors.go\<close> (equal, word for word), and what a client makes of a reply.
\<close>

definition ErrTimeout :: goerr where "ErrTimeout = ErrNew ''timeout''"

definition ErrInternalServer :: goerr where "ErrInternalServer = ErrNew ''internal server error''"

definition ErrBadHandler :: goerr where "ErrBadHandler = ErrNew ''unregistered handler''"

definition Success :: string where "Success = ''success''"

lemmas rpc_texts = ErrTimeout_def ErrInternalServer_def ErrBadHandler_def Success_def

text \<open>
  How \<open>RemoteCall\<close> ends: with the response filled in, with an error, or with nil and the response
  as the caller passed it, which is what an unknown status gives.
\<close>

datatype 'v call_result = Answered 'v | Untouched | Failed goerr

text \<open>
  The switch over the status of a reply. \<open>decode\<close> is \<open>json.Unmarshal\<close> of \<open>goccy/go-json\<close> into the
  type of the response.
\<close>

definition switch_status ::
  "string \<Rightarrow> (bytes \<Rightarrow> goerr + 'v) \<Rightarrow> string \<Rightarrow> bytes \<Rightarrow> 'v call_result" where
  "switch_status site decode status body =
     (if status = Success then
        (case decode body of Inl e \<Rightarrow> Failed (wrap (site @ '' - json.Unmarshal'') e) | Inr v \<Rightarrow> Answered v)
      else if status = err_msg ErrBadHandler then Failed ErrBadHandler
      else if status = err_msg ErrInternalServer then Failed ErrInternalServer
      else Untouched)"

text \<open>
  What a client should see of a handler that is called directly: the specification that both
  transports are measured against.
\<close>

datatype 'v handler_result = NoHandler | HandlerError goerr | HandlerValue 'v

fun local_call :: "'v handler_result \<Rightarrow> 'v call_result" where
  "local_call NoHandler = Failed ErrBadHandler"
| "local_call (HandlerError e) = Failed ErrInternalServer"
| "local_call (HandlerValue v) = Answered v"

lemma switch_status_simps [simp]:
  "switch_status site decode (err_msg ErrBadHandler) body = Failed ErrBadHandler"
  "switch_status site decode (err_msg ErrInternalServer) body = Failed ErrInternalServer"
  "decode body = Inr v \<Longrightarrow> switch_status site decode Success body = Answered v"
  "decode body = Inl e \<Longrightarrow>
     switch_status site decode Success body = Failed (wrap (site @ '' - json.Unmarshal'') e)"
  by (simp_all add: switch_status_def rpc_texts)

lemma Success_not_error [simp]:
  "Success \<noteq> err_msg ErrBadHandler" "Success \<noteq> err_msg ErrInternalServer"
  "err_msg ErrBadHandler \<noteq> Success" "err_msg ErrInternalServer \<noteq> Success"
  "err_msg ErrBadHandler \<noteq> err_msg ErrInternalServer"
  by (simp_all add: rpc_texts)

lemma wrap_not_rpc_error [simp]:
  "wrap s e \<noteq> ErrTimeout" "wrap s e \<noteq> ErrInternalServer" "wrap s e \<noteq> ErrBadHandler"
  by (simp_all add: wrap_def rpc_texts)

end
