(* ===== verification/RpcClient.thy ===== *)
theory RpcClient
  imports AmqpConnection RpcProtocol
begin

text \<open>
  \<open>pkg/rabbitmq/rmq_rpc/client/client.go\<close>: the client of the remote calls over RabbitMQ. Any number
  of goroutines are inside \<open>RemoteCall\<close> while one receives the replies. Each is in a phase, and a
  step is one of them passing a point where the others can see it. The replies are whatever the
  broker delivers.
\<close>

section \<open>The state\<close>

record delivery =
  d_tag :: nat
  d_type :: string
  d_correlation_id :: string
  d_reply_to :: string
  d_body :: bytes

text \<open>
  Where a \<open>RemoteCall\<close> is: called; past \<open>preRemoteCallWait\<close>; published but not yet in the table;
  waiting; leaving with a result while the deferred \<open>deleteCall\<close> is still to run; back.
\<close>

datatype 'v call_phase =
    Called | Ready | Published | Waiting | Leaving "'v call_result" | Returned "'v call_result"

text \<open>
  One call: its parameters (the body is what \<open>json.Marshal\<close> gives, \<^term>\<open>None\<close> for a nil request),
  its phase and its \<open>pendingCall\<close>, whose channel carries no value and is open or closed.
\<close>

record 'v caller =
  corr_id :: string
  call_handler :: string
  call_request :: "(goerr + bytes) option"
  phase :: "'v call_phase"
  pc_done :: bool
  pc_status :: string
  pc_body :: bytes

text \<open>
  Where the receiving goroutine is: in the \<open>select\<close>; inside \<open>serveCall\<close> after \<open>getCall\<close>; in the loop of
  \<open>AttemptConnect\<close> with a number of attempts left; blocked on \<open>c.notify <- err\<close>; past it; past the
  closing of \<open>notify\<close>; back in the group with a result.
\<close>

datatype receiver =
    Receiving | Serving delivery "nat option" | Reconnecting nat | Reporting goerr | Told goerr
  | ClosedNotify goerr | Done "goerr option"

text \<open>
  A \<open>Shutdown\<close> waits for the group, has returned, or has called \<open>Close\<close> on a nil connection, which is
  what a failed reconnection leaves, and panicked.
\<close>

datatype shutdown_phase = AwaitingGroup | ShutDown "goerr option" | ClosesNil

record 'v client =
  conn :: connection
  net :: amqp
  serverExchange :: string
  callers :: "'v caller list"
  calls :: "string \<Rightarrow> nat option"
  receiver :: receiver
  stop_closed :: bool
  notify_closed :: bool
  ctx_err :: "goerr option"
  shutdowns :: "shutdown_phase list"
  received :: "delivery list"
  panicked :: "string option"
  timeout :: int

definition ErrConnectionClosed :: goerr where
  "ErrConnectionClosed = ErrNew ''rmq_rpc client - Client - RemoteCall - Connection closed''"

text \<open>\<open>context.Canceled\<close>, which the error group's context reports after the first error or \<open>Wait\<close>.\<close>

definition Canceled :: goerr where "Canceled = ErrNew ''context canceled''"

definition new_caller :: "string \<Rightarrow> string \<Rightarrow> (goerr + bytes) option \<Rightarrow> 'v caller" where
  "new_caller corr handler request = \<lparr>corr_id = corr, call_handler = handler, call_request = request,
     phase = Called, pc_done = False, pc_status = '''', pc_body = ''''\<rparr>"

definition set_phase :: "nat \<Rightarrow> 'v call_phase \<Rightarrow> 'v client \<Rightarrow> 'v client" where
  "set_phase i p c = c\<lparr>callers := (callers c)[i := (callers c ! i)\<lparr>phase := p\<rparr>]\<rparr>"

text \<open>The three operations on the table of calls; each holds the lock while it runs.\<close>

definition getCall :: "string \<Rightarrow> 'v client \<Rightarrow> nat option" where
  "getCall corrID c = calls c corrID"

definition addCall :: "string \<Rightarrow> nat \<Rightarrow> 'v client \<Rightarrow> 'v client" where
  "addCall corrID call c = c\<lparr>calls := (calls c)(corrID \<mapsto> call)\<rparr>"

definition deleteCall :: "string \<Rightarrow> 'v client \<Rightarrow> 'v client" where
  "deleteCall corrID c = c\<lparr>calls := (calls c)(corrID := None)\<rparr>"

lemmas call_table = getCall_def addCall_def deleteCall_def

declare call_table [simp]

text \<open>\<open>publish\<close> of the client.\<close>

text \<open>A method called on a nil \<open>*amqp.Channel\<close> or \<open>*amqp.Connection\<close> dereferences it.\<close>

definition nil_dereference :: string where
  "nil_dereference = ''invalid memory address or nil pointer dereference''"

definition client_publish ::
  "string \<Rightarrow> string \<Rightarrow> (goerr + bytes) option \<Rightarrow> 'v client \<Rightarrow> goerr option outcome \<times> 'v client" where
  "client_publish corr handler request c =
     (case (case request of None \<Rightarrow> Inr '''' | Some r \<Rightarrow> r) of
        Inl e \<Rightarrow> (Ret (Some e), c)
      | Inr body \<Rightarrow>
      case conn_Channel (conn c) of
        None \<Rightarrow> (Panic nil_dereference, c)
      | Some ch \<Rightarrow>
      case ask (Publish (Some ch) (serverExchange c) '''' False False
          \<lparr>pb_content_type = ''application/json'', pb_correlation_id = corr,
           pb_reply_to = ConsumerExchange (conn c), pb_type = handler, pb_body = body\<rparr>) (net c) of
        (Some e, s) \<Rightarrow> (Ret (Some (wrap ''c.Channel.Publish'' e)), c\<lparr>net := s\<rparr>)
      | (None, s) \<Rightarrow> (Ret None, c\<lparr>net := s\<rparr>))"

section \<open>The errors of a call\<close>

definition remote_site :: "string \<Rightarrow> string" where
  "remote_site s = ''rmq_rpc client - Client - RemoteCall - '' @ s"

text \<open>
  Receiving from \<open>notify\<close> gives the error, or nil once the channel is closed; \<open>fmt.Errorf\<close> prints
  \<open>%!w(<nil>)\<close> for a nil operand and wraps nothing.
\<close>

definition notified :: "goerr option \<Rightarrow> goerr" where
  "notified r = (case r of
     Some e \<Rightarrow> wrap (remote_site ''c.notify'') e
   | None \<Rightarrow> ErrNew (remote_site ''c.notify: %!w(<nil>)''))"

definition pre_failed :: "goerr \<Rightarrow> 'v call_result" where
  "pre_failed e = Failed (wrap (remote_site ''c.preWait'') e)"

definition publish_failed :: "goerr \<Rightarrow> 'v call_result" where
  "publish_failed e = Failed (wrap (remote_site ''c.publish'') e)"

definition wait_failed :: "goerr \<Rightarrow> 'v call_result" where
  "wait_failed e = Failed (wrap (remote_site ''c.remoteCallWait'') e)"

definition rmq_result :: "(bytes \<Rightarrow> goerr + 'v) \<Rightarrow> string \<Rightarrow> bytes \<Rightarrow> 'v call_result" where
  "rmq_result = switch_status ''rmq_rpc client - Client - RemoteCall''"

text \<open>The two functions that answer a delivery: look the call up, then fill it in and close its channel.\<close>

definition finish_call :: "nat \<Rightarrow> delivery \<Rightarrow> 'v client \<Rightarrow> 'v client" where
  "finish_call i d c =
     (let was = callers c ! i;
          c = c\<lparr>callers := (callers c)[i := was\<lparr>pc_status := d_type d, pc_body := d_body d, pc_done := True\<rparr>]\<rparr>
      in if pc_done was then c\<lparr>panicked := Some ''close of closed channel''\<rparr> else c)"

definition client_ack :: "delivery \<Rightarrow> 'v client \<Rightarrow> 'v client" where
  "client_ack d c = c\<lparr>net := snd (ask (Ack (d_tag d) False) (net c)), receiver := Receiving\<rparr>"

text \<open>The end of \<open>Shutdown\<close>, after the group has been waited for.\<close>

definition shutdown_result :: "goerr option \<Rightarrow> goerr option \<Rightarrow> goerr option" where
  "shutdown_result group_err close_err =
     errors_join
       [(case group_err of Some e \<Rightarrow> if err_is e Canceled then None else Some e | None \<Rightarrow> None), close_err]"

section \<open>The steps\<close>

definition caller_at :: "nat \<Rightarrow> 'v call_phase \<Rightarrow> 'v client \<Rightarrow> bool" where
  "caller_at i p c \<longleftrightarrow> panicked c = None \<and> i < length (callers c) \<and> phase (callers c ! i) = p"

definition receiver_at :: "receiver \<Rightarrow> 'v client \<Rightarrow> bool" where
  "receiver_at r c \<longleftrightarrow> panicked c = None \<and> receiver c = r"

inductive client_step ::
  "(bytes \<Rightarrow> goerr + 'v) \<Rightarrow> (nat \<Rightarrow> string) \<Rightarrow> 'v client \<Rightarrow> 'v client \<Rightarrow> bool"
  for decode :: "bytes \<Rightarrow> goerr + 'v" and queue_name :: "nat \<Rightarrow> string" where
  RemoteCall: "panicked c = None \<Longrightarrow>
     client_step decode queue_name c (c\<lparr>callers := callers c @ [new_caller corr handler request]\<rparr>)"
| pre_ctx: "caller_at i Called c \<Longrightarrow> ctx_err c = Some e \<Longrightarrow>
     client_step decode queue_name c (set_phase i (Returned (pre_failed e)) c)"
| pre_notify: "caller_at i Called c \<Longrightarrow> receiver c = Reporting e \<Longrightarrow>
     client_step decode queue_name c
       ((set_phase i (Returned (pre_failed (notified (Some e)))) c)\<lparr>receiver := Told e\<rparr>)"
| pre_notify_closed: "caller_at i Called c \<Longrightarrow> notify_closed c \<Longrightarrow>
     client_step decode queue_name c (set_phase i (Returned (pre_failed (notified None))) c)"
| pre_stop: "caller_at i Called c \<Longrightarrow> stop_closed c \<Longrightarrow>
     client_step decode queue_name c (set_phase i (Returned (pre_failed ErrConnectionClosed)) c)"
| pre_default: "caller_at i Called c \<Longrightarrow> ctx_err c = None \<Longrightarrow> \<not> stop_closed c \<Longrightarrow> \<not> notify_closed c \<Longrightarrow>
     (\<And>e. receiver c \<noteq> Reporting e) \<Longrightarrow>
     client_step decode queue_name c (set_phase i Ready c)"
| publish: "caller_at i Ready c \<Longrightarrow>
     client_publish (corr_id (callers c ! i)) (call_handler (callers c ! i)) (call_request (callers c ! i)) c = (Ret r, c') \<Longrightarrow>
     client_step decode queue_name c
       (set_phase i (case r of None \<Rightarrow> Published | Some e \<Rightarrow> Returned (publish_failed e)) c')"
| publish_panics: "caller_at i Ready c \<Longrightarrow>
     client_publish (corr_id (callers c ! i)) (call_handler (callers c ! i)) (call_request (callers c ! i)) c = (Panic m, c') \<Longrightarrow>
     client_step decode queue_name c (c\<lparr>panicked := Some m\<rparr>)"
| addCall: "caller_at i Published c \<Longrightarrow>
     client_step decode queue_name c (addCall (corr_id (callers c ! i)) i (set_phase i Waiting c))"
| wait_ctx: "caller_at i Waiting c \<Longrightarrow> ctx_err c = Some e \<Longrightarrow>
     client_step decode queue_name c (set_phase i (Leaving (wait_failed e)) c)"
| wait_notify: "caller_at i Waiting c \<Longrightarrow> receiver c = Reporting e \<Longrightarrow>
     client_step decode queue_name c
       ((set_phase i (Leaving (wait_failed (notified (Some e)))) c)\<lparr>receiver := Told e\<rparr>)"
| wait_notify_closed: "caller_at i Waiting c \<Longrightarrow> notify_closed c \<Longrightarrow>
     client_step decode queue_name c (set_phase i (Leaving (wait_failed (notified None))) c)"
| wait_stop: "caller_at i Waiting c \<Longrightarrow> stop_closed c \<Longrightarrow>
     client_step decode queue_name c (set_phase i (Leaving (wait_failed ErrConnectionClosed)) c)"
| wait_timeout: "caller_at i Waiting c \<Longrightarrow>
     client_step decode queue_name c (set_phase i (Leaving (wait_failed ErrTimeout)) c)"
| wait_done: "caller_at i Waiting c \<Longrightarrow> pc_done (callers c ! i) \<Longrightarrow>
     client_step decode queue_name c
       (set_phase i (Leaving (rmq_result decode (pc_status (callers c ! i)) (pc_body (callers c ! i)))) c)"
| deleteCall: "caller_at i (Leaving r) c \<Longrightarrow>
     client_step decode queue_name c (deleteCall (corr_id (callers c ! i)) (set_phase i (Returned r) c))"
| receive: "receiver_at Receiving c \<Longrightarrow> Delivery (conn c) \<noteq> None \<Longrightarrow>
     client_step decode queue_name c
       (c\<lparr>received := received c @ [d], receiver := Serving d (getCall (d_correlation_id d) c)\<rparr>)"
| serve_unknown: "receiver_at (Serving d None) c \<Longrightarrow> client_step decode queue_name c (client_ack d c)"
| serve: "receiver_at (Serving d (Some i)) c \<Longrightarrow>
     client_step decode queue_name c (client_ack d (finish_call i d c))"
| delivery_closed: "receiver_at Receiving c \<Longrightarrow> Delivery (conn c) \<noteq> None \<Longrightarrow>
     client_step decode queue_name c (c\<lparr>receiver := Reconnecting (nat (Attempts (conn c)))\<rparr>)"
| reconnect: "receiver_at (Reconnecting (Suc n)) c \<Longrightarrow> connect queue_name (conn c, net c) = (None, (cn, s)) \<Longrightarrow>
     client_step decode queue_name c (c\<lparr>conn := cn, net := s, receiver := Receiving\<rparr>)"
| attempt_fails: "receiver_at (Reconnecting (Suc n)) c \<Longrightarrow>
     connect queue_name (conn c, net c) = (Some e, (cn, s)) \<Longrightarrow>
     client_step decode queue_name c (c\<lparr>conn := cn, net := sleep (WaitTime cn) s,
       receiver := (if n = 0 then Reporting (wrap ''rmq_rpc - AttemptConnect - c.connect'' e) else Reconnecting n)\<rparr>)"
| no_attempts: "receiver_at (Reconnecting 0) c \<Longrightarrow>
     client_step decode queue_name c (c\<lparr>receiver := Receiving\<rparr>)"
| receiver_ctx: "receiver_at Receiving c \<Longrightarrow> ctx_err c = Some e \<Longrightarrow>
     client_step decode queue_name c (c\<lparr>receiver := Reporting e\<rparr>)"
| receiver_stop: "receiver_at Receiving c \<Longrightarrow> stop_closed c \<Longrightarrow>
     client_step decode queue_name c (c\<lparr>receiver := Done None\<rparr>)"
| close_notify: "receiver_at (Told e) c \<Longrightarrow>
     client_step decode queue_name c (c\<lparr>notify_closed := True, receiver := ClosedNotify e\<rparr>)"
| leave_group: "receiver_at (ClosedNotify e) c \<Longrightarrow>
     client_step decode queue_name c
       (c\<lparr>receiver := Done (Some e), ctx_err := (case ctx_err c of None \<Rightarrow> Some Canceled | x \<Rightarrow> x)\<rparr>)"
| Shutdown: "panicked c = None \<Longrightarrow>
     client_step decode queue_name c
       (if stop_closed c then c\<lparr>panicked := Some ''close of closed channel'', shutdowns := shutdowns c @ [AwaitingGroup]\<rparr>
        else c\<lparr>stop_closed := True, shutdowns := shutdowns c @ [AwaitingGroup]\<rparr>)"
| Shutdown_returns: "receiver_at (Done r) c \<Longrightarrow> j < length (shutdowns c) \<Longrightarrow> shutdowns c ! j = AwaitingGroup \<Longrightarrow>
     client_step decode queue_name c
       (let c' = c\<lparr>ctx_err := (case ctx_err c of None \<Rightarrow> Some Canceled | x \<Rightarrow> x)\<rparr> in
        case conn_Connection (conn c) of
          None \<Rightarrow> c'\<lparr>panicked := Some nil_dereference, shutdowns := (shutdowns c)[j := ClosesNil]\<rparr>
        | Some h \<Rightarrow>
        case ask (CloseConnection h) (net c) of (e, s) \<Rightarrow>
          c'\<lparr>net := s, shutdowns := (shutdowns c)[j := ShutDown (shutdown_result r e)]\<rparr>)"

inductive client_run ::
  "(bytes \<Rightarrow> goerr + 'v) \<Rightarrow> (nat \<Rightarrow> string) \<Rightarrow> 'v client \<Rightarrow> 'v client \<Rightarrow> bool"
  for decode :: "bytes \<Rightarrow> goerr + 'v" and queue_name :: "nat \<Rightarrow> string" where
  here: "client_run decode queue_name c c"
| more: "client_run decode queue_name c m \<Longrightarrow> client_step decode queue_name m n \<Longrightarrow> client_run decode queue_name c n"

text \<open>\<open>New\<close>: the options are applied to a client with a fresh connection, which is then dialled.\<close>

datatype client_option = Timeout int | ConnWaitTime int | ConnAttempts int

fun apply_client_option :: "client_option \<Rightarrow> 'v client \<Rightarrow> 'v client" where
  "apply_client_option (Timeout d) c = c\<lparr>timeout := d\<rparr>"
| "apply_client_option (ConnWaitTime d) c = c\<lparr>conn := (conn c)\<lparr>WaitTime := d\<rparr>\<rparr>"
| "apply_client_option (ConnAttempts n) c = c\<lparr>conn := (conn c)\<lparr>Attempts := n\<rparr>\<rparr>"

text \<open>\<open>type Message struct\<close>, which the package declares and does not use.\<close>

record rpc_message =
  rq_Queue :: string
  rq_Priority :: "8 word"
  rq_ContentType :: string
  rq_Body :: bytes
  rq_ReplyTo :: string
  rq_CorrelationID :: string

text \<open>\<open>_defaultWaitTime\<close>, \<open>_defaultAttempts\<close>, \<open>_defaultTimeout\<close>.\<close>

definition client_defaults :: "int \<times> int \<times> int" where
  [simp]: "client_defaults = (5000000000, 10, 2000000000)"

definition unstarted_client :: "connection \<Rightarrow> amqp \<Rightarrow> string \<Rightarrow> 'v client" where
  "unstarted_client cn s exchange = \<lparr>conn = cn, net = s, serverExchange = exchange, callers = [],
     calls = (\<lambda>k. None), receiver = Receiving, stop_closed = False, notify_closed = False,
     ctx_err = None, shutdowns = [], received = [], panicked = None,
     timeout = (case client_defaults of (wait, attempts, limit) \<Rightarrow> limit)\<rparr>"

definition NewClient ::
  "(nat \<Rightarrow> string) \<Rightarrow> string \<Rightarrow> string \<Rightarrow> string \<Rightarrow> client_option list \<Rightarrow> amqp \<Rightarrow>
   (goerr + 'v client) \<times> amqp" where
  "NewClient queue_name url exchange clientExchange opts s =
     (let c = fold apply_client_option opts
            (unstarted_client (case client_defaults of (wait, attempts, limit) \<Rightarrow>
               new_connection clientExchange url wait attempts) s exchange)
      in case AttemptConnect queue_name (conn c, s) of
        (Some e, (cn, s)) \<Rightarrow> (Inl (wrap ''rmq_rpc client - NewClient - c.conn.AttemptConnect'' e), s)
      | (None, (cn, s)) \<Rightarrow> (Inr (c\<lparr>conn := cn, net := s\<rparr>), s))"

section \<open>Invariants\<close>

text \<open>The deliveries that have been served to the end.\<close>

definition served :: "'v client \<Rightarrow> delivery list" where
  "served c = (case receiver c of Serving d x \<Rightarrow> butlast (received c) | _ \<Rightarrow> received c)"

definition answers :: "delivery \<Rightarrow> 'v caller \<Rightarrow> bool" where
  "answers d cl \<longleftrightarrow> d_correlation_id d = corr_id cl"

text \<open>An error that arose on the client's side; it is never one of the two a server sends.\<close>

definition local_failure :: "'v call_result \<Rightarrow> bool" where
  "local_failure r \<longleftrightarrow> (\<exists>e. r = pre_failed e \<or> r = publish_failed e \<or> r = wait_failed e)"

definition result_ok :: "(bytes \<Rightarrow> goerr + 'v) \<Rightarrow> delivery list \<Rightarrow> 'v caller \<Rightarrow> 'v call_result \<Rightarrow> bool" where
  "result_ok decode ds cl r \<longleftrightarrow>
     local_failure r \<or> (\<exists>d \<in> set ds. answers d cl \<and> r = rmq_result decode (d_type d) (d_body d))"

text \<open>
  What every caller's record keeps: a closed \<open>done\<close> means a delivery with its identifier was served
  and its content is there; a result is one of its own deliveries or a local failure.
\<close>

definition caller_ok :: "(bytes \<Rightarrow> goerr + 'v) \<Rightarrow> delivery list \<Rightarrow> 'v caller \<Rightarrow> bool" where
  "caller_ok decode ds cl \<longleftrightarrow>
     (pc_done cl \<longrightarrow> (\<exists>d \<in> set ds. answers d cl \<and> pc_status cl = d_type d \<and> pc_body cl = d_body d)) \<and>
     (\<forall>r. phase cl = Leaving r \<or> phase cl = Returned r \<longrightarrow> result_ok decode ds cl r)"

definition table_ok :: "'v client \<Rightarrow> bool" where
  "table_ok c \<longleftrightarrow> (\<forall>k i. calls c k = Some i \<longrightarrow> i < length (callers c) \<and> corr_id (callers c ! i) = k \<and>
     (phase (callers c ! i) = Waiting \<or> (\<exists>r. phase (callers c ! i) = Leaving r)))"

definition serving_ok :: "'v client \<Rightarrow> bool" where
  "serving_ok c \<longleftrightarrow> (\<forall>d x. receiver c = Serving d x \<longrightarrow> received c \<noteq> [] \<and> last (received c) = d \<and>
     (\<forall>i. x = Some i \<longrightarrow> i < length (callers c) \<and> answers d (callers c ! i)))"

definition client_inv :: "(bytes \<Rightarrow> goerr + 'v) \<Rightarrow> 'v client \<Rightarrow> bool" where
  "client_inv decode c \<longleftrightarrow>
     (\<forall>i < length (callers c). caller_ok decode (served c) (callers c ! i)) \<and> table_ok c \<and> serving_ok c"

text \<open>Without a panic, every step keeps the invariant; first the frame of the helpers.\<close>

lemma set_phase_sel [simp]:
  "callers (set_phase i p c) = (callers c)[i := (callers c ! i)\<lparr>phase := p\<rparr>]"
  "conn (set_phase i p c) = conn c" "net (set_phase i p c) = net c" "calls (set_phase i p c) = calls c"
  "receiver (set_phase i p c) = receiver c" "received (set_phase i p c) = received c"
  "panicked (set_phase i p c) = panicked c" "stop_closed (set_phase i p c) = stop_closed c"
  "notify_closed (set_phase i p c) = notify_closed c" "ctx_err (set_phase i p c) = ctx_err c"
  "shutdowns (set_phase i p c) = shutdowns c" "served (set_phase i p c) = served c"
  by (simp_all add: set_phase_def served_def split: receiver.splits)

lemma client_publish_frame:
  assumes "client_publish k h q c = (r, c')"
  shows "callers c' = callers c \<and> calls c' = calls c \<and> receiver c' = receiver c \<and> received c' = received c \<and>
    panicked c' = panicked c \<and> stop_closed c' = stop_closed c \<and> shutdowns c' = shutdowns c \<and>
    ctx_err c' = ctx_err c \<and> notify_closed c' = notify_closed c"
  using assms by (auto simp: client_publish_def split: option.splits sum.splits prod.splits)

lemma client_publish_conn:
  assumes "client_publish k h q c = (r, c')"
  shows "conn c' = conn c" "rm_answer (net c') = rm_answer (net c)" "timeout c' = timeout c"
    "serverExchange c' = serverExchange c"
  using assms by (auto simp: client_publish_def ask_def split: option.splits sum.splits)

lemma client_publish_Panic:
  assumes "client_publish k h q c = (Panic m, c')"
  shows "m = nil_dereference \<and> conn_Channel (conn c) = None \<and> c' = c"
  using assms by (auto simp: client_publish_def split: option.splits sum.splits prod.splits)

lemma client_ack_sel [simp]:
  "callers (client_ack d c) = callers c" "calls (client_ack d c) = calls c"
  "receiver (client_ack d c) = Receiving" "received (client_ack d c) = received c"
  "panicked (client_ack d c) = panicked c" "stop_closed (client_ack d c) = stop_closed c"
  "served (client_ack d c) = received c" "shutdowns (client_ack d c) = shutdowns c"
  by (simp_all add: client_ack_def served_def)

lemma finish_call_sel [simp]:
  "callers (finish_call i d c) =
     (callers c)[i := (callers c ! i)\<lparr>pc_status := d_type d, pc_body := d_body d, pc_done := True\<rparr>]"
  "calls (finish_call i d c) = calls c" "received (finish_call i d c) = received c"
  "receiver (finish_call i d c) = receiver c" "stop_closed (finish_call i d c) = stop_closed c"
  "shutdowns (finish_call i d c) = shutdowns c"
  "panicked (finish_call i d c) = None \<longleftrightarrow> panicked c = None \<and> \<not> pc_done (callers c ! i)"
  by (simp_all add: finish_call_def Let_def)

lemma caller_ok_mono: "caller_ok decode ds cl \<Longrightarrow> set ds \<subseteq> set es \<Longrightarrow> caller_ok decode es cl"
  unfolding caller_ok_def result_ok_def by blast

lemma served_received: "set (served c) \<subseteq> set (received c)"
  by (auto simp: served_def dest: in_set_butlastD split: receiver.splits)


lemmas nth_update_same = nth_list_update_field [of phase] nth_list_update_field [of corr_id]
  nth_list_update_field [of pc_done]

lemma table_okI:
  assumes "\<And>k i. calls c k = Some i \<Longrightarrow> i < length (callers c) \<and> corr_id (callers c ! i) = k \<and>
     (phase (callers c ! i) = Waiting \<or> (\<exists>r. phase (callers c ! i) = Leaving r))"
  shows "table_ok c"
  using assms by (auto simp: table_ok_def)

lemma table_okD:
  assumes "table_ok c" and "calls c k = Some i"
  shows "i < length (callers c) \<and> corr_id (callers c ! i) = k \<and>
     (phase (callers c ! i) = Waiting \<or> (\<exists>r. phase (callers c ! i) = Leaving r))"
  using assms by (auto simp: table_ok_def)

lemma table_ok_frame:
  "callers c' = callers c \<Longrightarrow> calls c' = calls c \<Longrightarrow> table_ok c' = table_ok c"
  by (simp add: table_ok_def)

lemma table_ok_set_phase:
  assumes "table_ok c" and "phase (callers c ! i) = Ready"
  shows "table_ok (set_phase i p c)"
proof (rule table_okI)
  fix k j
  assume "calls (set_phase i p c) k = Some j"
  with table_okD [OF assms(1), of k j] assms(2)
  show "j < length (callers (set_phase i p c)) \<and> corr_id (callers (set_phase i p c) ! j) = k \<and>
     (phase (callers (set_phase i p c) ! j) = Waiting \<or> (\<exists>r. phase (callers (set_phase i p c) ! j) = Leaving r))"
    by (cases "i = j") auto
qed

lemma table_ok_step: "client_step decode qn c c' \<Longrightarrow> table_ok c \<Longrightarrow> table_ok c'"
proof (induction rule: client_step.induct)
  case (publish i c r c')
  then have "table_ok c'" and "phase (callers c' ! i) = Ready"
    using client_publish_frame [OF publish(2)] table_ok_frame [of c' c] by (simp_all add: caller_at_def)
  then show ?case by (rule table_ok_set_phase)
next
  case (serve d i c)
  then show ?case by (auto simp: table_ok_def nth_update_same)
qed (auto simp: caller_at_def receiver_at_def nth_list_update nth_append Let_def new_caller_def
      intro!: table_okI dest: table_okD split: if_splits option.splits prod.splits)

lemma serving_ok_step: "client_step decode qn c c' \<Longrightarrow> table_ok c \<Longrightarrow> serving_ok c \<Longrightarrow> serving_ok c'"
proof (induction rule: client_step.induct)
  case (publish i c r c')
  with client_publish_frame [OF publish(2)] show ?case
    by (auto simp: serving_ok_def caller_at_def answers_def nth_list_update split: option.splits)
next
  case (receive c d)
  then show ?case by (auto simp: serving_ok_def answers_def dest: table_okD)
next
  case (serve d i c)
  then show ?case by (auto simp: serving_ok_def)
qed (auto simp: serving_ok_def caller_at_def receiver_at_def answers_def nth_list_update nth_append Let_def
      split: if_splits option.splits prod.splits)

definition callers_ok :: "(bytes \<Rightarrow> goerr + 'v) \<Rightarrow> 'v client \<Rightarrow> bool" where
  "callers_ok decode c \<longleftrightarrow> (\<forall>i < length (callers c). caller_ok decode (served c) (callers c ! i))"

lemma local_failures [simp]:
  "result_ok decode ds cl (pre_failed e)" "result_ok decode ds cl (publish_failed e)"
  "result_ok decode ds cl (wait_failed e)"
  by (auto simp: result_ok_def local_failure_def)

lemma caller_ok_phase:
  assumes "caller_ok decode ds cl" and "\<And>r. p = Leaving r \<or> p = Returned r \<Longrightarrow> result_ok decode ds cl r"
  shows "caller_ok decode ds (cl\<lparr>phase := p\<rparr>)"
  using assms by (auto simp: caller_ok_def result_ok_def answers_def)

lemma callers_ok_set_phase:
  assumes "callers_ok decode c" and "\<And>r. p = Leaving r \<or> p = Returned r \<Longrightarrow> result_ok decode (served c) (callers c ! i) r"
  shows "callers_ok decode (set_phase i p c)"
  unfolding callers_ok_def
proof (intro allI impI)
  fix j assume "j < length (callers (set_phase i p c))"
  then show "caller_ok decode (served (set_phase i p c)) (callers (set_phase i p c) ! j)"
    using assms caller_ok_phase [of decode "served c" "callers c ! i" p]
    by (cases "i = j") (auto simp: callers_ok_def)
qed

lemma callers_ok_frame:
  assumes "callers_ok decode c" and "callers c' = callers c" and "set (served c) \<subseteq> set (served c')"
  shows "callers_ok decode c'"
  using assms by (auto simp: callers_ok_def intro: caller_ok_mono)

lemma callers_okD: "callers_ok decode c \<Longrightarrow> i < length (callers c) \<Longrightarrow> caller_ok decode (served c) (callers c ! i)"
  by (simp add: callers_ok_def)

lemma served_update [simp]:
  "served (c\<lparr>calls := m\<rparr>) = served c" "served (c\<lparr>callers := cs\<rparr>) = served c"
  "served (c\<lparr>panicked := p\<rparr>) = served c"
  "served (c\<lparr>receiver := Told e\<rparr>) = received c" "served (c\<lparr>receiver := Reporting e\<rparr>) = received c"
  by (simp_all add: served_def split: receiver.splits)

lemma served_at: "receiver c = r \<Longrightarrow> (\<And>d x. r \<noteq> Serving d x) \<Longrightarrow> served c = received c"
  by (simp add: served_def split: receiver.splits)

lemma rmq_result_ok:
  assumes "caller_ok decode ds cl" and "pc_done cl"
  shows "result_ok decode ds cl (rmq_result decode (pc_status cl) (pc_body cl))"
  using assms by (auto simp: caller_ok_def result_ok_def)

lemma callers_ok_step:
  "client_step decode qn c c' \<Longrightarrow> serving_ok c \<Longrightarrow> callers_ok decode c \<Longrightarrow> callers_ok decode c'"
proof (induction rule: client_step.induct)
  case (RemoteCall c corr handler request)
  then show ?case
    by (auto simp: callers_ok_def nth_append less_Suc_eq caller_ok_def new_caller_def)
next
  case (pre_notify i c e)
  show ?case
    by (rule callers_ok_frame [OF callers_ok_set_phase [OF pre_notify(4),
            of "Returned (pre_failed (notified (Some e)))" i]])
      (use pre_notify(2) in \<open>auto simp: served_at\<close>)
next
  case (publish i c r c')
  have "served c' = served c" using client_publish_frame [OF publish(2)]
    by (simp add: served_def split: receiver.splits)
  with publish client_publish_frame [OF publish(2)] show ?case
    by (intro callers_ok_set_phase callers_ok_frame [OF publish(4)]) (auto split: option.splits)
next
  case (publish_panics i c m c')
  then show ?case by (intro callers_ok_frame [OF publish_panics(4)]) auto
next
  case (addCall i c)
  show ?case
    by (rule callers_ok_frame [OF callers_ok_set_phase [OF addCall(3), of Waiting i]]) auto
next
  case (wait_notify i c e)
  show ?case
    by (rule callers_ok_frame [OF callers_ok_set_phase [OF wait_notify(4),
            of "Leaving (wait_failed (notified (Some e)))" i]])
      (use wait_notify(2) in \<open>auto simp: served_at\<close>)
next
  case (wait_done i c)
  then show ?case
    by (intro callers_ok_set_phase) (auto simp: caller_at_def intro: rmq_result_ok callers_okD)
next
  case (deleteCall i r c)
  then have "result_ok decode (served c) (callers c ! i) r"
    using callers_okD [of decode c i] by (auto simp: caller_at_def caller_ok_def)
  then show ?case
    by (intro callers_ok_frame [OF callers_ok_set_phase [OF deleteCall(3), of "Returned r" i]]) auto
next
  case (receive c d)
  then show ?case
    by (intro callers_ok_frame [OF receive(4)]) (auto simp: served_def receiver_at_def)
next
  case (serve_unknown d c)
  then show ?case
    by (intro callers_ok_frame [OF serve_unknown(3)]) (use served_received in auto)
next
  case (serve d i c)
  then have last: "received c \<noteq> []" "last (received c) = d" "i < length (callers c)" "answers d (callers c ! i)"
    by (auto simp: serving_ok_def receiver_at_def)
  then have d: "d \<in> set (received c)" by (metis last_in_set)
  have "caller_ok decode (received c) (callers c ! j)" if "j < length (callers c)" for j
    using callers_okD [OF serve(3) that] caller_ok_mono served_received by blast
  with last d show ?case
    by (auto simp: callers_ok_def nth_list_update caller_ok_def result_ok_def answers_def)
next
  case (Shutdown c)
  then show ?case
    by (cases "stop_closed c") (auto elim!: callers_ok_frame simp: served_def cong: receiver.case_cong)
next
  case (Shutdown_returns r c j)
  then show ?case
    by (intro callers_ok_frame [OF Shutdown_returns(5)])
      (auto simp: served_def receiver_at_def Let_def split: option.splits prod.splits)
qed ((rule callers_ok_set_phase; auto; fail) |
    (rule callers_ok_frame, assumption; auto simp: receiver_at_def served_def; fail))+

lemma client_inv_split: "client_inv decode c \<longleftrightarrow> callers_ok decode c \<and> table_ok c \<and> serving_ok c"
  by (simp add: client_inv_def callers_ok_def)

lemma client_inv_step: "client_step decode qn c c' \<Longrightarrow> client_inv decode c \<Longrightarrow> client_inv decode c'"
  using callers_ok_step table_ok_step serving_ok_step unfolding client_inv_split by blast

lemma client_inv_run: "client_run decode qn c c' \<Longrightarrow> client_inv decode c \<Longrightarrow> client_inv decode c'"
  by (induction rule: client_run.induct) (auto intro: client_inv_step)

text \<open>What happened stays: deliveries, calls of \<open>Shutdown\<close>, callers and a panic.\<close>

lemma client_step_grows:
  "client_step decode qn c c' \<Longrightarrow>
     length (shutdowns c) \<le> length (shutdowns c') \<and> (\<exists>ds. received c' = received c @ ds) \<and>
     panicked c = None \<and> length (callers c) \<le> length (callers c') \<and>
     (\<forall>i < length (callers c). corr_id (callers c' ! i) = corr_id (callers c ! i))"
proof (induction rule: client_step.induct)
  case (publish i c r c')
  with client_publish_frame [OF publish(2)] show ?case by (auto simp: caller_at_def nth_update_same)
qed (auto simp: caller_at_def receiver_at_def nth_update_same nth_append Let_def split: option.splits prod.splits)

lemma client_run_grows:
  "client_run decode qn c c' \<Longrightarrow>
     length (shutdowns c) \<le> length (shutdowns c') \<and> (\<exists>ds. received c' = received c @ ds) \<and>
     length (callers c) \<le> length (callers c') \<and>
     (\<forall>i < length (callers c). corr_id (callers c' ! i) = corr_id (callers c ! i))"
proof (induction rule: client_run.induct)
  case (more c m n)
  from client_step_grows [OF more(2)] more(3) show ?case by force
qed simp

definition stop_ok :: "'v client \<Rightarrow> bool" where
  "stop_ok c \<longleftrightarrow> (stop_closed c \<longleftrightarrow> shutdowns c \<noteq> [])"

lemma stop_ok_step: "client_step decode qn c c' \<Longrightarrow> stop_ok c \<Longrightarrow> stop_ok c'"
proof (induction rule: client_step.induct)
  case (publish i c r c')
  with client_publish_frame [OF publish(2)] show ?case by (simp add: stop_ok_def)
qed (auto simp: stop_ok_def Let_def split: option.splits prod.splits)

text \<open>
  The only way to close a call's channel twice is a second reply with its identifier; the only way to
  dereference nil is a connection or channel that is not there.
\<close>

definition unconnected :: "'v client \<Rightarrow> bool" where
  "unconnected c \<longleftrightarrow> conn_Connection (conn c) = None \<or> conn_Channel (conn c) = None"

lemma client_step_panics:
  assumes "client_step decode qn c c'" and "client_inv decode c" and "stop_ok c"
    and "distinct (map d_correlation_id (received c'))" and "length (shutdowns c') \<le> 1"
  shows "panicked c' = None \<or> panicked c' = Some nil_dereference \<and> unconnected c'"
  using assms
proof (induction rule: client_step.induct)
  case (publish i c r c')
  with client_publish_frame [OF publish(2)] show ?case by (simp add: caller_at_def)
next
  case (publish_panics i c m c')
  then show ?case by (auto simp: unconnected_def dest: client_publish_Panic)
next
  case (serve d i c)
  then have here: "received c \<noteq> []" "last (received c) = d" "i < length (callers c)" "answers d (callers c ! i)"
    by (auto simp: client_inv_def serving_ok_def receiver_at_def)
  have "\<not> pc_done (callers c ! i)"
  proof
    assume "pc_done (callers c ! i)"
    moreover have "served c = butlast (received c)" using serve(1) by (simp add: served_def receiver_at_def)
    ultimately obtain d' where "d' \<in> set (butlast (received c))" "answers d' (callers c ! i)"
      using serve(2) here(3) by (auto simp: client_inv_def caller_ok_def)
    moreover from here have "received c = butlast (received c) @ [d]" by (metis append_butlast_last_id)
    then have "distinct (map d_correlation_id (butlast (received c) @ [d]))" using serve(4) by simp
    moreover have "d_correlation_id d' = d_correlation_id d"
      using calculation(2) here(4) by (simp add: answers_def)
    ultimately show False by (simp add: image_iff) metis
  qed
  with serve(1) show ?case by (simp add: receiver_at_def)
next
  case (Shutdown c)
  then show ?case by (auto simp: stop_ok_def split: if_splits)
next
  case (Shutdown_returns r c j)
  then show ?case
    by (cases "conn_Connection (conn c)") (simp_all add: receiver_at_def unconnected_def ask_def Let_def)
qed (auto simp: caller_at_def receiver_at_def Let_def split: option.splits prod.splits)

text \<open>With a broker that refuses nothing, the client is never without a connection.\<close>

definition well_connected :: "'v client \<Rightarrow> bool" where
  "well_connected c \<longleftrightarrow> linked (conn c) \<and> 0 < Attempts (conn c) \<and> (\<forall>n. rm_answer (net c) n = None)"

lemma connect_unrefused:
  assumes "\<forall>n. rm_answer s n = None" and "connect qn (c, s) = (r, (c', s'))"
  shows "r = None \<and> linked c' \<and> Attempts c' = Attempts c \<and> rm_answer s' = rm_answer s"
  using assms by (auto simp: connect_def ask_def Let_def linked_def)

lemma AttemptConnect_unrefused:
  assumes "\<forall>n. rm_answer s n = None" and "AttemptConnect qn (c, s) = (r, (c', s'))"
  shows "r = None \<and> (0 < Attempts c \<longrightarrow> linked c') \<and> Attempts c' = Attempts c \<and> rm_answer s' = rm_answer s"
proof (cases "nat (Attempts c)")
  case 0
  with assms(2) show ?thesis by (auto simp: AttemptConnect_def)
next
  case (Suc n)
  obtain r1 c1 s1 where one: "connect qn (c, s) = (r1, (c1, s1))" by (metis prod.exhaust)
  from connect_unrefused [OF assms(1) one] one Suc assms(2) show ?thesis
    by (auto simp: AttemptConnect_def)
qed

lemma well_connected_step:
  "client_step decode qn c c' \<Longrightarrow> well_connected c \<Longrightarrow> well_connected c'"
proof (induction rule: client_step.induct)
  case (publish i c r c')
  with client_publish_conn [OF publish(2)] show ?case by (simp add: well_connected_def)
next
  case (serve_unknown d c)
  then show ?case by (simp add: well_connected_def client_ack_def ask_def)
next
  case (serve d i c)
  then show ?case by (simp add: well_connected_def client_ack_def ask_def finish_call_def Let_def)
next
  case (reconnect n c cn s)
  with connect_unrefused [of "net c" qn "conn c"] show ?case by (auto simp: well_connected_def)
next
  case (attempt_fails n c e cn s)
  with connect_unrefused [of "net c" qn "conn c"] show ?case by (auto simp: well_connected_def)
next
  case (Shutdown_returns r c j)
  then show ?case by (auto simp: well_connected_def ask_def Let_def split: option.splits)
qed (auto simp: well_connected_def)

lemma well_connected_run:
  "client_run decode qn c c' \<Longrightarrow> well_connected c \<Longrightarrow> well_connected c'"
  by (induction rule: client_run.induct) (auto intro: well_connected_step)

lemma new_client_inv [simp]:
  "client_inv decode (unstarted_client cn s x)" "stop_ok (unstarted_client cn s x)"
  by (simp_all add: client_inv_def table_ok_def serving_ok_def stop_ok_def unstarted_client_def)

lemma apply_client_option_frame:
  "\<exists>cn t. apply_client_option opt c = c\<lparr>conn := cn, timeout := t\<rparr>"
proof (cases opt)
  case (Timeout d)
  then show ?thesis by (intro exI [of _ "conn c"] exI [of _ d]) simp
next
  case (ConnWaitTime d)
  then show ?thesis by (intro exI [of _ "(conn c)\<lparr>WaitTime := d\<rparr>"] exI [of _ "timeout c"]) simp
next
  case (ConnAttempts d)
  then show ?thesis by (intro exI [of _ "(conn c)\<lparr>Attempts := d\<rparr>"] exI [of _ "timeout c"]) simp
qed

lemma apply_client_options_frame:
  "\<exists>cn t. fold apply_client_option opts c = c\<lparr>conn := cn, timeout := t\<rparr>"
proof (induction opts arbitrary: c)
  case Nil
  show ?case by (intro exI [of _ "conn c"] exI [of _ "timeout c"]) simp
next
  case (Cons opt opts)
  obtain cn t where "apply_client_option opt c = c\<lparr>conn := cn, timeout := t\<rparr>"
    using apply_client_option_frame by blast
  with Cons.IH [of "apply_client_option opt c"] show ?case by auto
qed

lemma unstarted_client_update:
  "(unstarted_client cn s x)\<lparr>conn := cn1, timeout := t, conn := cn', net := s'\<rparr> =
     (unstarted_client cn' s' x)\<lparr>timeout := t\<rparr>"
  by (simp add: unstarted_client_def)

lemma NewClient_state:
  fixes c :: "'v client"
  assumes "NewClient qn url x cx opts s = (Inr c, s')"
  shows "\<exists>cn t. c = (unstarted_client cn s' x)\<lparr>timeout := t\<rparr>"
proof -
  let ?c0 = "unstarted_client (new_connection cx url 5000000000 10) s x :: 'v client"
  obtain cn t where "fold apply_client_option opts ?c0 = ?c0\<lparr>conn := cn, timeout := t\<rparr>"
    using apply_client_options_frame by blast
  moreover from assms obtain cn' where
    "c = (fold apply_client_option opts ?c0)\<lparr>conn := cn', net := s'\<rparr>"
    by (auto simp: NewClient_def Let_def split: option.splits prod.splits)
  ultimately have "c = ?c0\<lparr>conn := cn, timeout := t, conn := cn', net := s'\<rparr>" by simp
  then show ?thesis unfolding unstarted_client_update by blast
qed

lemma timeout_inv [simp]:
  "client_inv decode (c\<lparr>timeout := t\<rparr>) = client_inv decode c" "stop_ok (c\<lparr>timeout := t\<rparr>) = stop_ok c"
  by (simp_all add: client_inv_def table_ok_def serving_ok_def stop_ok_def served_def cong: receiver.case_cong)

lemma NewClient_well_connected:
  fixes c :: "'v client"
  assumes "NewClient qn url x cx opts s = (Inr c, s')" and "\<forall>n. rm_answer s n = None" and "0 < Attempts (conn c)"
  shows "well_connected c"
proof -
  obtain c1 :: "'v client" and cn where c: "AttemptConnect qn (conn c1, s) = (None, (cn, s'))" "c = c1\<lparr>conn := cn, net := s'\<rparr>"
    using assms(1) by (auto simp: NewClient_def Let_def split: option.splits prod.splits)
  from AttemptConnect_unrefused [OF assms(2) c(1)] assms(2,3) c(2) show ?thesis
    by (simp add: well_connected_def)
qed

lemma NewClient_inv:
  assumes "NewClient qn url x cx opts s = (Inr c, s')"
  shows "client_inv decode c" "stop_ok c"
  using NewClient_state [OF assms] by auto

lemma run_inv_panics:
  assumes "client_run decode qn c0 c" and "client_inv decode c0" and "stop_ok c0" and "panicked c0 = None"
    and "distinct (map d_correlation_id (received c))" and "length (shutdowns c) \<le> 1"
  shows "(panicked c = None \<or> panicked c = Some nil_dereference \<and> unconnected c) \<and>
    client_inv decode c \<and> stop_ok c"
  using assms
proof (induction rule: client_run.induct)
  case (more c m n)
  from client_step_grows [OF more(2)] more(7,8)
  have "distinct (map d_correlation_id (received m))" "length (shutdowns m) \<le> 1" by auto
  with more have "client_inv decode m \<and> stop_ok m" by blast
  then show ?case
    using client_step_panics [OF more(2)] client_inv_step [OF more(2)] stop_ok_step [OF more(2)] more(7,8)
    by blast
qed simp

section \<open>Registered calls\<close>

text \<open>
  With identifiers that differ, a call that is waiting is the one its identifier leads to.
\<close>

definition registered_ok :: "'v client \<Rightarrow> bool" where
  "registered_ok c \<longleftrightarrow> (\<forall>i < length (callers c).
     phase (callers c ! i) = Waiting \<or> (\<exists>r. phase (callers c ! i) = Leaving r) \<longrightarrow>
     calls c (corr_id (callers c ! i)) = Some i)"

lemma distinct_corr:
  assumes "distinct (map corr_id cs)" and "i < length cs" and "j < length cs" and "corr_id (cs ! i) = corr_id (cs ! j)"
  shows "i = j"
  using assms by (metis length_map nth_eq_iff_index_eq nth_map)

lemma map_corr_id_update: "corr_id y = corr_id (cs ! i) \<Longrightarrow> map corr_id (cs[i := y]) = map corr_id cs"
  by (rule nth_equalityI) (simp_all add: nth_update_same)

lemma registered_ok_step:
  "client_step decode qn c c' \<Longrightarrow> distinct (map corr_id (callers c')) \<Longrightarrow> registered_ok c \<Longrightarrow> registered_ok c'"
proof (induction rule: client_step.induct)
  case (RemoteCall c corr handler request)
  then show ?case by (auto simp: registered_ok_def nth_append new_caller_def less_Suc_eq)
next
  case (publish i c r c')
  with client_publish_frame [OF publish(2)] show ?case
    by (auto simp: registered_ok_def caller_at_def nth_list_update split: option.splits)
next
  case (addCall i c)
  then show ?case
    by (auto simp: registered_ok_def caller_at_def nth_list_update map_corr_id_update dest: distinct_corr)
next
  case (deleteCall i r c)
  then show ?case
    by (auto simp: registered_ok_def caller_at_def nth_list_update map_corr_id_update dest: distinct_corr)
next
  case (serve d i c)
  then show ?case by (auto simp: registered_ok_def nth_update_same)
qed (auto simp: registered_ok_def caller_at_def nth_list_update Let_def split: if_splits option.splits prod.splits)

lemma corr_ids_grow:
  "client_step decode qn c c' \<Longrightarrow> \<exists>ks. map corr_id (callers c') = map corr_id (callers c) @ ks"
proof (induction rule: client_step.induct)
  case (publish i c r c')
  with client_publish_frame [OF publish(2)] show ?case by (simp add: map_corr_id_update)
qed (simp_all add: map_corr_id_update Let_def split: option.splits prod.splits)

lemma registered_ok_run:
  "client_run decode qn c c' \<Longrightarrow> distinct (map corr_id (callers c')) \<Longrightarrow> registered_ok c \<Longrightarrow> registered_ok c'"
proof (induction rule: client_run.induct)
  case (more c m n)
  from corr_ids_grow [OF more(2)] more(4) have "distinct (map corr_id (callers m))" by force
  with more show ?case using registered_ok_step [OF more(2)] by blast
qed simp

lemma client_run_step: "client_run decode qn c m \<Longrightarrow> client_step decode qn m n \<Longrightarrow> client_run decode qn c n"
  by (rule client_run.more)

lemma client_run_trans: "client_run decode qn c m \<Longrightarrow> client_run decode qn m n \<Longrightarrow> client_run decode qn c n"
  by (rotate_tac, induction rule: client_run.induct) (auto intro: client_run.more)

text \<open>The steps that bring a reply to the call that waits for it: three after it was received.\<close>

lemma serving_call_answered:
  fixes d :: delivery
  assumes "caller_at i Waiting c" and "receiver c = Serving d (Some i)" and "\<not> pc_done (callers c ! i)"
  shows "\<exists>c'. client_run decode qn c c' \<and> received c' = received c \<and> callers c' = (callers c)[i :=
    (callers c ! i)\<lparr>pc_status := d_type d, pc_body := d_body d, pc_done := True,
       phase := Returned (rmq_result decode (d_type d) (d_body d))\<rparr>]"
proof -
  let ?r = "rmq_result decode (d_type d) (d_body d)"
  let ?c2 = "client_ack d (finish_call i d c)"
  let ?c3 = "set_phase i (Leaving ?r) ?c2"
  let ?c4 = "deleteCall (corr_id (callers ?c3 ! i)) (set_phase i (Returned ?r) ?c3)"
  from assms(1) have here: "panicked c = None" "i < length (callers c)" "phase (callers c ! i) = Waiting"
    by (simp_all add: caller_at_def)
  have "client_step decode qn c ?c2"
    by (rule client_step.serve) (simp add: receiver_at_def here assms(2))
  moreover have "client_step decode qn ?c2 ?c3"
    using client_step.wait_done [of i ?c2 decode qn] here assms(3) by (simp add: caller_at_def)
  moreover have "client_step decode qn ?c3 ?c4"
    using here assms(3) by (intro client_step.deleteCall) (simp add: caller_at_def)
  ultimately have "client_run decode qn c ?c4" by (meson client_run.intros)
  then show ?thesis using here by (intro exI [of _ ?c4]) simp
qed

lemma waiting_call_answered:
  fixes d :: delivery
  assumes "caller_at i Waiting c" and "receiver c = Receiving" and "Delivery (conn c) \<noteq> None"
    and "\<not> pc_done (callers c ! i)" and "calls c (corr_id (callers c ! i)) = Some i" and "d_correlation_id d = corr_id (callers c ! i)"
  shows "\<exists>c'. client_run decode qn c c' \<and> i < length (callers c') \<and>
    phase (callers c' ! i) = Returned (rmq_result decode (d_type d) (d_body d))"
proof -
  let ?c1 = "c\<lparr>received := received c @ [d], receiver := Serving d (Some i)\<rparr>"
  have step: "client_step decode qn c ?c1"
    using client_step.receive [of c decode qn d] assms by (simp add: receiver_at_def caller_at_def)
  have "caller_at i Waiting ?c1" using assms(1) by (simp add: caller_at_def)
  from serving_call_answered [OF this, of d decode qn] assms(4) obtain c' where
    c': "client_run decode qn ?c1 c'" "callers c' = (callers c)[i := (callers c ! i)\<lparr>pc_status := d_type d,
       pc_body := d_body d, pc_done := True, phase := Returned (rmq_result decode (d_type d) (d_body d))\<rparr>]"
    by auto
  from client_run_trans [OF client_run.more [OF client_run.here step] c'(1)] have "client_run decode qn c c'" .
  with c'(2) assms(1) show ?thesis by (intro exI [of _ c']) (simp add: caller_at_def)
qed

end
