(* ===== verification/RpcCalls.thy ===== *)
theory RpcCalls
  imports RpcClient
begin

text \<open>
  What holds of every run of the RabbitMQ client of remote calls: it does not panic, a call gets
  its own reply or a failure of its own side, the table of calls does not grow, and a registered
  call is answered by its reply; and what goes wrong at the edges.
\<close>

section \<open>Runs that exist\<close>

text \<open>A connected client that was neither stopped nor cut off, with a receiver ready for the next delivery.\<close>

definition receiving_client :: "'v client \<Rightarrow> bool" where
  "receiving_client c \<longleftrightarrow> panicked c = None \<and> receiver c = Receiving \<and> ctx_err c = None \<and>
     \<not> stop_closed c \<and> \<not> notify_closed c \<and> linked (conn c)"

lemma receiving_clientD:
  "receiving_client c \<Longrightarrow> receiver_at Receiving c" "receiving_client c \<Longrightarrow> Delivery (conn c) \<noteq> None"
  by (simp_all add: receiving_client_def receiver_at_def linked_def)

definition request_message :: "'v client \<Rightarrow> string \<Rightarrow> string \<Rightarrow> bytes \<Rightarrow> amqp_call" where
  "request_message c corr handler body = Publish (conn_Channel (conn c)) (serverExchange c) '''' False False
     \<lparr>pb_content_type = ''application/json'', pb_correlation_id = corr,
      pb_reply_to = ConsumerExchange (conn c), pb_type = handler, pb_body = body\<rparr>"

lemma call_is_published:
  assumes "receiving_client c" and "rm_answer (net c) (next_handle (net c)) = None"
  shows "\<exists>c'. client_run decode qn c c' \<and> receiving_client c' \<and>
    callers c' = callers c @ [(new_caller corr handler (Some (Inr body)))\<lparr>phase := Published\<rparr>] \<and>
    calls c' = calls c \<and> received c' = received c \<and> shutdowns c' = shutdowns c \<and> conn c' = conn c \<and>
    rm_calls (net c') = rm_calls (net c) @ [request_message c corr handler body]"
proof -
  let ?n = "length (callers c)" and ?q = "Some (Inr body)"
  let ?c1 = "c\<lparr>callers := callers c @ [new_caller corr handler ?q]\<rparr>"
  let ?c2 = "set_phase ?n Ready ?c1"
  obtain ch where "conn_Channel (conn c) = Some ch"
    using assms(1) by (auto simp: receiving_client_def linked_def)
  then obtain c3 where pub: "client_publish corr handler ?q ?c2 = (Ret None, c3)"
    and c3: "callers c3 = callers ?c2" "c3 = ?c2\<lparr>net := net c3\<rparr>"
      "rm_calls (net c3) = rm_calls (net c) @ [request_message c corr handler body]"
    using assms(2) by (simp add: client_publish_def ask_def request_message_def set_phase_def)
  let ?c4 = "set_phase ?n Published c3"
  have "client_step decode qn c ?c1"
    using assms(1) by (intro client_step.RemoteCall) (simp add: receiving_client_def)
  moreover have "client_step decode qn ?c1 ?c2"
    using assms(1) by (intro client_step.pre_default) (auto simp: caller_at_def receiving_client_def new_caller_def)
  moreover have "client_step decode qn ?c2 ?c4"
    using assms(1) client_step.publish [of ?n ?c2 None c3 decode qn] pub
    by (simp add: caller_at_def receiving_client_def new_caller_def)
  ultimately have "client_run decode qn c ?c4" by (meson client_run.intros)
  moreover have "receiver c3 = receiver c" "panicked c3 = panicked c" "ctx_err c3 = ctx_err c"
    "stop_closed c3 = stop_closed c" "notify_closed c3 = notify_closed c" "calls c3 = calls c"
    "received c3 = received c" "shutdowns c3 = shutdowns c" "conn c3 = conn c"
    by (subst c3(2), simp)+
  ultimately show ?thesis using c3(1,3) assms(1)
    by (intro exI [of _ ?c4]) (simp add: receiving_client_def nth_append)
qed

lemma published_call_waits:
  assumes "receiving_client c" and "callers c = cs @ [cl]" and "phase cl = Published"
  shows "\<exists>c'. client_run decode qn c c' \<and> receiving_client c' \<and> callers c' = cs @ [cl\<lparr>phase := Waiting\<rparr>] \<and>
    calls c' = (calls c)(corr_id cl \<mapsto> length cs) \<and> received c' = received c \<and> shutdowns c' = shutdowns c \<and>
    conn c' = conn c \<and> net c' = net c"
proof -
  let ?c' = "addCall (corr_id (callers c ! length cs)) (length cs) (set_phase (length cs) Waiting c)"
  have "client_step decode qn c ?c'"
    using assms by (intro client_step.addCall) (simp add: caller_at_def receiving_client_def)
  then have "client_run decode qn c ?c'" by (meson client_run.intros)
  with assms show ?thesis by (intro exI [of _ ?c']) (simp add: receiving_client_def)
qed

lemma call_waits:
  assumes "receiving_client c" and "rm_answer (net c) (next_handle (net c)) = None"
  shows "\<exists>c'. client_run decode qn c c' \<and> receiving_client c' \<and>
    callers c' = callers c @ [(new_caller corr handler (Some (Inr body)))\<lparr>phase := Waiting\<rparr>] \<and>
    calls c' = (calls c)(corr \<mapsto> length (callers c)) \<and> received c' = received c \<and> shutdowns c' = shutdowns c \<and>
    conn c' = conn c \<and> rm_calls (net c') = rm_calls (net c) @ [request_message c corr handler body]"
proof -
  obtain m where m: "client_run decode qn c m" "receiving_client m"
    "callers m = callers c @ [(new_caller corr handler (Some (Inr body)))\<lparr>phase := Published\<rparr>]"
    "calls m = calls c" "received m = received c" "shutdowns m = shutdowns c" "conn m = conn c"
    "rm_calls (net m) = rm_calls (net c) @ [request_message c corr handler body]"
    using call_is_published [OF assms] by blast
  from published_call_waits [where decode = decode and qn = qn, OF m(2,3)] obtain c' where "client_run decode qn m c'" "receiving_client c'"
    "callers c' = callers c @ [(new_caller corr handler (Some (Inr body)))\<lparr>phase := Waiting\<rparr>]"
    "calls c' = (calls c)(corr \<mapsto> length (callers c))" "received c' = received c" "shutdowns c' = shutdowns c"
    "conn c' = conn c" "rm_calls (net c') = rm_calls (net c) @ [request_message c corr handler body]"
    using m(4-8) by (auto simp: new_caller_def)
  with client_run_trans [OF m(1)] show ?thesis by blast
qed

text \<open>A client that could connect, and a decoder that takes a body for what it is.\<close>

definition sample_amqp0 :: amqp where "sample_amqp0 = sample_amqp (\<lambda>n. None)"

definition sample_decode :: "bytes \<Rightarrow> goerr + bytes" where "sample_decode b = Inr b"

definition sample_queue :: "nat \<Rightarrow> string" where "sample_queue n = ''amq.gen''"

lemma sample_client:
  "\<exists>c s. NewClient sample_queue ''amqp://broker'' ''rpc_server'' ''rpc_client'' [] sample_amqp0 =
       (Inr (c :: bytes client), s) \<and> receiving_client c \<and> callers c = [] \<and> received c = [] \<and> shutdowns c = [] \<and>
     rm_answer (net c) (next_handle (net c)) = None \<and> calls c = (\<lambda>k. None) \<and> Attempts (conn c) = 10"
proof -
  have "case (NewClient sample_queue ''amqp://broker'' ''rpc_server'' ''rpc_client'' [] sample_amqp0 ::
      (goerr + bytes client) \<times> amqp) of
        (Inr c, s) \<Rightarrow> rm_answer s (next_handle s) = None \<and> linked (conn c) \<and> Attempts (conn c) = 10 | _ \<Rightarrow> False"
    by code_simp
  then obtain c :: "bytes client" and s where
    new: "NewClient sample_queue ''amqp://broker'' ''rpc_server'' ''rpc_client'' [] sample_amqp0 = (Inr c, s)"
    and "rm_answer s (next_handle s) = None" "linked (conn c)" "Attempts (conn c) = 10"
    by (auto split: prod.splits sum.splits)
  with NewClient_state [OF new] new show ?thesis
    by (auto simp: receiving_client_def unstarted_client_def)
qed


section \<open>Safety\<close>

text \<open>
  C11. When the client panics. In every interleaving in which no two deliveries carry the same
  identifier and \<open>Shutdown\<close> is called at most once, a goroutine of the client panics only by using a
  connection or a channel that is nil at that moment; and with at least one attempt to connect and a
  broker that refuses none of the driver's calls, none panics at all.
\<close>

theorem client_panics_only_unconnected:
  assumes "NewClient qn url x cx opts s = (Inr c0, s')" and "client_run decode qn c0 c"
    and "distinct (map d_correlation_id (received c))" and "length (shutdowns c) \<le> 1"
  shows "(panicked c \<noteq> None \<longrightarrow> panicked c = Some nil_dereference \<and>
       (conn_Connection (conn c) = None \<or> conn_Channel (conn c) = None)) \<and>
     ((\<forall>n. rm_answer s n = None) \<and> 0 < Attempts (conn c0) \<longrightarrow> panicked c = None)"
proof -
  from NewClient_state [OF assms(1)] have "panicked c0 = None" by (auto simp: unstarted_client_def)
  with run_inv_panics [OF assms(2) NewClient_inv [OF assms(1)] _ assms(3,4)]
  have "panicked c = None \<or> panicked c = Some nil_dereference \<and> unconnected c" by blast
  moreover have "\<not> unconnected c" if "\<forall>n. rm_answer s n = None" "0 < Attempts (conn c0)"
    using well_connected_run [OF assms(2) NewClient_well_connected [OF assms(1) that]]
    by (simp add: well_connected_def linked_def unconnected_def)
  ultimately show ?thesis by (auto simp: unconnected_def)
qed

definition sample_reply :: delivery where
  "sample_reply = \<lparr>d_tag = 1, d_type = Success, d_correlation_id = ''id-1'', d_reply_to = '''',
     d_body = ''ok''\<rparr>"

definition sample_caller :: "bytes caller" where
  "sample_caller = (new_caller ''id-1'' ''v1.get'' (Some (Inr ''{}'')))\<lparr>phase := Waiting\<rparr>"

lemma sample_caller_sel [simp]:
  "phase sample_caller = Waiting" "corr_id sample_caller = ''id-1''" "\<not> pc_done sample_caller"
  by (simp_all add: sample_caller_def new_caller_def)

lemma sample_call:
  "\<exists>c0 s c. NewClient sample_queue ''amqp://broker'' ''rpc_server'' ''rpc_client'' [] sample_amqp0 = (Inr c0, s) \<and>
     client_run sample_decode sample_queue c0 c \<and> receiving_client c \<and> received c = [] \<and> shutdowns c = [] \<and>
     callers c = [sample_caller] \<and> calls c = [''id-1'' \<mapsto> 0] \<and> Attempts (conn c0) = 10"
proof -
  obtain c :: "bytes client" and s where
    new: "NewClient sample_queue ''amqp://broker'' ''rpc_server'' ''rpc_client'' [] sample_amqp0 = (Inr c, s)"
    "receiving_client c" "callers c = []" "received c = []" "shutdowns c = []" "calls c = (\<lambda>k. None)"
    "rm_answer (net c) (next_handle (net c)) = None" "Attempts (conn c) = 10"
    using sample_client by blast
  from call_waits [OF new(2,7), of sample_decode sample_queue "''id-1''" "''v1.get''" "''{}''"] new
  show ?thesis by (auto simp: sample_caller_def)
qed

theorem client_panics_only_unconnected_witness:
  "\<exists>c :: bytes client. panicked c = None \<and> length (callers c) = 1"
proof -
  obtain c0 :: "bytes client" and s c where
    new: "NewClient sample_queue ''amqp://broker'' ''rpc_server'' ''rpc_client'' [] sample_amqp0 = (Inr c0, s)" and
    run: "client_run sample_decode sample_queue c0 c" and c: "received c = []" "shutdowns c = []"
      "callers c = [sample_caller]" "Attempts (conn c0) = 10"
    using sample_call by blast
  have "panicked c = None" using client_panics_only_unconnected [OF new run] c
    by (simp add: sample_amqp0_def sample_amqp_def)
  with c(3) show ?thesis by auto
qed

text \<open>
  While the receiver is between two attempts to reconnect, the channel may be nil: \<open>connect\<close> assigns
  the field before it looks at the error. A call that comes in then brings the process down.
\<close>

lemma call_while_reconnecting_panics:
  assumes "receiving_client c" and "1 < Attempts (conn c)"
    and "connect qn (conn c, net c) = (Some e, (cn, s))" and "conn_Channel cn = None"
  shows "\<exists>c'. client_run decode qn c c' \<and> panicked c' = Some nil_dereference"
proof -
  obtain n where n: "nat (Attempts (conn c)) = Suc (Suc n)"
    using assms(2) by (intro that [of "nat (Attempts (conn c)) - 2"]) simp
  let ?k = "length (callers c)"
  let ?c1 = "c\<lparr>receiver := Reconnecting (Suc (Suc n))\<rparr>"
  let ?c2 = "?c1\<lparr>conn := cn, net := sleep (WaitTime cn) s, receiver := Reconnecting (Suc n)\<rparr>"
  let ?c3 = "?c2\<lparr>callers := callers ?c2 @ [new_caller '''' '''' None]\<rparr>"
  let ?c4 = "set_phase ?k Ready ?c3"
  have "client_step decode qn c ?c1"
    using client_step.delivery_closed [OF receiving_clientD [OF assms(1)], of decode qn] n by simp
  moreover have "client_step decode qn ?c1 ?c2"
    using client_step.attempt_fails [of "Suc n" ?c1 qn e cn s decode] assms(1,3)
    by (simp add: receiver_at_def receiving_client_def)
  moreover have "client_step decode qn ?c2 ?c3"
    using client_step.RemoteCall [of ?c2 decode qn "''''" "''''" None] assms(1)
    by (simp add: receiving_client_def)
  moreover have "client_step decode qn ?c3 ?c4"
    using assms(1) by (intro client_step.pre_default) (auto simp: caller_at_def receiving_client_def new_caller_def)
  moreover have "client_step decode qn ?c4 (?c4\<lparr>panicked := Some nil_dereference\<rparr>)"
    using client_step.publish_panics [of ?k ?c4 nil_dereference ?c4 decode qn] assms(1,4)
    by (simp add: caller_at_def receiving_client_def new_caller_def client_publish_def)
  ultimately have "client_run decode qn c (?c4\<lparr>panicked := Some nil_dereference\<rparr>)"
    by (meson client_run.intros)
  then show ?thesis by (intro exI [of _ "?c4\<lparr>panicked := Some nil_dereference\<rparr>"]) simp
qed

text \<open>
  C12. The property: a call that comes back without a failure of its own side was answered by a delivery
  with its own identifier, whose status and body its result is; and when every call has returned the
  table of calls is empty.
\<close>

theorem call_returns_own_reply:
  assumes "NewClient qn url x cx opts s = (Inr c0, s')" and "client_run decode qn c0 c"
  shows "(\<forall>i r. i < length (callers c) \<longrightarrow> phase (callers c ! i) = Returned r \<longrightarrow> \<not> local_failure r \<longrightarrow>
      (\<exists>d \<in> set (received c). d_correlation_id d = corr_id (callers c ! i) \<and>
         r = rmq_result decode (d_type d) (d_body d))) \<and>
    ((\<forall>cl \<in> set (callers c). \<exists>r. phase cl = Returned r) \<longrightarrow> calls c = Map.empty)"
proof -
  have inv: "client_inv decode c" by (rule client_inv_run [OF assms(2) NewClient_inv(1) [OF assms(1)]])
  have "\<exists>d \<in> set (received c). d_correlation_id d = corr_id (callers c ! i) \<and>
         r = rmq_result decode (d_type d) (d_body d)"
    if "i < length (callers c)" "phase (callers c ! i) = Returned r" "\<not> local_failure r" for i r
  proof -
    from inv that(1,2) have "result_ok decode (served c) (callers c ! i) r"
      by (auto simp: client_inv_def caller_ok_def)
    with that(3) served_received [of c] show ?thesis by (auto simp: result_ok_def answers_def)
  qed
  moreover have "calls c k = None" if "\<forall>cl \<in> set (callers c). \<exists>r. phase cl = Returned r" for k
  proof (cases "calls c k")
    case (Some i)
    with inv table_okD [of c k i] have "i < length (callers c)"
      "phase (callers c ! i) = Waiting \<or> (\<exists>r. phase (callers c ! i) = Leaving r)"
      by (auto simp: client_inv_def)
    with that nth_mem [of i "callers c"] show ?thesis by fastforce
  qed
  ultimately show ?thesis by blast
qed

theorem call_returns_own_reply_witness:
  "\<exists>c :: bytes client. phase (callers c ! 0) = Returned (Answered ''ok'') \<and>
     (\<exists>d \<in> set (received c). d_correlation_id d = corr_id (callers c ! 0))"
proof -
  obtain c0 :: "bytes client" and s c where
    new: "NewClient sample_queue ''amqp://broker'' ''rpc_server'' ''rpc_client'' [] sample_amqp0 = (Inr c0, s)" and
    run: "client_run sample_decode sample_queue c0 c" and c: "receiving_client c"
      "callers c = [sample_caller]" "calls c = [''id-1'' \<mapsto> 0]"
    using sample_call by blast
  from c waiting_call_answered [of 0 c sample_reply sample_decode sample_queue] obtain c' where
    run': "client_run sample_decode sample_queue c c'" and c': "0 < length (callers c')"
      "phase (callers c' ! 0) = Returned (rmq_result sample_decode Success ''ok'')"
    by (auto simp: caller_at_def receiving_client_def sample_reply_def linked_def)
  have r: "rmq_result sample_decode Success ''ok'' = Answered ''ok''"
    by (simp add: rmq_result_def sample_decode_def)
  have "\<not> local_failure (Answered ''ok'' :: bytes call_result)"
    by (auto simp: local_failure_def pre_failed_def publish_failed_def wait_failed_def)
  with call_returns_own_reply [OF new client_run_trans [OF run run']] c' r show ?thesis by metis
qed

section \<open>Liveness\<close>

text \<open>
  The property: with identifiers that differ, a call that waits while the receiver is ready can
  always be answered: some continuation delivers the reply and the call returns what it says,
  whatever else has happened before.
\<close>

theorem waiting_call_can_be_answered:
  assumes "NewClient qn url x cx opts s = (Inr c0, s')" and "client_run decode qn c0 c"
    and "distinct (map corr_id (callers c))" and "caller_at i Waiting c" and "receiver c = Receiving"
    and "\<not> pc_done (callers c ! i)" and "Delivery (conn c) \<noteq> None"
    and "d_correlation_id (d :: delivery) = corr_id (callers c ! i)"
  shows "\<exists>c'. client_run decode qn c c' \<and>
    phase (callers c' ! i) = Returned (rmq_result decode (d_type d) (d_body d))"
proof -
  from NewClient_state [OF assms(1)] have "registered_ok c0"
    by (auto simp: registered_ok_def unstarted_client_def)
  from registered_ok_run [OF assms(2,3) this] assms(4) have "calls c (corr_id (callers c ! i)) = Some i"
    by (simp add: registered_ok_def caller_at_def)
  from waiting_call_answered [OF assms(4,5,7,6) this assms(8)] show ?thesis by blast
qed

theorem waiting_call_can_be_answered_witness:
  "\<exists>c :: bytes client. phase (callers c ! 0) = Returned (Failed ErrBadHandler)"
proof -
  obtain c0 :: "bytes client" and s c where
    new: "NewClient sample_queue ''amqp://broker'' ''rpc_server'' ''rpc_client'' [] sample_amqp0 = (Inr c0, s)" and
    run: "client_run sample_decode sample_queue c0 c" and c: "receiving_client c"
      "callers c = [sample_caller]"
    using sample_call by blast
  let ?d = "sample_reply\<lparr>d_type := err_msg ErrBadHandler\<rparr>"
  have "\<exists>c'. client_run sample_decode sample_queue c c' \<and>
      phase (callers c' ! 0) = Returned (rmq_result sample_decode (d_type ?d) (d_body ?d))"
    by (rule waiting_call_can_be_answered [OF new run])
      (use c in \<open>simp_all add: caller_at_def receiving_client_def sample_reply_def linked_def\<close>)
  then show ?thesis by (auto simp: rmq_result_def)
qed

section \<open>At the edges\<close>

text \<open>
  \<open>RemoteCall\<close> publishes before it registers the call. A reply that is received in between finds
  nobody, is acknowledged and gone: the call then waits for a reply that was already delivered.
\<close>

lemma early_reply_is_lost:
  fixes d :: delivery
  assumes "receiving_client c" and "rm_answer (net c) (next_handle (net c)) = None"
    and "calls c (d_correlation_id d) = None"
  shows "\<exists>c'. client_run decode qn c c' \<and> receiving_client c' \<and> received c' = received c @ [d] \<and>
    callers c' = callers c @ [(new_caller (d_correlation_id d) handler (Some (Inr body)))\<lparr>phase := Waiting\<rparr>]"
proof -
  let ?new = "new_caller (d_correlation_id d) handler (Some (Inr body))"
  obtain m where m: "client_run decode qn c m" "receiving_client m" "callers m = callers c @ [?new\<lparr>phase := Published\<rparr>]"
    "calls m = calls c" "received m = received c"
    using call_is_published [OF assms(1,2)] by blast
  let ?m1 = "m\<lparr>received := received m @ [d], receiver := Serving d None\<rparr>"
  let ?m2 = "client_ack d ?m1"
  have "client_step decode qn m ?m1"
    using client_step.receive [OF receiving_clientD [OF m(2)], of decode qn d] m(4) assms(3)
    by simp
  moreover have "client_step decode qn ?m1 ?m2"
    using m(2) by (intro client_step.serve_unknown) (simp add: receiver_at_def receiving_client_def)
  ultimately have run: "client_run decode qn m ?m2" by (meson client_run.intros)
  have ready: "receiving_client ?m2"
    using m(2) by (simp add: receiving_client_def client_ack_def)
  obtain c' where "client_run decode qn ?m2 c'" "receiving_client c'" "received c' = received c @ [d]"
    "callers c' = callers c @ [?new\<lparr>phase := Waiting\<rparr>]"
    using published_call_waits [OF ready, of "callers c" "?new\<lparr>phase := Published\<rparr>"] m(3,5) by auto
  with client_run_trans [OF client_run_trans [OF m(1) run]] show ?thesis by blast
qed

text \<open>A second reply to a call that is still in the table closes its channel again and panics.\<close>

lemma duplicate_reply_panics:
  fixes d :: delivery
  assumes "receiver_at Receiving c" and "Delivery (conn c) \<noteq> None" and "calls c (d_correlation_id d) = Some i"
    and "i < length (callers c)" and "pc_done (callers c ! i)"
  shows "\<exists>c'. client_run decode qn c c' \<and> panicked c' = Some ''close of closed channel''"
proof -
  let ?c1 = "c\<lparr>received := received c @ [d], receiver := Serving d (Some i)\<rparr>"
  have "client_step decode qn c ?c1"
    using client_step.receive [OF assms(1,2), of decode qn d] assms(3) by simp
  moreover have "client_step decode qn ?c1 (client_ack d (finish_call i d ?c1))"
    using assms(1) by (intro client_step.serve) (simp add: receiver_at_def)
  ultimately have "client_run decode qn c (client_ack d (finish_call i d ?c1))" by (meson client_run.intros)
  moreover have "panicked (client_ack d (finish_call i d ?c1)) = Some ''close of closed channel''"
    using assms(5) by (simp add: finish_call_def Let_def)
  ultimately show ?thesis by blast
qed

text \<open>
  After a failed reconnection the receiver hands its error to a call; when nobody calls any more it
  waits for ever, and so does \<open>Shutdown\<close>, which waits for it.
\<close>

definition all_returned :: "'v client \<Rightarrow> bool" where
  "all_returned c \<longleftrightarrow> (\<forall>i < length (callers c). \<exists>r. phase (callers c ! i) = Returned r)"

lemma stuck_step:
  "client_step decode qn c c' \<Longrightarrow> receiver c = Reporting e \<Longrightarrow> all_returned c \<Longrightarrow>
     length (callers c') = length (callers c) \<Longrightarrow> \<forall>r. ShutDown r \<notin> set (shutdowns c) \<Longrightarrow>
     receiver c' = Reporting e \<and> all_returned c' \<and> (\<forall>r. ShutDown r \<notin> set (shutdowns c'))"
  by (induction rule: client_step.induct) (auto simp: caller_at_def receiver_at_def all_returned_def)

lemma Shutdown_can_hang:
  assumes "client_run decode qn c c'" and "receiver c = Reporting e" and "all_returned c"
    and "length (callers c') = length (callers c)" and "\<forall>r. ShutDown r \<notin> set (shutdowns c)"
  shows "receiver c' = Reporting e \<and> all_returned c' \<and> (\<forall>r. ShutDown r \<notin> set (shutdowns c'))"
  using assms
proof (induction rule: client_run.induct)
  case (more c m n)
  from client_step_grows [OF more(2)] client_run_grows [OF more(1)] more(6)
  have "length (callers m) = length (callers c)" "length (callers n) = length (callers m)" by auto
  with more stuck_step [OF more(2)] show ?case by blast
qed blast

end
