(* ===== verification/RpcServer.thy ===== *)
theory RpcServer
  imports RpcClient Logger
begin

text \<open>
  The server of the remote calls over RabbitMQ, \<open>pkg/rabbitmq/rmq_rpc/server/server.go\<close>: how one
  delivery is served. The life of its goroutine is in the theory \<open>ServerLife\<close>.
\<close>

section \<open>Handlers and their outcome\<close>

text \<open>
  A handler works on the state of the application and may panic; \<open>'d\<close> is the message it is given.
\<close>

type_synonym ('d, 'a, 'v) call_handler = "'d \<Rightarrow> 'a \<Rightarrow> (goerr + 'v) outcome \<times> 'a"

type_synonym ('d, 'a, 'v) router = "string \<Rightarrow> ('d, 'a, 'v) call_handler option"

text \<open>The specification: look the handler up and call it.\<close>

definition invoke ::
  "('d, 'a, 'v) router \<Rightarrow> string \<Rightarrow> 'd \<Rightarrow> 'a \<Rightarrow> 'v handler_result outcome \<times> 'a" where
  "invoke routes name d a =
     (case routes name of
        None \<Rightarrow> (Ret NoHandler, a)
      | Some h \<Rightarrow> (case h d a of
          (Panic m, a') \<Rightarrow> (Panic m, a')
        | (Ret (Inl e), a') \<Rightarrow> (Ret (HandlerError e), a')
        | (Ret (Inr v), a') \<Rightarrow> (Ret (HandlerValue v), a')))"

text \<open>\<open>NewRouter\<close> of \<open>internal/controller/amqp_rpc\<close> and \<open>nats_rpc\<close>: no routes are registered yet.\<close>

definition amqp_routes :: "(delivery, 'a, 'v) router" where "amqp_routes = (\<lambda>name. None)"

section \<open>The server\<close>

text \<open>
  What a server works on: its transport \<open>'n\<close>, the application and the log. For this one the transport
  is the connection, which a reconnection replaces, and the driver behind it.
\<close>

record ('n, 'a) server_world =
  sw_net :: 'n
  sw_app :: 'a
  sw_lines :: "(zlevel \<times> string) list"

type_synonym 'a rmq_world = "(connection \<times> amqp, 'a) server_world"

text \<open>The driver is asked for one more call; its error is returned.\<close>

definition rmq_ask :: "amqp_call \<Rightarrow> 'a rmq_world \<Rightarrow> goerr option \<times> 'a rmq_world" where
  "rmq_ask c w = (case sw_net w of (cn, s) \<Rightarrow> case ask c s of (e, s') \<Rightarrow> (e, w\<lparr>sw_net := (cn, s')\<rparr>))"

definition rmq_calls :: "'a rmq_world \<Rightarrow> amqp_call list" where
  "rmq_calls w = rm_calls (snd (sw_net w))"

text \<open>
  \<open>type Server struct\<close> as far as one delivery goes; \<open>marshal\<close> is \<open>json.Marshal\<close> of \<open>goccy/go-json\<close>
  on the responses.
\<close>

record ('a, 'v) rmq_server =
  rs_router :: "(delivery, 'a, 'v) router"
  rs_logger :: "'a rmq_world logger"
  rs_marshal :: "'v \<Rightarrow> goerr + bytes"

definition rmq_ack :: "('a, 'v) rmq_server \<Rightarrow> delivery \<Rightarrow> 'a rmq_world \<Rightarrow> 'a rmq_world" where
  "rmq_ack srv d w =
     (case rmq_ask (Ack (d_tag d) False) w of
        (Some e, w) \<Rightarrow> lg_Error (rs_logger srv) (AnyErr e) [AnyStr ''rmq_rpc server - Server - ack - d.Ack''] w
      | (None, w) \<Rightarrow> w)"

definition rmq_reply :: "connection \<Rightarrow> delivery \<Rightarrow> string \<Rightarrow> bytes \<Rightarrow> amqp_call" where
  "rmq_reply cn d status body = Publish (conn_Channel cn) (d_reply_to d) '''' False False
     \<lparr>pb_content_type = ''application/json'', pb_correlation_id = d_correlation_id d, pb_reply_to = '''',
      pb_type = status, pb_body = body\<rparr>"

definition rmq_publish ::
  "('a, 'v) rmq_server \<Rightarrow> delivery \<Rightarrow> bytes \<Rightarrow> string \<Rightarrow> 'a rmq_world \<Rightarrow> 'a rmq_world" where
  "rmq_publish srv d body status w =
     (case rmq_ask (rmq_reply (fst (sw_net w)) d status body) w of
        (Some e, w) \<Rightarrow> lg_Error (rs_logger srv) (AnyErr e)
           [AnyStr ''rmq_rpc server - Server - publish - s.conn.Channel.Publish''] w
      | (None, w) \<Rightarrow> w)"

text \<open>
  \<open>serveCall\<close>; the deferred \<open>ack\<close> is the last thing on every way out, also when the handler panics.
  A response that cannot be marshalled is logged and then sent as a success with no body.
\<close>

definition rmq_serveCall ::
  "('a, 'v) rmq_server \<Rightarrow> delivery \<Rightarrow> 'a rmq_world \<Rightarrow> unit outcome \<times> 'a rmq_world" where
  "rmq_serveCall srv d w =
     (case rs_router srv (d_type d) of
        None \<Rightarrow> (Ret (), rmq_ack srv d (rmq_publish srv d '''' (err_msg ErrBadHandler) w))
      | Some callHandler \<Rightarrow>
      (case callHandler d (sw_app w) of
         (Panic m, a) \<Rightarrow> (Panic m, rmq_ack srv d (w\<lparr>sw_app := a\<rparr>))
       | (Ret (Inl e), a) \<Rightarrow>
           (Ret (), rmq_ack srv d
             (lg_Error (rs_logger srv) (AnyErr e) [AnyStr ''rmq_rpc server - Server - serveCall - callHandler'']
               (rmq_publish srv d '''' (err_msg ErrInternalServer) (w\<lparr>sw_app := a\<rparr>))))
       | (Ret (Inr response), a) \<Rightarrow>
           (case rs_marshal srv response of
              Inl e \<Rightarrow> (Ret (), rmq_ack srv d (rmq_publish srv d '''' Success
                (lg_Error (rs_logger srv) (AnyErr e) [AnyStr ''rmq_rpc server - Server - serveCall - json.Marshal'']
                  (w\<lparr>sw_app := a\<rparr>))))
            | Inr body \<Rightarrow> (Ret (), rmq_ack srv d (rmq_publish srv d body Success (w\<lparr>sw_app := a\<rparr>))))))"

text \<open>The status and the body a handler's outcome is answered with.\<close>

fun rmq_answer :: "('v \<Rightarrow> goerr + bytes) \<Rightarrow> 'v handler_result \<Rightarrow> string \<times> bytes" where
  "rmq_answer marshal NoHandler = (err_msg ErrBadHandler, '''')"
| "rmq_answer marshal (HandlerError e) = (err_msg ErrInternalServer, '''')"
| "rmq_answer marshal (HandlerValue v) = (Success, case marshal v of Inr body \<Rightarrow> body | Inl e \<Rightarrow> '''')"

section \<open>What one delivery does\<close>

definition server_view :: "('n, 'a) server_world \<Rightarrow> 'n \<times> 'a" where
  "server_view w = (sw_net w, sw_app w)"

lemma server_view_iff:
  "server_view w = server_view w' \<longleftrightarrow> sw_net w = sw_net w' \<and> sw_app w = sw_app w'"
  by (simp add: server_view_def)

locale serving = quiet_logger log server_view for log :: "('n, 'a) server_world logger"
begin

lemma log_sel [simp]:
  "sw_net (lg_Error log x args w) = sw_net w" "sw_app (lg_Error log x args w) = sw_app w"
  using error_view [of x args w] by (simp_all add: server_view_iff)

lemma info_sel [simp]:
  "sw_net (lg_Info log m args w) = sw_net w" "sw_app (lg_Info log m args w) = sw_app w"
  using info_view [of m args w] by (simp_all add: server_view_iff)

end

locale rmq_serving = serving log for log :: "(connection \<times> amqp, 'a) server_world logger"
begin

lemma publish_sel:
  assumes "rs_logger srv = log"
  shows "rmq_calls (rmq_publish srv d body status w) = rmq_calls w @ [rmq_reply (fst (sw_net w)) d status body]"
    and "sw_app (rmq_publish srv d body status w) = sw_app w"
    and "fst (sw_net (rmq_publish srv d body status w)) = fst (sw_net w)"
  using assms by (auto simp: rmq_publish_def rmq_ask_def rmq_calls_def ask_def split: option.splits prod.splits)

lemma ack_sel:
  assumes "rs_logger srv = log"
  shows "rmq_calls (rmq_ack srv d w) = rmq_calls w @ [Ack (d_tag d) False]"
    and "sw_app (rmq_ack srv d w) = sw_app w" and "fst (sw_net (rmq_ack srv d w)) = fst (sw_net w)"
  using assms by (auto simp: rmq_ack_def rmq_ask_def rmq_calls_def ask_def split: option.splits prod.splits)

lemma calls_frame [simp]:
  "rmq_calls (w\<lparr>sw_app := a\<rparr>) = rmq_calls w" "rmq_calls (lg_Error log x args w) = rmq_calls w"
  by (simp_all add: rmq_calls_def)

lemma serveCall_trace:
  assumes "rs_logger srv = log"
  shows "case invoke (rs_router srv) (d_type d) d (sw_app w) of
      (Ret res, a) \<Rightarrow> (case rmq_serveCall srv d w of (r, w') \<Rightarrow> r = Ret () \<and> sw_app w' = a \<and>
          rmq_calls w' = rmq_calls w @
            [case rmq_answer (rs_marshal srv) res of (status, body) \<Rightarrow> rmq_reply (fst (sw_net w)) d status body,
             Ack (d_tag d) False])
    | (Panic m, a) \<Rightarrow> (case rmq_serveCall srv d w of (r, w') \<Rightarrow> r = Panic m \<and> sw_app w' = a \<and>
          rmq_calls w' = rmq_calls w @ [Ack (d_tag d) False])"
  using assms
  by (simp add: rmq_serveCall_def invoke_def publish_sel ack_sel split: option.splits prod.splits outcome.splits sum.splits)

end

text \<open>The logger of the program over the lines of this state.\<close>

definition server_log :: "('n, 'a) server_world zlogger" where
  "server_log = \<lparr>zl_api = \<lparr>z_Msg = (\<lambda>lv fs s w. w\<lparr>sw_lines := sw_lines w @ [(lv, s)]\<rparr>),
       z_Msgf = (\<lambda>lv fs s args w. w\<lparr>sw_lines := sw_lines w @ [(lv, s)]\<rparr>),
       z_SetGlobalLevel = (\<lambda>lv w. w), z_Exit = (\<lambda>c w. w), z_unknown = (\<lambda>lv v. lv)\<rparr>,
     zl_level = TraceLevel, zl_fields = []\<rparr>"

interpretation server_logger: serving "logger_of server_log"
  by unfold_locales
    (auto simp: logger_of_def log_Info_def log_Warn_def log_Error_def log_msg_def log_at_def server_log_def
      log_Debug_def server_view_def split: any.splits)

interpretation rmq_server_logger: rmq_serving "logger_of server_log"
  by unfold_locales

definition rmq_server_of ::
  "(delivery, 'a, 'v) router \<Rightarrow> ('v \<Rightarrow> goerr + bytes) \<Rightarrow> ('a, 'v) rmq_server" where
  "rmq_server_of routes marshal = \<lparr>rs_router = routes, rs_logger = logger_of server_log, rs_marshal = marshal\<rparr>"

lemma rmq_server_of_sel:
  "rs_router (rmq_server_of routes marshal) = routes" "rs_marshal (rmq_server_of routes marshal) = marshal"
  "rs_logger (rmq_server_of routes marshal) = logger_of server_log"
  by (simp_all add: rmq_server_of_def)

text \<open>
  The property: every delivery is answered exactly once, to the address and with the identifier it
  came with and the status of what its handler did, and is then acknowledged, whether or not the
  broker takes either; when the handler panics it is acknowledged and not answered.
\<close>

theorem rmq_answers_once_then_acks:
  "case invoke routes (d_type d) d (sw_app w) of
      (Ret res, a) \<Rightarrow> (case rmq_serveCall (rmq_server_of routes marshal) d w of (r, w') \<Rightarrow>
          r = Ret () \<and> sw_app w' = a \<and> rmq_calls w' = rmq_calls w @
            [case rmq_answer marshal res of (status, body) \<Rightarrow> rmq_reply (fst (sw_net w)) d status body,
             Ack (d_tag d) False])
    | (Panic m, a) \<Rightarrow> (case rmq_serveCall (rmq_server_of routes marshal) d w of (r, w') \<Rightarrow>
          r = Panic m \<and> sw_app w' = a \<and> rmq_calls w' = rmq_calls w @ [Ack (d_tag d) False])"
  by (rule rmq_server_logger.serveCall_trace [where srv = "rmq_server_of routes marshal",
        unfolded rmq_server_of_sel, OF refl])

text \<open>
  The client's view of that answer is the result of a local call, if what is marshalled unmarshals
  to the same. A response that cannot be marshalled is the exception: the client is told of a
  success and fails on the empty body.
\<close>

lemma rmq_answer_is_local_call:
  assumes "\<And>v. res = HandlerValue v \<Longrightarrow> \<exists>b. marshal v = Inr b \<and> decode b = Inr v"
  shows "(case rmq_answer marshal res of (status, body) \<Rightarrow> rmq_result decode status body) = local_call res"
  using assms by (cases res) (auto simp: rmq_result_def)

lemma unmarshallable_is_a_success:
  assumes "marshal v = Inl e" and "decode '''' = Inl e'"
  shows "rmq_answer marshal (HandlerValue v) = (Success, '''') \<and>
    (case rmq_answer marshal (HandlerValue v) of (status, body) \<Rightarrow> rmq_result decode status body) =
      Failed (wrap ''rmq_rpc client - Client - RemoteCall - json.Unmarshal'' e')"
  using assms by (simp add: rmq_result_def)

end
