(* ===== verification/RpcFlow.thy ===== *)
theory RpcFlow
  imports RpcCalls RpcServer
begin

text \<open>
  A remote call over RabbitMQ from end to end: the client of \<open>pkg/rabbitmq/rmq_rpc/client\<close> with all its
  goroutines, the server of \<open>pkg/rabbitmq/rmq_rpc/server\<close>, and between them the broker, which may deliver
  what was published when it likes and as often as it likes.
\<close>

section \<open>Client, broker and server\<close>

text \<open>\<open>fl_served\<close> only records: the requests the server served and the application before and after.\<close>

record ('v, 'a) rpc_flow =
  fl_client :: "'v client"
  fl_server :: "'a rmq_world"
  fl_served :: "(delivery \<times> 'a \<times> 'a) list"

text \<open>
  A publication reaches the consumers of its exchange (a fanout exchange looks at no routing key) as a
  delivery with the same properties.
\<close>

definition carries :: "amqp_call \<Rightarrow> string \<Rightarrow> delivery \<Rightarrow> bool" where
  "carries call exchange d \<longleftrightarrow> (case call of
     Publish ch x key mandatory immediate p \<Rightarrow> x = exchange \<and> d_type d = pb_type p \<and>
       d_correlation_id d = pb_correlation_id p \<and> d_reply_to d = pb_reply_to p \<and> d_body d = pb_body p
   | _ \<Rightarrow> False)"

text \<open>
  The receiving goroutine of the client takes replies of this server only. A panic of a handler ends
  the process of the server; whatever restarts it, the steps go on.
\<close>

inductive rpc_step ::
  "(bytes \<Rightarrow> goerr + 'v) \<Rightarrow> (nat \<Rightarrow> string) \<Rightarrow> ('a, 'v) rmq_server \<Rightarrow>
   ('v, 'a) rpc_flow \<Rightarrow> ('v, 'a) rpc_flow \<Rightarrow> bool"
  for decode :: "bytes \<Rightarrow> goerr + 'v" and qn :: "nat \<Rightarrow> string" and srv :: "('a, 'v) rmq_server" where
  client_moves: "client_step decode qn (fl_client f) c \<Longrightarrow> received c = received (fl_client f) \<Longrightarrow>
     rpc_step decode qn srv f (f\<lparr>fl_client := c\<rparr>)"
| client_receives: "call \<in> set (rmq_calls (fl_server f)) \<Longrightarrow>
     carries call (ConsumerExchange (conn (fl_client f))) d \<Longrightarrow>
     client_step decode qn (fl_client f) c \<Longrightarrow> received c = received (fl_client f) @ [d] \<Longrightarrow>
     rpc_step decode qn srv f (f\<lparr>fl_client := c\<rparr>)"
| server_serves: "call \<in> set (rm_calls (net (fl_client f))) \<Longrightarrow>
     carries call (ConsumerExchange (fst (sw_net (fl_server f)))) d \<Longrightarrow>
     rmq_serveCall srv d (fl_server f) = (r, w) \<Longrightarrow>
     rpc_step decode qn srv f
       (f\<lparr>fl_server := w, fl_served := fl_served f @ [(d, sw_app (fl_server f), sw_app w)]\<rparr>)"
| server_reconnects: "AttemptConnect qn (sw_net (fl_server f)) = (r, n) \<Longrightarrow>
     rpc_step decode qn srv f (f\<lparr>fl_server := (fl_server f)\<lparr>sw_net := n\<rparr>\<rparr>)"

abbreviation rpc_run ::
  "(bytes \<Rightarrow> goerr + 'v) \<Rightarrow> (nat \<Rightarrow> string) \<Rightarrow> ('a, 'v) rmq_server \<Rightarrow>
   ('v, 'a) rpc_flow \<Rightarrow> ('v, 'a) rpc_flow \<Rightarrow> bool" where
  "rpc_run decode qn srv \<equiv> (rpc_step decode qn srv)\<^sup>*\<^sup>*"

lemma flow_client:
  "rpc_run decode qn srv f g \<Longrightarrow> client_run decode qn (fl_client f) (fl_client g)"
proof (induction rule: rtranclp_induct)
  case (step g h)
  from step.hyps(2) step.IH show ?case by (cases rule: rpc_step.cases) (auto intro: client_run.more)
qed (rule client_run.here)

section \<open>What is published on either side\<close>

definition is_Publish :: "amqp_call \<Rightarrow> bool" where
  "is_Publish c = (case c of Publish ch x key m i p \<Rightarrow> True | _ \<Rightarrow> False)"

definition publishes :: "amqp \<Rightarrow> amqp_call set" where
  "publishes s = {c \<in> set (rm_calls s). is_Publish c}"

lemma is_Publish_simps [simp]:
  "\<not> is_Publish (Dial u)" "\<not> is_Publish (OpenChannel n)" "\<not> is_Publish (ExchangeDeclare n a b c d e f)"
  "\<not> is_Publish (QueueDeclare n a c d e f)" "\<not> is_Publish (QueueBind n a b x c)"
  "\<not> is_Publish (Consume n a b c d e f)" "\<not> is_Publish (CloseChannel n)" "\<not> is_Publish (CloseConnection n)"
  "is_Publish (Publish co x k mm im p)" "\<not> is_Publish (Ack n f)"
  by (simp_all add: is_Publish_def)

lemma publishes_asked [simp]:
  "publishes (asked c s) = (if is_Publish c then insert c (publishes s) else publishes s)"
  by (auto simp: publishes_def)

lemma publishes_sleep [simp]: "publishes (sleep d s) = publishes s"
  by (simp add: publishes_def)

lemma carries_Publish: "carries call x d \<Longrightarrow> is_Publish call"
  by (cases call) (simp_all add: carries_def)

text \<open>Connecting publishes nothing and keeps the exchange.\<close>

interpretation connecting_quietly: kept_by_attempts "connect qn" pause_connect
  "\<lambda>cs. publishes (snd cs) = ps \<and> ConsumerExchange (fst cs) = x"
proof (unfold_locales, goal_cases)
  case (1 cs)
  obtain c s r c' s' where "cs = (c, s)" "connect qn cs = (r, (c', s'))" by (metis prod.exhaust)
  with 1 show ?case by (auto simp: connect_def ask_def Let_def split: option.splits)
qed (simp add: pause_connect_def)

lemma AttemptConnect_quiet:
  assumes "AttemptConnect qn cs = (r, cs')"
  shows "publishes (snd cs') = publishes (snd cs)" and "ConsumerExchange (fst cs') = ConsumerExchange (fst cs)"
  using assms connecting_quietly.retry_loop_inv [of cs "publishes (snd cs)" "ConsumerExchange (fst cs)" qn]
  by (auto simp: AttemptConnect_def split: prod.splits option.splits) (metis snd_conv fst_conv)+

lemma connect_quiet:
  assumes "connect qn (c, s) = (r, (c', s'))"
  shows "publishes s' = publishes s"
  using assms by (auto simp: connect_def ask_def Let_def split: option.splits)

text \<open>The part of a call that no step changes.\<close>

definition ident :: "'v caller \<Rightarrow> string \<times> string \<times> (goerr + bytes) option" where
  "ident cl = (corr_id cl, call_handler cl, call_request cl)"

definition request_body :: "'v caller \<Rightarrow> goerr + bytes" where
  "request_body cl = (case call_request cl of None \<Rightarrow> Inr '''' | Some r \<Rightarrow> r)"

text \<open>A message with the identifier, the handler and the body of one of the calls.\<close>

definition asks_for :: "'v client \<Rightarrow> string \<Rightarrow> string \<Rightarrow> bytes \<Rightarrow> bool" where
  "asks_for c corr handler body \<longleftrightarrow> (\<exists>cl \<in> set (callers c). corr_id cl = corr \<and> call_handler cl = handler \<and>
     request_body cl = Inr body)"

lemma ident_update [simp]:
  "ident (cl\<lparr>phase := p\<rparr>) = ident cl"
  "ident (cl\<lparr>pc_status := a, pc_body := b, pc_done := e\<rparr>) = ident cl"
  by (simp_all add: ident_def)

lemma map_ident_update: "ident y = ident (cs ! i) \<Longrightarrow> map ident (cs[i := y]) = map ident cs"
  by (cases "i < length cs") (simp_all add: map_update list_update_same_conv list_update_beyond)

lemma client_step_idents:
  "client_step decode qn c c' \<Longrightarrow> \<exists>new. map ident (callers c') = map ident (callers c) @ new"
proof (induction rule: client_step.induct)
  case (publish i c r c')
  with client_publish_frame [OF publish(2)] show ?case by (simp add: map_ident_update)
qed (simp_all add: map_ident_update Let_def split: option.splits prod.splits)

lemma asks_for_ident:
  "asks_for c corr handler body \<longleftrightarrow> (\<exists>(k, h, q) \<in> set (map ident (callers c)). k = corr \<and> h = handler \<and>
     (case q of None \<Rightarrow> Inr '''' | Some r \<Rightarrow> r) = Inr body)"
  by (auto simp: asks_for_def ident_def request_body_def)

lemma asks_for_step:
  "client_step decode qn c c' \<Longrightarrow> asks_for c corr handler body \<Longrightarrow> asks_for c' corr handler body"
  using client_step_idents [of decode qn c c'] unfolding asks_for_ident by fastforce

text \<open>What the client publishes asks for one of its calls.\<close>

definition requests_ok :: "'v client \<Rightarrow> bool" where
  "requests_ok c \<longleftrightarrow> (\<forall>call \<in> publishes (net c). \<forall>x d. carries call x d \<longrightarrow>
     asks_for c (d_correlation_id d) (d_type d) (d_body d))"

lemma client_publish_publishes:
  assumes "client_publish corr handler request c = (Ret r, c')" and "call \<in> publishes (net c')" and "carries call x d"
  shows "call \<in> publishes (net c) \<or> d_correlation_id d = corr \<and> d_type d = handler \<and>
    (case request of None \<Rightarrow> Inr '''' | Some r \<Rightarrow> r) = Inr (d_body d)"
  using assms
  by (auto simp: client_publish_def ask_def carries_def split: option.splits sum.splits prod.splits)

lemma requests_ok_same:
  assumes "requests_ok c" and "publishes (net c') = publishes (net c)" and "client_step decode qn c c'"
  shows "requests_ok c'"
  using assms(1,2) asks_for_step [OF assms(3)] by (auto simp: requests_ok_def)

lemma client_step_publishes:
  assumes "client_step decode qn c c'" and "call \<in> publishes (net c')" and "carries call x d"
  shows "call \<in> publishes (net c) \<or> asks_for c' (d_correlation_id d) (d_type d) (d_body d)"
  using assms
proof (induction rule: client_step.induct)
  case (publish i c r c')
  from publish(1) have "callers c ! i \<in> set (callers c)" by (simp add: caller_at_def)
  with client_publish_publishes [OF publish(2), of call x d] publish(3,4)
  have "call \<in> publishes (net c) \<or> asks_for c (d_correlation_id d) (d_type d) (d_body d)"
    by (auto simp: asks_for_def request_body_def)
  with asks_for_step [OF client_step.publish [OF publish(1,2)]] show ?case by blast
next
  case (serve_unknown d' c)
  then show ?case by (simp add: client_ack_def ask_def)
next
  case (serve d' i c)
  then show ?case by (simp add: client_ack_def ask_def finish_call_def Let_def split: if_splits)
next
  case (reconnect n c cn s)
  with connect_quiet [OF reconnect(2)] show ?case by simp
next
  case (attempt_fails n c e cn s)
  with connect_quiet [OF attempt_fails(2)] show ?case by simp
next
  case (Shutdown_returns r c j)
  then show ?case by (simp add: Let_def ask_def split: option.splits)
qed (simp_all add: Let_def split: if_splits)

lemma requests_ok_step: "client_step decode qn c c' \<Longrightarrow> requests_ok c \<Longrightarrow> requests_ok c'"
  using client_step_publishes asks_for_step unfolding requests_ok_def by blast

section \<open>Where an answer comes from\<close>

text \<open>
  A status and a body with an identifier are answered if the server served a request of that call and
  they are what its handler's outcome is answered with.
\<close>

definition answered ::
  "(delivery, 'a, 'v) router \<Rightarrow> ('v \<Rightarrow> goerr + bytes) \<Rightarrow> ('v, 'a) rpc_flow \<Rightarrow> delivery \<Rightarrow> bool" where
  "answered routes marshal f d \<longleftrightarrow> (\<exists>q a a' res. (q, a, a') \<in> set (fl_served f) \<and>
     asks_for (fl_client f) (d_correlation_id d) (d_type q) (d_body q) \<and>
     invoke routes (d_type q) q a = (Ret res, a') \<and> rmq_answer marshal res = (d_type d, d_body d))"

definition flow_inv :: "(delivery, 'a, 'v) router \<Rightarrow> ('v \<Rightarrow> goerr + bytes) \<Rightarrow> ('v, 'a) rpc_flow \<Rightarrow> bool" where
  "flow_inv routes marshal f \<longleftrightarrow> requests_ok (fl_client f) \<and>
     (\<forall>call \<in> publishes (snd (sw_net (fl_server f))). \<forall>x d. carries call x d \<longrightarrow> answered routes marshal f d) \<and>
     (\<forall>d \<in> set (received (fl_client f)). answered routes marshal f d)"

lemma answered_mono:
  assumes "answered routes marshal f d" and "set (fl_served f) \<subseteq> set (fl_served g)"
    and "\<And>corr handler body. asks_for (fl_client f) corr handler body \<Longrightarrow> asks_for (fl_client g) corr handler body"
  shows "answered routes marshal g d"
  using assms unfolding answered_def by (meson subsetD)

text \<open>Serving one request adds one answer to it at most.\<close>

lemma serve_publishes:
  assumes "rmq_serveCall (rmq_server_of routes marshal) d w = (r, w')"
    and "call \<in> publishes (snd (sw_net w'))" and "carries call x p"
  shows "call \<in> publishes (snd (sw_net w)) \<or> d_correlation_id p = d_correlation_id d \<and>
    (\<exists>res. invoke routes (d_type d) d (sw_app w) = (Ret res, sw_app w') \<and>
      rmq_answer marshal res = (d_type p, d_body p))"
proof -
  obtain o' a where inv: "invoke routes (d_type d) d (sw_app w) = (o', a)" by (metis prod.exhaust)
  note trace = rmq_server_logger.serveCall_trace [where srv = "rmq_server_of routes marshal" and d = d and w = w,
      unfolded rmq_server_of_sel, OF refl]
  show ?thesis
  proof (cases o')
    case (Ret res)
    obtain status body where ans: "rmq_answer marshal res = (status, body)" by (metis prod.exhaust)
    from trace inv Ret ans assms(1)
    have "sw_app w' = a" "rmq_calls w' = rmq_calls w @ [rmq_reply (fst (sw_net w)) d status body, Ack (d_tag d) False]"
      by simp_all
    with assms(2,3) inv Ret ans show ?thesis
      by (auto simp: publishes_def rmq_calls_def rmq_reply_def carries_def)
  next
    case (Panic m)
    with trace inv assms(1) have "rmq_calls w' = rmq_calls w @ [Ack (d_tag d) False]" by simp
    with assms(2) show ?thesis by (auto simp: publishes_def rmq_calls_def)
  qed
qed

lemma flow_inv_step:
  "rpc_step decode qn (rmq_server_of routes marshal) f g \<Longrightarrow> flow_inv routes marshal f \<Longrightarrow> flow_inv routes marshal g"
proof (induction rule: rpc_step.induct)
  case (client_moves f c)
  have "answered routes marshal (f\<lparr>fl_client := c\<rparr>) d" if "answered routes marshal f d" for d
    using that by (rule answered_mono) (use asks_for_step [OF client_moves(1)] in auto)
  with client_moves requests_ok_step [OF client_moves(1)] show ?case by (auto simp: flow_inv_def)
next
  case (client_receives call f d c)
  have keep: "answered routes marshal (f\<lparr>fl_client := c\<rparr>) p" if "answered routes marshal f p" for p
    using that by (rule answered_mono) (use asks_for_step [OF client_receives(3)] in auto)
  have "call \<in> publishes (snd (sw_net (fl_server f)))"
    using client_receives(1,2) carries_Publish by (auto simp: publishes_def rmq_calls_def)
  with client_receives(2,5) have "answered routes marshal f d" by (auto simp: flow_inv_def)
  with keep client_receives(4,5) requests_ok_step [OF client_receives(3)] show ?case
    by (auto simp: flow_inv_def)
next
  case (server_serves call f d r w)
  let ?g = "f\<lparr>fl_server := w, fl_served := fl_served f @ [(d, sw_app (fl_server f), sw_app w)]\<rparr>"
  have keep: "answered routes marshal ?g p" if "answered routes marshal f p" for p
    using that by (rule answered_mono) auto
  have "call \<in> publishes (net (fl_client f))"
    using server_serves(1,2) carries_Publish by (auto simp: publishes_def)
  with server_serves(2,4) have "asks_for (fl_client f) (d_correlation_id d) (d_type d) (d_body d)"
    by (auto simp: flow_inv_def requests_ok_def)
  then have "answered routes marshal ?g p"
    if "d_correlation_id p = d_correlation_id d" "invoke routes (d_type d) d (sw_app (fl_server f)) = (Ret res, sw_app w)"
      "rmq_answer marshal res = (d_type p, d_body p)" for p res
    using that by (auto simp: answered_def)
  with keep serve_publishes [OF server_serves(3)] server_serves(4) show ?case
    unfolding flow_inv_def by simp blast
next
  case (server_reconnects f r n)
  have "answered routes marshal (f\<lparr>fl_server := (fl_server f)\<lparr>sw_net := n\<rparr>\<rparr>) d" if "answered routes marshal f d" for d
    using that by (rule answered_mono) auto
  with server_reconnects AttemptConnect_quiet(1) [OF server_reconnects(1)] show ?case
    by (auto simp: flow_inv_def)
qed

lemma flow_inv_run:
  "rpc_run decode qn (rmq_server_of routes marshal) f g \<Longrightarrow> flow_inv routes marshal f \<Longrightarrow> flow_inv routes marshal g"
  by (induction rule: rtranclp_induct) (auto intro: flow_inv_step)

text \<open>A client and a server that were just made.\<close>

definition new_flow :: "'v client \<Rightarrow> 'a rmq_world \<Rightarrow> ('v, 'a) rpc_flow" where
  "new_flow c w = \<lparr>fl_client = c, fl_server = w, fl_served = []\<rparr>"

lemma NewClient_publishes:
  assumes "NewClient qn url x cx opts s = (Inr c, s')"
  shows "publishes (net c) = publishes s" and "received c = []" and "callers c = []"
proof -
  from NewClient_state [OF assms] show "received c = []" "callers c = []" by (auto simp: unstarted_client_def)
  from assms NewClient_state [OF assms] show "publishes (net c) = publishes s"
    by (auto simp: NewClient_def Let_def unstarted_client_def dest: AttemptConnect_quiet(1) split: prod.splits option.splits)
qed

lemma new_flow_inv:
  assumes "NewClient qn url x cx opts s = (Inr c, s')" and "publishes s = {}" and "publishes (snd (sw_net w)) = {}"
  shows "flow_inv routes marshal (new_flow c w)"
  using NewClient_publishes [OF assms(1)] assms(2,3)
  by (simp add: flow_inv_def new_flow_def requests_ok_def)

section \<open>A call that goes through\<close>

text \<open>A run of the client in which nothing is received is a run of the whole.\<close>

lemma lift_client_run:
  assumes "client_run decode qn c c'" and "received c' = received c" and "fl_client f = c"
  shows "rpc_run decode qn srv f (f\<lparr>fl_client := c'\<rparr>)"
  using assms
proof (induction rule: client_run.induct)
  case (here c)
  then have "f\<lparr>fl_client := c\<rparr> = f" by simp
  then show ?case by simp
next
  case (more c m n)
  obtain ds ds' where "received m = received c @ ds" "received n = received m @ ds'"
    using client_run_grows [OF more(1)] client_step_grows [OF more(2)] by blast
  with more(4) have same: "received m = received c" "received n = received m" by simp_all
  from more.IH [OF same(1) more(5)] have "rpc_run decode qn srv f (f\<lparr>fl_client := m\<rparr>)" .
  moreover have "rpc_step decode qn srv (f\<lparr>fl_client := m\<rparr>) (f\<lparr>fl_client := n\<rparr>)"
    using client_moves [of decode qn "f\<lparr>fl_client := m\<rparr>" n srv] more(2) same(2) by simp
  ultimately show ?case by (rule rtranclp.rtrancl_into_rtrancl)
qed

text \<open>The request of a call as the server receives it.\<close>

definition request_of :: "'v client \<Rightarrow> string \<Rightarrow> string \<Rightarrow> bytes \<Rightarrow> delivery" where
  "request_of c corr handler body = \<lparr>d_tag = 0, d_type = handler, d_correlation_id = corr,
     d_reply_to = ConsumerExchange (conn c), d_body = body\<rparr>"

text \<open>What the server sends back, as the client receives it.\<close>

definition reply_of :: "delivery \<Rightarrow> string \<Rightarrow> bytes \<Rightarrow> delivery" where
  "reply_of q status body = \<lparr>d_tag = 0, d_type = status, d_correlation_id = d_correlation_id q,
     d_reply_to = '''', d_body = body\<rparr>"

lemma carries_request:
  "carries (request_message c corr handler body) (serverExchange c) (request_of c corr handler body)"
  by (simp add: carries_def request_message_def request_of_def)

lemma carries_reply: "carries (rmq_reply cn q status body) (d_reply_to q) (reply_of q status body)"
  by (simp add: carries_def rmq_reply_def reply_of_def)

text \<open>The reply of a waiting call: received, filled in, and back at the caller.\<close>

lemma reply_completes:
  assumes "receiving_client (fl_client f)" and "callers (fl_client f) = cs @ [cl]" and "phase cl = Waiting"
    and "\<not> pc_done cl" and "calls (fl_client f) (corr_id cl) = Some (length cs)"
    and "call \<in> set (rmq_calls (fl_server f))" and "carries call (ConsumerExchange (conn (fl_client f))) d"
    and "d_correlation_id d = corr_id cl"
  shows "\<exists>g. rpc_run decode qn srv f g \<and> fl_server g = fl_server f \<and>
    callers (fl_client g) = cs @ [cl\<lparr>pc_status := d_type d, pc_body := d_body d, pc_done := True,
      phase := Returned (rmq_result decode (d_type d) (d_body d))\<rparr>]"
proof -
  let ?c = "fl_client f"
  let ?c1 = "?c\<lparr>received := received ?c @ [d], receiver := Serving d (Some (length cs))\<rparr>"
  have "client_step decode qn ?c ?c1"
    using client_step.receive [OF receiving_clientD [OF assms(1)], of decode qn d] assms(5,8) by simp
  then have one: "rpc_step decode qn srv f (f\<lparr>fl_client := ?c1\<rparr>)"
    using assms(6,7) by (intro client_receives) auto
  have "caller_at (length cs) Waiting ?c1"
    using assms(1-3) by (simp add: caller_at_def receiving_client_def)
  from serving_call_answered [where decode = decode and qn = qn and d = d, OF this] assms(2,4) obtain c' where
    c': "client_run decode qn ?c1 c'" "received c' = received ?c1"
      "callers c' = cs @ [cl\<lparr>pc_status := d_type d, pc_body := d_body d, pc_done := True,
        phase := Returned (rmq_result decode (d_type d) (d_body d))\<rparr>]"
    by auto
  have "rpc_run decode qn srv (f\<lparr>fl_client := ?c1\<rparr>) (f\<lparr>fl_client := c'\<rparr>)"
    using lift_client_run [OF c'(1,2), of "f\<lparr>fl_client := ?c1\<rparr>" srv] by simp
  with one have "rpc_run decode qn srv f (f\<lparr>fl_client := c'\<rparr>)" by (rule converse_rtranclp_into_rtranclp)
  with c'(3) show ?thesis by (intro exI [of _ "f\<lparr>fl_client := c'\<rparr>"]) simp
qed

text \<open>A call from its beginning to its end.\<close>

lemma call_completes:
  assumes "receiving_client (fl_client f)"
    and "rm_answer (net (fl_client f)) (next_handle (net (fl_client f))) = None"
    and "serverExchange (fl_client f) = ConsumerExchange (fst (sw_net (fl_server f)))"
    and "invoke routes handler (request_of (fl_client f) corr handler body) (sw_app (fl_server f)) = (Ret res, a)"
    and "\<And>v. \<exists>b. marshal v = Inr b \<and> decode b = Inr v"
  shows "\<exists>g cl. rpc_run decode qn (rmq_server_of routes marshal) f g \<and> sw_app (fl_server g) = a \<and>
    callers (fl_client g) = callers (fl_client f) @ [cl] \<and> corr_id cl = corr \<and>
    call_handler cl = handler \<and> call_request cl = Some (Inr body) \<and>
    phase cl = Returned (local_call res)"
proof -
  let ?c = "fl_client f" and ?w = "fl_server f" and ?srv = "rmq_server_of routes marshal"
  let ?q = "request_of (fl_client f) corr handler body"
  let ?cl = "(new_caller corr handler (Some (Inr body)))\<lparr>phase := Waiting\<rparr>"
  obtain c1 where c1: "client_run decode qn ?c c1" "receiving_client c1" "callers c1 = callers ?c @ [?cl]"
      "calls c1 = (calls ?c)(corr \<mapsto> length (callers ?c))" "received c1 = received ?c" "conn c1 = conn ?c"
      "rm_calls (net c1) = rm_calls (net ?c) @ [request_message ?c corr handler body]"
    using call_waits [OF assms(1,2)] by blast
  obtain r w where serve: "rmq_serveCall ?srv ?q ?w = (r, w)" by (metis prod.exhaust)
  obtain status reply where ans: "rmq_answer marshal res = (status, reply)" by (metis prod.exhaust)
  from rmq_server_logger.serveCall_trace [where srv = ?srv and d = ?q and w = ?w, unfolded rmq_server_of_sel, OF refl]
    serve ans assms(4)
  have w: "sw_app w = a" "rmq_calls w = rmq_calls ?w @ [rmq_reply (fst (sw_net ?w)) ?q status reply, Ack (d_tag ?q) False]"
    by (simp_all add: request_of_def)
  let ?f1 = "f\<lparr>fl_client := c1\<rparr>"
  let ?f2 = "?f1\<lparr>fl_server := w, fl_served := fl_served f @ [(?q, sw_app ?w, sw_app w)]\<rparr>"
  have run1: "rpc_run decode qn ?srv f ?f1" by (rule lift_client_run [OF c1(1,5)]) simp
  have "rpc_step decode qn ?srv ?f1 ?f2"
    using server_serves [of "request_message ?c corr handler body" ?f1 ?q ?srv r w decode qn] c1(7) serve
      carries_request [of ?c corr handler body] assms(3) by simp
  with run1 have run2: "rpc_run decode qn ?srv f ?f2" by (rule rtranclp.rtrancl_into_rtrancl)
  have "\<exists>g. rpc_run decode qn ?srv ?f2 g \<and> fl_server g = fl_server ?f2 \<and>
      callers (fl_client g) = callers ?c @ [?cl\<lparr>pc_status := d_type (reply_of ?q status reply),
        pc_body := d_body (reply_of ?q status reply), pc_done := True,
        phase := Returned (rmq_result decode (d_type (reply_of ?q status reply)) (d_body (reply_of ?q status reply)))\<rparr>]"
  proof (rule reply_completes)
    show "carries (rmq_reply (fst (sw_net ?w)) ?q status reply) (ConsumerExchange (conn (fl_client ?f2)))
        (reply_of ?q status reply)"
      using carries_reply [of "fst (sw_net ?w)" ?q status reply] c1(6) by (simp add: request_of_def)
  qed (use c1(2-4) w(2) in \<open>simp_all add: new_caller_def reply_of_def request_of_def\<close>)
  then obtain g where run3: "rpc_run decode qn ?srv ?f2 g" and g: "sw_app (fl_server g) = a"
    "callers (fl_client g) = callers ?c @ [?cl\<lparr>pc_status := d_type (reply_of ?q status reply),
        pc_body := d_body (reply_of ?q status reply), pc_done := True,
        phase := Returned (rmq_result decode (d_type (reply_of ?q status reply)) (d_body (reply_of ?q status reply)))\<rparr>]"
    using w(1) by auto
  have run: "rpc_run decode qn ?srv f g" using run2 run3 by (rule rtranclp_trans)
  have "rmq_result decode status reply = local_call res"
    using rmq_answer_is_local_call [of res marshal decode] assms(5) ans by simp
  with run g show ?thesis
    by (intro exI [of _ g]) (simp add: reply_of_def new_caller_def)
qed

section \<open>Properties\<close>

text \<open>A server with one handler, which gives the body back and counts, and a client that reached it.\<close>

definition adding_routes :: "(delivery, nat, bytes) router" where
  "adding_routes name = (if name = ''v1.get'' then Some (\<lambda>d n. (Ret (Inr (d_body d)), Suc n)) else None)"

definition adding_world :: "nat rmq_world" where
  "adding_world = \<lparr>sw_net = ((new_connection ''rpc_server'' ''amqp://broker'' 5 10)
     \<lparr>conn_Connection := Some 0, conn_Channel := Some 1, Delivery := Some 5\<rparr>, sample_amqp0), sw_app = 41, sw_lines = []\<rparr>"

lemma adding_world_sel [simp]:
  "sw_app adding_world = 41" "publishes (snd (sw_net adding_world)) = {}"
  "ConsumerExchange (fst (sw_net adding_world)) = ''rpc_server''" "publishes sample_amqp0 = {}"
  by (simp_all add: adding_world_def new_connection_def sample_amqp0_def sample_amqp_def publishes_def)

lemma adding_invoke:
  "invoke adding_routes ''v1.get'' (request_of c ''id-1'' ''v1.get'' ''{}'') 41 = (Ret (HandlerValue ''{}''), 42)"
  by (simp add: invoke_def adding_routes_def request_of_def)

lemma adding_client:
  "\<exists>c s. NewClient sample_queue ''amqp://broker'' ''rpc_server'' ''rpc_client'' [] sample_amqp0 =
       (Inr (c :: bytes client), s) \<and> receiving_client c \<and> callers c = [] \<and>
     rm_answer (net c) (next_handle (net c)) = None \<and> serverExchange c = ''rpc_server''"
proof -
  obtain c :: "bytes client" and s where
    "NewClient sample_queue ''amqp://broker'' ''rpc_server'' ''rpc_client'' [] sample_amqp0 = (Inr c, s)"
    "receiving_client c" "callers c = []" "rm_answer (net c) (next_handle (net c)) = None"
    using sample_client by blast
  with NewClient_state [OF this(1)] show ?thesis by (auto simp: unstarted_client_def)
qed

text \<open>
  C13. A remote call over RabbitMQ is a local call: in every interleaving of callers, receiver, broker and
  server, with every redelivery and reconnection, a call that comes back without a failure of the
  client's own side has the result of calling its handler directly: the server ran that handler on a
  request with the call's body, and what the handler did to the application is what the server kept.
  Identifiers differ, and what is marshalled unmarshals to the same.
\<close>

theorem rmq_call_is_local_call:
  assumes "NewClient qn url x cx opts s = (Inr c0, s')" and "publishes s = {}" and "publishes (snd (sw_net w)) = {}"
    and "rpc_run decode qn (rmq_server_of routes marshal) (new_flow c0 w) f"
    and "\<And>v. \<exists>b. marshal v = Inr b \<and> decode b = Inr v"
    and "distinct (map corr_id (callers (fl_client f)))" and "cl \<in> set (callers (fl_client f))"
    and "phase cl = Returned r" and "\<not> local_failure r"
  shows "\<exists>q a a' res. (q, a, a') \<in> set (fl_served f) \<and> request_body cl = Inr (d_body q) \<and>
    invoke routes (call_handler cl) q a = (Ret res, a') \<and> r = local_call res"
proof -
  let ?c = "fl_client f"
  have "client_run decode qn c0 ?c" using flow_client [OF assms(4)] by (simp add: new_flow_def)
  from client_inv_run [OF this NewClient_inv(1) [OF assms(1)]] have "client_inv decode ?c" .
  with assms(7) have "caller_ok decode (served ?c) cl" by (auto simp: client_inv_def in_set_conv_nth)
  with assms(8,9) obtain d where d: "d \<in> set (received ?c)" "answers d cl" "r = rmq_result decode (d_type d) (d_body d)"
    using served_received [of ?c] by (auto simp: caller_ok_def result_ok_def)
  from flow_inv_run [OF assms(4) new_flow_inv [OF assms(1-3)]] d(1) have "answered routes marshal f d"
    by (simp add: flow_inv_def)
  then obtain q a a' res where q: "(q, a, a') \<in> set (fl_served f)"
    "asks_for ?c (d_correlation_id d) (d_type q) (d_body q)"
    "invoke routes (d_type q) q a = (Ret res, a')" "rmq_answer marshal res = (d_type d, d_body d)"
    by (auto simp: answered_def)
  from q(2) assms(6,7) d(2) have "call_handler cl = d_type q" "request_body cl = Inr (d_body q)"
    by (auto simp: asks_for_def answers_def distinct_map dest: inj_onD)
  moreover have "r = local_call res"
    using rmq_answer_is_local_call [of res marshal decode] assms(5) q(4) d(3) by simp
  ultimately show ?thesis using q(1,3) by auto
qed

theorem rmq_call_is_local_call_witness:
  "\<exists>f :: (bytes, nat) rpc_flow. \<exists>q a a'. (q, a, a') \<in> set (fl_served f) \<and> d_body q = ''{}'' \<and> a' = Suc a \<and>
     phase (hd (callers (fl_client f))) = Returned (Answered ''{}'')"
proof -
  obtain c :: "bytes client" and s where
    new: "NewClient sample_queue ''amqp://broker'' ''rpc_server'' ''rpc_client'' [] sample_amqp0 = (Inr c, s)"
    and c: "receiving_client c" "callers c = []" "rm_answer (net c) (next_handle (net c)) = None"
      "serverExchange c = ''rpc_server''"
    using adding_client by blast
  let ?f = "new_flow c adding_world"
  obtain f cl where run: "rpc_run Inr sample_queue (rmq_server_of adding_routes Inr) ?f f" and
    f: "callers (fl_client f) = [cl]" "phase cl = Returned (Answered ''{}'')" "call_request cl = Some (Inr ''{}'')"
      "call_handler cl = ''v1.get''"
    using call_completes [of ?f adding_routes "''v1.get''" "''id-1''" "''{}''" "HandlerValue ''{}''" 42 Inr Inr sample_queue]
      adding_invoke c by (auto simp: new_flow_def)
  have "\<not> local_failure (Answered ''{}'' :: bytes call_result)"
    by (auto simp: local_failure_def pre_failed_def publish_failed_def wait_failed_def)
  with rmq_call_is_local_call [OF new _ _ run, of cl "Answered ''{}''"] f
  obtain q a a' res where q: "(q, a, a') \<in> set (fl_served f)" "request_body cl = Inr (d_body q)"
    "invoke adding_routes ''v1.get'' q a = (Ret res, a')"
    by auto
  moreover from q(2,3) f(3) have "d_body q = ''{}''" "a' = Suc a"
    by (simp_all add: request_body_def invoke_def adding_routes_def)
  ultimately show ?thesis using f(1,2) by (intro exI [of _ f]) auto
qed

end
