(* ===== verification/NatsRpc.thy ===== *)
theory NatsRpc
  imports RpcServer
begin

text \<open>
  Remote calls over NATS: \<open>pkg/nats/nats_rpc/server/server.go\<close> and \<open>client/client.go\<close>. One request is
  one message with a reply subject; the driver matches replies to requests, so the client has no
  table of its own.
\<close>

section \<open>Messages\<close>

text \<open>\<open>nats.Msg\<close>; a header is a map from names to lists of values, read by \<open>Get\<close> as the first one.\<close>

type_synonym nats_header = "string \<Rightarrow> string list option"

record nats_msg =
  nm_subject :: string
  nm_reply :: string
  nm_header :: nats_header
  nm_data :: bytes

definition header_get :: "nats_header \<Rightarrow> string \<Rightarrow> string" where
  "header_get h k = (case h k of Some (v # vs) \<Rightarrow> v | _ \<Rightarrow> '''')"

definition header_set :: "nats_header \<Rightarrow> string \<Rightarrow> string \<Rightarrow> nats_header" where
  "header_set h k v = h(k \<mapsto> [v])"

lemma header_get_set [simp]: "header_get (header_set h k v) k = v"
  by (simp add: header_get_def header_set_def)

definition new_msg :: "string \<Rightarrow> nats_msg" where
  "new_msg subject = \<lparr>nm_subject = subject, nm_reply = '''', nm_header = (\<lambda>k. None), nm_data = ''''\<rparr>"

datatype nats_call =
    NatsConnect string int int int
  | Subscribe string
  | Unsubscribe nat
  | PublishMsg nats_msg
  | CloseNats nat

type_synonym 'a nats_world = "(nats_call remote, 'a) server_world"

section \<open>The server\<close>

text \<open>\<open>errors.go\<close> of this package; the texts are those of the other transport.\<close>

definition nats_ErrTimeout :: goerr where "nats_ErrTimeout = ErrNew ''timeout''"

definition nats_ErrInternalServer :: goerr where "nats_ErrInternalServer = ErrNew ''internal server error''"

definition nats_ErrBadHandler :: goerr where "nats_ErrBadHandler = ErrNew ''unregistered handler''"

definition nats_Success :: string where "nats_Success = ''success''"

lemma nats_errors [simp]:
  "nats_ErrTimeout = ErrTimeout" "nats_ErrInternalServer = ErrInternalServer" "nats_ErrBadHandler = ErrBadHandler"
  "nats_Success = Success"
  by (simp_all add: nats_ErrTimeout_def nats_ErrInternalServer_def nats_ErrBadHandler_def nats_Success_def
      ErrTimeout_def ErrInternalServer_def ErrBadHandler_def Success_def)

record ('a, 'v) nats_server =
  ns_router :: "(nats_msg, 'a, 'v) router"
  ns_logger :: "'a nats_world logger"
  ns_marshal :: "'v \<Rightarrow> goerr + bytes"

definition nats_routes :: "(nats_msg, 'a, 'v) router" where "nats_routes = (\<lambda>name. None)"

definition nats_reply :: "nats_msg \<Rightarrow> bytes \<Rightarrow> string \<Rightarrow> nats_msg" where
  "nats_reply msg body status =
     (new_msg (nm_reply msg))\<lparr>nm_header := header_set (nm_header (new_msg (nm_reply msg))) ''Status'' status,
        nm_data := body\<rparr>"

definition nats_publish ::
  "('a, 'v) nats_server \<Rightarrow> nats_msg \<Rightarrow> bytes \<Rightarrow> string \<Rightarrow> 'a nats_world \<Rightarrow> 'a nats_world" where
  "nats_publish srv msg body status w =
     (case ask (PublishMsg (nats_reply msg body status)) (sw_net w) of
        (Some e, s) \<Rightarrow> lg_Error (ns_logger srv) (AnyErr e)
           [AnyStr ''nats_rpc server - Server - publish - msg.Respond''] (w\<lparr>sw_net := s\<rparr>)
      | (None, s) \<Rightarrow> w\<lparr>sw_net := s\<rparr>)"

definition nats_handleMessage ::
  "('a, 'v) nats_server \<Rightarrow> nats_msg \<Rightarrow> 'a nats_world \<Rightarrow> unit outcome \<times> 'a nats_world" where
  "nats_handleMessage srv msg w =
     (case ns_router srv (header_get (nm_header msg) ''Handler'') of
        None \<Rightarrow> (Ret (), nats_publish srv msg '''' (err_msg nats_ErrBadHandler) w)
      | Some callHandler \<Rightarrow>
      (case callHandler msg (sw_app w) of
         (Panic m, a) \<Rightarrow> (Panic m, w\<lparr>sw_app := a\<rparr>)
       | (Ret (Inl e), a) \<Rightarrow>
           (Ret (), lg_Error (ns_logger srv) (AnyErr e)
              [AnyStr ''nats_rpc server - Server - handleMessage - callHandler'']
              (nats_publish srv msg '''' (err_msg nats_ErrInternalServer) (w\<lparr>sw_app := a\<rparr>)))
       | (Ret (Inr response), a) \<Rightarrow>
           (case ns_marshal srv response of
              Inl e \<Rightarrow> (Ret (), nats_publish srv msg '''' (err_msg nats_ErrInternalServer)
                (lg_Error (ns_logger srv) (AnyErr e)
                  [AnyStr ''nats_rpc server - Server - handleMessage - json.Marshal''] (w\<lparr>sw_app := a\<rparr>)))
            | Inr body \<Rightarrow> (Ret (), nats_publish srv msg body nats_Success (w\<lparr>sw_app := a\<rparr>)))))"

fun nats_answer :: "('v \<Rightarrow> goerr + bytes) \<Rightarrow> 'v handler_result \<Rightarrow> string \<times> bytes" where
  "nats_answer marshal NoHandler = (err_msg ErrBadHandler, '''')"
| "nats_answer marshal (HandlerError e) = (err_msg ErrInternalServer, '''')"
| "nats_answer marshal (HandlerValue v) =
     (case marshal v of Inr body \<Rightarrow> (Success, body) | Inl e \<Rightarrow> (err_msg ErrInternalServer, ''''))"

locale nats_serving = serving log for log :: "(nats_call remote, 'a) server_world logger"
begin

lemma publish_sel:
  assumes "ns_logger srv = log"
  shows "rm_calls (sw_net (nats_publish srv msg body status w)) =
      rm_calls (sw_net w) @ [PublishMsg (nats_reply msg body status)]"
    and "sw_app (nats_publish srv msg body status w) = sw_app w"
  using assms by (auto simp: nats_publish_def ask_def split: option.splits)

text \<open>
  One request is answered exactly once, by a message to its reply subject, and not at all when the
  handler panics.
\<close>

lemma handleMessage_trace:
  assumes "ns_logger srv = log"
  shows "case invoke (ns_router srv) (header_get (nm_header msg) ''Handler'') msg (sw_app w) of
      (Ret res, a) \<Rightarrow> (case nats_handleMessage srv msg w of (r, w') \<Rightarrow> r = Ret () \<and> sw_app w' = a \<and>
          rm_calls (sw_net w') = rm_calls (sw_net w) @
            [case nats_answer (ns_marshal srv) res of (status, body) \<Rightarrow> PublishMsg (nats_reply msg body status)])
    | (Panic m, a) \<Rightarrow> nats_handleMessage srv msg w = (Panic m, w\<lparr>sw_app := a\<rparr>)"
  using assms
  by (simp add: nats_handleMessage_def invoke_def publish_sel split: option.splits prod.splits outcome.splits sum.splits)

end

interpretation nats_server_logger: nats_serving "logger_of server_log"
  by unfold_locales

definition nats_server_of ::
  "(nats_msg, 'a, 'v) router \<Rightarrow> ('v \<Rightarrow> goerr + bytes) \<Rightarrow> ('a, 'v) nats_server" where
  "nats_server_of routes marshal = \<lparr>ns_router = routes, ns_logger = logger_of server_log, ns_marshal = marshal\<rparr>"

lemma nats_server_of_sel:
  "ns_router (nats_server_of routes marshal) = routes" "ns_marshal (nats_server_of routes marshal) = marshal"
  "ns_logger (nats_server_of routes marshal) = logger_of server_log"
  by (simp_all add: nats_server_of_def)

lemmas nats_handleMessage_trace = nats_server_logger.handleMessage_trace
  [where srv = "nats_server_of routes marshal" for routes marshal, unfolded nats_server_of_sel, OF refl]

section \<open>The client\<close>

text \<open>
  \<open>request\<close> stands for \<open>Conn.RequestMsg\<close> with its timeout, and \<open>is_deadline\<close> for \<open>errors.Is\<close> with
  \<open>context.DeadlineExceeded\<close> on the errors of the driver.
\<close>

definition nats_request :: "string \<Rightarrow> string \<Rightarrow> bytes \<Rightarrow> nats_msg" where
  "nats_request subject handler body =
     (new_msg subject)\<lparr>nm_header := [''Handler'' \<mapsto> [handler]], nm_data := body\<rparr>"

definition nats_result :: "(bytes \<Rightarrow> goerr + 'v) \<Rightarrow> string \<Rightarrow> bytes \<Rightarrow> 'v call_result" where
  "nats_result = switch_status ''nats_rpc client - Client - RemoteCall''"

definition nats_RemoteCall ::
  "(bytes \<Rightarrow> goerr + 'v) \<Rightarrow> (goerr \<Rightarrow> bool) \<Rightarrow> (nats_msg \<Rightarrow> int \<Rightarrow> 'w \<Rightarrow> (goerr + nats_msg) \<times> 'w) \<Rightarrow>
   string \<Rightarrow> int \<Rightarrow> string \<Rightarrow> (goerr + bytes) option \<Rightarrow> 'w \<Rightarrow> 'v call_result \<times> 'w" where
  "nats_RemoteCall decode is_deadline request subject limit handler req w =
     (case (case req of None \<Rightarrow> Inr '''' | Some r \<Rightarrow> r) of
        Inl e \<Rightarrow> (Failed e, w)
      | Inr requestBody \<Rightarrow>
      case request (nats_request subject handler requestBody) limit w of
        (Inl e, w) \<Rightarrow>
          (if is_deadline e then (Failed nats_ErrTimeout, w)
           else (Failed (wrap ''nats_rpc client - Client - RemoteCall - c.connection.Conn.Request'' e), w))
      | (Inr message, w) \<Rightarrow>
          (nats_result decode (header_get (nm_header message) ''Status'') (nm_data message), w))"

section \<open>Callers, broker and server\<close>

text \<open>
  Any number of goroutines are inside \<open>RemoteCall\<close>. The driver gives each request a reply subject of
  its own (\<open>inbox\<close>, by the number of the call) and hands the first message on that subject to the
  caller, or an error: a timeout, no responders, a lost connection. The subscription of the server gets
  a request at any time, also after its caller has given up, or never. \<open>nf_served\<close> only records: the
  requests the server handled and the application before and after.
\<close>

datatype 'v nats_phase = Asking | Back "'v call_result"

record 'v nats_caller =
  nc_handler :: string
  nc_request :: "(goerr + bytes) option"
  nc_phase :: "'v nats_phase"

record ('v, 'a) nats_flow =
  nf_callers :: "'v nats_caller list"
  nf_server :: "'a nats_world"
  nf_served :: "(nats_msg \<times> 'a \<times> 'a) list"

definition nc_body :: "'v nats_caller \<Rightarrow> goerr + bytes" where
  "nc_body cl = (case nc_request cl of None \<Rightarrow> Inr '''' | Some r \<Rightarrow> r)"

definition on_subject :: "'a nats_world \<Rightarrow> string \<Rightarrow> nats_msg \<Rightarrow> bool" where
  "on_subject w subject m \<longleftrightarrow> PublishMsg m \<in> set (rm_calls (sw_net w)) \<and> nm_subject m = subject"

text \<open>How a call ends when the driver answers its request with \<open>ans\<close>.\<close>

definition nats_outcome ::
  "(bytes \<Rightarrow> goerr + 'v) \<Rightarrow> (goerr \<Rightarrow> bool) \<Rightarrow> string \<Rightarrow> int \<Rightarrow> 'v nats_caller \<Rightarrow> goerr + nats_msg \<Rightarrow> 'v call_result" where
  "nats_outcome decode is_deadline subject limit cl ans =
     fst (nats_RemoteCall decode is_deadline (\<lambda>m t u. (ans, u)) subject limit (nc_handler cl) (nc_request cl) ())"

inductive nats_step ::
  "(bytes \<Rightarrow> goerr + 'v) \<Rightarrow> (goerr \<Rightarrow> bool) \<Rightarrow> string \<Rightarrow> int \<Rightarrow> (nat \<Rightarrow> string) \<Rightarrow> ('a, 'v) nats_server \<Rightarrow>
   ('v, 'a) nats_flow \<Rightarrow> ('v, 'a) nats_flow \<Rightarrow> bool"
  for decode :: "bytes \<Rightarrow> goerr + 'v" and is_deadline :: "goerr \<Rightarrow> bool" and subject :: string
    and limit :: int and inbox :: "nat \<Rightarrow> string" and srv :: "('a, 'v) nats_server" where
  nats_calls: "nats_step decode is_deadline subject limit inbox srv f
     (f\<lparr>nf_callers := nf_callers f @ [\<lparr>nc_handler = handler, nc_request = request, nc_phase = Asking\<rparr>]\<rparr>)"
| nats_serves: "i < length (nf_callers f) \<Longrightarrow> nc_body (nf_callers f ! i) = Inr body \<Longrightarrow>
     m = (nats_request subject (nc_handler (nf_callers f ! i)) body)\<lparr>nm_reply := inbox i\<rparr> \<Longrightarrow>
     nats_handleMessage srv m (nf_server f) = (r, w) \<Longrightarrow>
     nats_step decode is_deadline subject limit inbox srv f
       (f\<lparr>nf_server := w, nf_served := nf_served f @ [(m, sw_app (nf_server f), sw_app w)]\<rparr>)"
| nats_returns: "i < length (nf_callers f) \<Longrightarrow> nc_phase (nf_callers f ! i) = Asking \<Longrightarrow>
     (\<And>m. ans = Inr m \<Longrightarrow> on_subject (nf_server f) (inbox i) m) \<Longrightarrow>
     nats_step decode is_deadline subject limit inbox srv f (f\<lparr>nf_callers := (nf_callers f)[i :=
       (nf_callers f ! i)\<lparr>nc_phase := Back (nats_outcome decode is_deadline subject limit (nf_callers f ! i) ans)\<rparr>]\<rparr>)"

abbreviation nats_run ::
  "(bytes \<Rightarrow> goerr + 'v) \<Rightarrow> (goerr \<Rightarrow> bool) \<Rightarrow> string \<Rightarrow> int \<Rightarrow> (nat \<Rightarrow> string) \<Rightarrow> ('a, 'v) nats_server \<Rightarrow>
   ('v, 'a) nats_flow \<Rightarrow> ('v, 'a) nats_flow \<Rightarrow> bool" where
  "nats_run decode is_deadline subject limit inbox srv \<equiv> (nats_step decode is_deadline subject limit inbox srv)\<^sup>*\<^sup>*"

definition new_nats_flow :: "'a nats_world \<Rightarrow> ('v, 'a) nats_flow" where
  "new_nats_flow w = \<lparr>nf_callers = [], nf_server = w, nf_served = []\<rparr>"

section \<open>A remote call is a local call\<close>

text \<open>A response that cannot be marshalled counts as an error of the handler.\<close>

fun encoded :: "('v \<Rightarrow> goerr + bytes) \<Rightarrow> 'v handler_result \<Rightarrow> 'v handler_result" where
  "encoded marshal (HandlerValue v) = (case marshal v of Inl e \<Rightarrow> HandlerError e | Inr b \<Rightarrow> HandlerValue v)"
| "encoded marshal res = res"

lemma nats_answer_is_local_call:
  assumes "\<And>v b. marshal v = Inr b \<Longrightarrow> decode b = Inr v"
  shows "(case nats_answer marshal res of (status, body) \<Rightarrow> nats_result decode status body) =
    local_call (encoded marshal res)"
  using assms by (cases res) (auto simp: nats_result_def split: sum.splits)

text \<open>The failures of the client's own side: the request is not marshalled, or the driver reports an error.\<close>

definition nats_failure :: "'v nats_caller \<Rightarrow> 'v call_result \<Rightarrow> bool" where
  "nats_failure cl r \<longleftrightarrow> r = Failed nats_ErrTimeout \<or> (\<exists>e. nc_body cl = Inl e) \<or>
     (\<exists>e. r = Failed (wrap ''nats_rpc client - Client - RemoteCall - c.connection.Conn.Request'' e))"

text \<open>The server handled the request of the call with number \<open>i\<close>, which had the result \<open>res\<close>.\<close>

definition nats_handled ::
  "(nats_msg, 'a, 'v) router \<Rightarrow> string \<Rightarrow> (nat \<Rightarrow> string) \<Rightarrow> ('v, 'a) nats_flow \<Rightarrow> nat \<Rightarrow> 'v handler_result \<Rightarrow> bool" where
  "nats_handled routes subject inbox f i res \<longleftrightarrow> (\<exists>q a a' body. (q, a, a') \<in> set (nf_served f) \<and>
     i < length (nf_callers f) \<and> nc_body (nf_callers f ! i) = Inr body \<and>
     q = (nats_request subject (nc_handler (nf_callers f ! i)) body)\<lparr>nm_reply := inbox i\<rparr> \<and>
     invoke routes (nc_handler (nf_callers f ! i)) q a = (Ret res, a'))"

definition nats_result_ok ::
  "('v \<Rightarrow> goerr + bytes) \<Rightarrow> (nats_msg, 'a, 'v) router \<Rightarrow> string \<Rightarrow> (nat \<Rightarrow> string) \<Rightarrow> ('v, 'a) nats_flow \<Rightarrow> nat \<Rightarrow>
   'v call_result \<Rightarrow> bool" where
  "nats_result_ok marshal routes subject inbox f i r \<longleftrightarrow> nats_failure (nf_callers f ! i) r \<or>
     (\<exists>res. nats_handled routes subject inbox f i res \<and> r = local_call (encoded marshal res))"

text \<open>
  What stands on a reply subject is the answer to a request of the call that owns the subject, and a
  call that is back has one of its own answers or a failure of its side.
\<close>

definition nats_inv ::
  "('v \<Rightarrow> goerr + bytes) \<Rightarrow> (nats_msg, 'a, 'v) router \<Rightarrow> string \<Rightarrow> (nat \<Rightarrow> string) \<Rightarrow> ('v, 'a) nats_flow \<Rightarrow> bool" where
  "nats_inv marshal routes subject inbox f \<longleftrightarrow>
     (\<forall>m. PublishMsg m \<in> set (rm_calls (sw_net (nf_server f))) \<longrightarrow> (\<exists>i res. nm_subject m = inbox i \<and>
        nats_handled routes subject inbox f i res \<and>
        nats_answer marshal res = (header_get (nm_header m) ''Status'', nm_data m))) \<and>
     (\<forall>i r. i < length (nf_callers f) \<and> nc_phase (nf_callers f ! i) = Back r \<longrightarrow>
        nats_result_ok marshal routes subject inbox f i r)"

lemma nats_invD:
  assumes "nats_inv marshal routes subject inbox f"
  shows "PublishMsg m \<in> set (rm_calls (sw_net (nf_server f))) \<Longrightarrow> \<exists>i res. nm_subject m = inbox i \<and>
      nats_handled routes subject inbox f i res \<and>
      nats_answer marshal res = (header_get (nm_header m) ''Status'', nm_data m)"
    and "i < length (nf_callers f) \<Longrightarrow> nc_phase (nf_callers f ! i) = Back r \<Longrightarrow>
      nats_result_ok marshal routes subject inbox f i r"
  using assms unfolding nats_inv_def by blast+

text \<open>Calls keep their handler and request, and the record of the server grows.\<close>

definition nats_grows :: "('v, 'a) nats_flow \<Rightarrow> ('v, 'a) nats_flow \<Rightarrow> bool" where
  "nats_grows f g \<longleftrightarrow> set (nf_served f) \<subseteq> set (nf_served g) \<and> length (nf_callers f) \<le> length (nf_callers g) \<and>
     (\<forall>i < length (nf_callers f). nc_handler (nf_callers g ! i) = nc_handler (nf_callers f ! i) \<and>
        nc_request (nf_callers g ! i) = nc_request (nf_callers f ! i))"

lemma nats_handled_grows:
  "nats_handled routes subject inbox f i res \<Longrightarrow> nats_grows f g \<Longrightarrow> nats_handled routes subject inbox g i res"
  unfolding nats_handled_def nats_grows_def nc_body_def by (elim exE conjE) (auto 4 4)

lemma nats_result_ok_grows:
  assumes "nats_result_ok marshal routes subject inbox f i r" and "nats_grows f g" and "i < length (nf_callers f)"
  shows "nats_result_ok marshal routes subject inbox g i r"
proof -
  from assms(2,3) have "nc_body (nf_callers g ! i) = nc_body (nf_callers f ! i)"
    by (simp add: nats_grows_def nc_body_def)
  then have "nats_failure (nf_callers g ! i) r" if "nats_failure (nf_callers f ! i) r"
    using that by (simp add: nats_failure_def)
  moreover have "nats_handled routes subject inbox g i res" if "nats_handled routes subject inbox f i res" for res
    by (rule nats_handled_grows [OF that assms(2)])
  ultimately show ?thesis using assms(1) unfolding nats_result_ok_def by blast
qed

lemma nats_step_grows: "nats_step decode is_deadline subject limit inbox srv f g \<Longrightarrow> nats_grows f g"
proof (induction rule: nats_step.induct)
  case (nats_returns i f ans)
  then show ?case by (auto simp: nats_grows_def nth_list_update)
qed (auto simp: nats_grows_def nth_append)

text \<open>What one request adds: at most its answer, on its reply subject.\<close>

lemma nats_handleMessage_adds:
  assumes "nats_handleMessage (nats_server_of routes marshal) q w = (r, w')"
    and "PublishMsg m \<in> set (rm_calls (sw_net w'))"
  shows "PublishMsg m \<in> set (rm_calls (sw_net w)) \<or> nm_subject m = nm_reply q \<and>
    (\<exists>res. invoke routes (header_get (nm_header q) ''Handler'') q (sw_app w) = (Ret res, sw_app w') \<and>
       nats_answer marshal res = (header_get (nm_header m) ''Status'', nm_data m))"
proof -
  obtain ro a where inv: "invoke routes (header_get (nm_header q) ''Handler'') q (sw_app w) = (ro, a)"
    by (metis prod.exhaust)
  note trace = nats_handleMessage_trace [where routes = routes and marshal = marshal and msg = q and w = w]
  show ?thesis
  proof (cases ro)
    case (Ret res)
    obtain status body where "nats_answer marshal res = (status, body)" by (metis prod.exhaust)
    with trace inv Ret assms show ?thesis by (auto simp: nats_reply_def new_msg_def)
  next
    case (Panic p)
    with trace inv assms show ?thesis by auto
  qed
qed

lemma nats_outcome_ok:
  assumes "\<And>v b. marshal v = Inr b \<Longrightarrow> decode b = Inr v" and "inj inbox"
    and "nats_inv marshal routes subject inbox f" and "i < length (nf_callers f)"
    and "\<And>m. ans = Inr m \<Longrightarrow> on_subject (nf_server f) (inbox i) m"
  shows "nats_result_ok marshal routes subject inbox f i
    (nats_outcome decode is_deadline subject limit (nf_callers f ! i) ans)"
proof (cases "nc_body (nf_callers f ! i)")
  case (Inl e)
  then show ?thesis by (simp add: nats_result_ok_def nats_failure_def)
next
  case (Inr body)
  show ?thesis
  proof (cases ans)
    case (Inl e)
    with Inr show ?thesis
      by (auto simp: nats_result_ok_def nats_failure_def nats_outcome_def nats_RemoteCall_def nc_body_def)
  next
    case (Inr m)
    with assms(5) have m: "PublishMsg m \<in> set (rm_calls (sw_net (nf_server f)))" "nm_subject m = inbox i"
      by (simp_all add: on_subject_def)
    from nats_invD(1) [OF assms(3) m(1)] obtain j res where
      j: "nm_subject m = inbox j" "nats_handled routes subject inbox f j res"
        "nats_answer marshal res = (header_get (nm_header m) ''Status'', nm_data m)"
      by blast
    with m(2) assms(2) have "j = i" by (simp add: inj_eq)
    moreover have "nats_outcome decode is_deadline subject limit (nf_callers f ! i) ans = local_call (encoded marshal res)"
      using nats_answer_is_local_call [where marshal = marshal and decode = decode and res = res, OF assms(1)]
        j(3) Inr \<open>nc_body (nf_callers f ! i) = Inr body\<close>
      by (simp add: nats_outcome_def nats_RemoteCall_def nc_body_def)
    ultimately show ?thesis using j(2) by (auto simp: nats_result_ok_def)
  qed
qed

lemma nats_inv_step:
  assumes "nats_step decode is_deadline subject limit inbox (nats_server_of routes marshal) f g"
    and "\<And>v b. marshal v = Inr b \<Longrightarrow> decode b = Inr v" and "inj inbox"
    and "nats_inv marshal routes subject inbox f"
  shows "nats_inv marshal routes subject inbox g"
proof -
  note grows = nats_step_grows [OF assms(1)]
  note handled = nats_handled_grows [OF _ grows] and ok = nats_result_ok_grows [OF _ grows]
  from assms(1) show ?thesis
  proof (cases rule: nats_step.cases)
    case (nats_calls handler request)
    then show ?thesis
      using nats_invD [OF assms(4)] handled ok by (fastforce simp: nats_inv_def nth_append less_Suc_eq)
  next
    case (nats_serves i body m r w)
    have new: "nats_handled routes subject inbox g i res"
      if "invoke routes (nc_handler (nf_callers f ! i)) m (sw_app (nf_server f)) = (Ret res, sw_app w)" for res
      unfolding nats_handled_def
      by (intro exI conjI) (use nats_serves that in auto)
    have name: "header_get (nm_header m) ''Handler'' = nc_handler (nf_callers f ! i)" "nm_reply m = inbox i"
      by (simp_all add: nats_serves(4) nats_request_def header_get_def)
    have "\<exists>j res. nm_subject p = inbox j \<and> nats_handled routes subject inbox g j res \<and>
        nats_answer marshal res = (header_get (nm_header p) ''Status'', nm_data p)"
      if "PublishMsg p \<in> set (rm_calls (sw_net w))" for p
      using nats_handleMessage_adds [OF nats_serves(5) that] nats_invD(1) [OF assms(4), of p] handled new
      unfolding name by blast
    with nats_serves(1) nats_invD(2) [OF assms(4)] ok show ?thesis by (simp add: nats_inv_def)
  next
    case (nats_returns i ans)
    have "nats_result_ok marshal routes subject inbox f i
        (nats_outcome decode is_deadline subject limit (nf_callers f ! i) ans)"
      by (rule nats_outcome_ok [OF assms(2,3,4) nats_returns(2,4)])
    then have own: "nats_result_ok marshal routes subject inbox g i
        (nats_outcome decode is_deadline subject limit (nf_callers f ! i) ans)"
      using nats_returns(2) by (rule ok)
    have "nats_result_ok marshal routes subject inbox g j r"
      if "j < length (nf_callers g)" "nc_phase (nf_callers g ! j) = Back r" for j r
    proof (cases "j = i")
      case True
      with that nats_returns(1,2) own show ?thesis by simp
    next
      case False
      with that nats_returns(1) nats_invD(2) [OF assms(4), of j r] ok [of _ _ _ _ j r] show ?thesis by simp
    qed
    moreover have "nf_server g = nf_server f" by (simp add: nats_returns(1))
    moreover have "\<exists>j res. nm_subject p = inbox j \<and> nats_handled routes subject inbox g j res \<and>
        nats_answer marshal res = (header_get (nm_header p) ''Status'', nm_data p)"
      if "PublishMsg p \<in> set (rm_calls (sw_net (nf_server f)))" for p
      using nats_invD(1) [OF assms(4) that] handled by blast
    ultimately show ?thesis by (simp add: nats_inv_def)
  qed
qed

lemma nats_inv_run:
  assumes "nats_run decode is_deadline subject limit inbox (nats_server_of routes marshal) f g"
    and "\<And>v b. marshal v = Inr b \<Longrightarrow> decode b = Inr v" and "inj inbox"
    and "nats_inv marshal routes subject inbox f"
  shows "nats_inv marshal routes subject inbox g"
  using assms(1,4) by (induction rule: rtranclp_induct) (auto intro: nats_inv_step assms(2,3))


definition count_routes :: "(nats_msg, nat, bytes) router" where
  "count_routes name = (if name = ''v1.count'' then Some (\<lambda>m n. (Ret (Inr (nm_data m)), Suc n)) else None)"

definition count_world :: "nat nats_world" where
  "count_world = \<lparr>sw_net = \<lparr>rm_answer = (\<lambda>n. None), rm_calls = [], rm_slept = 0\<rparr>, sw_app = 0, sw_lines = []\<rparr>"

definition sample_inbox :: "nat \<Rightarrow> string" where
  "sample_inbox i = replicate i CHR ''i''"

lemma sample_inbox_inj: "inj sample_inbox"
proof (rule injI)
  fix i j assume "sample_inbox i = sample_inbox j"
  then have "length (sample_inbox i) = length (sample_inbox j)" by simp
  then show "i = j" by (simp add: sample_inbox_def)
qed

text \<open>One call: it is made, served and comes back with the reply.\<close>

lemma sample_nats_run:
  defines "srv \<equiv> nats_server_of count_routes Inr"
  shows "\<exists>f. nats_run Inr (\<lambda>e. True) ''rpc'' 2 sample_inbox srv (new_nats_flow count_world) f \<and>
    nf_callers f = [\<lparr>nc_handler = ''v1.count'', nc_request = Some (Inr ''42''), nc_phase = Back (Answered ''42'')\<rparr>]"
proof -
  let ?cl = "\<lparr>nc_handler = ''v1.count'', nc_request = Some (Inr ''42''), nc_phase = Asking\<rparr> :: bytes nats_caller"
  let ?q = "(nats_request ''rpc'' ''v1.count'' ''42'')\<lparr>nm_reply := sample_inbox 0\<rparr>"
  let ?p = "nats_reply ?q ''42'' Success"
  obtain r w where run: "nats_handleMessage srv ?q count_world = (r, w)" by (metis prod.exhaust)
  have "invoke count_routes ''v1.count'' ?q (sw_app count_world) = (Ret (HandlerValue ''42''), 1)"
    by (simp add: invoke_def count_routes_def count_world_def nats_request_def)
  moreover have "header_get (nm_header ?q) ''Handler'' = ''v1.count''"
    by (simp add: nats_request_def header_get_def)
  ultimately have pub: "on_subject w (sample_inbox 0) ?p"
    using nats_handleMessage_trace [where routes = count_routes and marshal = Inr and msg = ?q and w = count_world]
      run by (simp add: srv_def on_subject_def nats_reply_def new_msg_def)
  let ?f1 = "\<lparr>nf_callers = [?cl], nf_server = count_world, nf_served = []\<rparr>"
  let ?f2 = "?f1\<lparr>nf_server := w, nf_served := [(?q, sw_app count_world, sw_app w)]\<rparr>"
  let ?f3 = "?f2\<lparr>nf_callers := [?cl\<lparr>nc_phase := Back (nats_outcome Inr (\<lambda>e. True) ''rpc'' 2 ?cl (Inr ?p))\<rparr>]\<rparr>"
  have "nats_step Inr (\<lambda>e. True) ''rpc'' 2 sample_inbox srv (new_nats_flow count_world) ?f1"
    using nats_calls [where f = "new_nats_flow count_world" and handler = "''v1.count''" and
        request = "Some (Inr ''42'')" and srv = srv]
    by (simp add: new_nats_flow_def)
  moreover have "nats_step Inr (\<lambda>e. True) ''rpc'' 2 sample_inbox srv ?f1 ?f2"
    using nats_serves [where i = 0 and f = ?f1 and body = "''42''" and m = ?q and subject = "''rpc''" and
        inbox = sample_inbox and srv = srv and r = r and w = w] run
    by (simp add: nc_body_def)
  moreover have "nats_step Inr (\<lambda>e. True) ''rpc'' 2 sample_inbox srv ?f2 ?f3"
    using nats_returns [where i = 0 and f = ?f2 and ans = "Inr ?p" and inbox = sample_inbox] pub by simp
  ultimately have "nats_run Inr (\<lambda>e. True) ''rpc'' 2 sample_inbox srv (new_nats_flow count_world) ?f3"
    by (meson converse_rtranclp_into_rtranclp rtranclp.rtrancl_refl)
  moreover have "nats_outcome Inr (\<lambda>e. True) ''rpc'' 2 ?cl (Inr ?p) = Answered ''42''"
    by (simp add: nats_outcome_def nats_RemoteCall_def nats_reply_def nats_result_def)
  ultimately show ?thesis by (intro exI [of _ ?f3]) simp
qed


end
