(* ===== verification/Servers.thy ===== *)
theory Servers
  imports NatsRpc
begin

text \<open>
  The four servers of the program around what they serve: \<open>pkg/httpserver\<close>, \<open>pkg/grpcserver\<close>,
  \<open>pkg/nats/nats_rpc/server\<close> and \<open>pkg/rabbitmq/rmq_rpc/server\<close>. Each runs one goroutine in an error
  group, reports its end on the channel \<open>notify\<close>, which has room for one error, and is shut down.
\<close>

section \<open>The goroutine of a server\<close>

text \<open>
  Where the goroutine is: not started; in the function it runs; about to send its error; past the
  sending; finished, which is what \<open>eg.Wait\<close> waits for. A server that was not started has nothing to
  wait for.
\<close>

datatype main_phase = Unstarted | Running | Failing goerr | Signalled goerr | Finished "goerr option"

record server_life =
  main_at :: main_phase
  notice :: "goerr option"
  note_closed :: bool
  stop_asked :: bool
  wait_result :: "goerr option option"
  stop_panic :: bool

definition new_life_of_server :: server_life where
  "new_life_of_server = \<lparr>main_at = Unstarted, notice = None, note_closed = False, stop_asked = False,
     wait_result = None, stop_panic = False\<rparr>"

text \<open>
  The function of the goroutine may fail at any time and returns nil only after it was asked to stop:
  by \<open>close(s.stop)\<close>, \<open>ShutdownWithTimeout\<close> or \<open>GracefulStop\<close>. Sending needs room in \<open>notify\<close>; anyone
  may take the error out, or nobody. \<open>closes\<close> says that \<open>Shutdown\<close> closes a channel of its own, as those
  of the two RPC servers do: a second call then panics.
\<close>

inductive server_step :: "bool \<Rightarrow> server_life \<Rightarrow> server_life \<Rightarrow> bool" for closes :: bool where
  Start: "\<not> stop_panic l \<Longrightarrow> main_at l = Unstarted \<Longrightarrow> server_step closes l (l\<lparr>main_at := Running\<rparr>)"
| main_fails: "\<not> stop_panic l \<Longrightarrow> main_at l = Running \<Longrightarrow> server_step closes l (l\<lparr>main_at := Failing e\<rparr>)"
| main_returns: "\<not> stop_panic l \<Longrightarrow> main_at l = Running \<Longrightarrow> stop_asked l \<Longrightarrow> server_step closes l (l\<lparr>main_at := Finished None\<rparr>)"
| send: "\<not> stop_panic l \<Longrightarrow> main_at l = Failing e \<Longrightarrow> notice l = None \<Longrightarrow> server_step closes l (l\<lparr>main_at := Signalled e, notice := Some e\<rparr>)"
| close_and_leave: "\<not> stop_panic l \<Longrightarrow> main_at l = Signalled e \<Longrightarrow>
     server_step closes l (l\<lparr>main_at := Finished (Some e), note_closed := True\<rparr>)"
| take_note: "\<not> stop_panic l \<Longrightarrow> notice l = Some e \<Longrightarrow> server_step closes l (l\<lparr>notice := None\<rparr>)"
| ask_stop: "\<not> stop_panic l \<Longrightarrow> server_step closes l
     (if closes \<and> stop_asked l then l\<lparr>stop_panic := True\<rparr> else l\<lparr>stop_asked := True\<rparr>)"
| wait_ends: "\<not> stop_panic l \<Longrightarrow> stop_asked l \<Longrightarrow> main_at l = Finished r \<Longrightarrow> server_step closes l (l\<lparr>wait_result := Some r\<rparr>)"
| wait_unstarted: "\<not> stop_panic l \<Longrightarrow> stop_asked l \<Longrightarrow> main_at l = Unstarted \<Longrightarrow> server_step closes l (l\<lparr>wait_result := Some None\<rparr>)"

inductive server_run :: "bool \<Rightarrow> server_life \<Rightarrow> server_life \<Rightarrow> bool" for closes :: bool where
  here: "server_run closes l l"
| more: "server_run closes l m \<Longrightarrow> server_step closes m n \<Longrightarrow> server_run closes l n"

inductive_cases server_stepE: "server_step closes l m"

text \<open>The error is sent at most once, so there is always room for it.\<close>

definition room_for_error :: "server_life \<Rightarrow> bool" where
  "room_for_error l \<longleftrightarrow>
     (notice l \<noteq> None \<longrightarrow> (\<exists>e. notice l = Some e \<and> (main_at l = Signalled e \<or> main_at l = Finished (Some e))))"

lemma room_for_error_step: "server_step closes l m \<Longrightarrow> room_for_error l \<Longrightarrow> room_for_error m"
  by (induction rule: server_step.induct) (auto simp: room_for_error_def)

lemma room_for_error_run: "server_run closes l m \<Longrightarrow> room_for_error l \<Longrightarrow> room_for_error m"
  by (induction rule: server_run.induct) (auto intro: room_for_error_step)

lemma room_for_error_new [simp]: "room_for_error new_life_of_server"
  by (simp add: room_for_error_def new_life_of_server_def)

lemma finished_wait_ends: "\<not> stop_panic l \<Longrightarrow> stop_asked l \<Longrightarrow> main_at l = Finished r \<Longrightarrow> \<exists>m. server_run closes l m \<and> wait_result m = Some r"
  using server_step.wait_ends [of l r closes] by (intro exI [of _ "l\<lparr>wait_result := Some r\<rparr>"]) (auto intro: server_run.intros)

lemma server_run_trans: "server_run closes l m \<Longrightarrow> server_run closes m n \<Longrightarrow> server_run closes l n"
  by (rotate_tac, induction rule: server_run.induct) (auto intro: server_run.more)

lemma server_run_one: "server_step closes l m \<Longrightarrow> server_run closes l m"
  by (rule server_run.more [OF server_run.here])

lemma signalled_wait_ends:
  assumes "\<not> stop_panic l" and "stop_asked l" and "main_at l = Signalled e"
  shows "\<exists>m. server_run closes l m \<and> wait_result m = Some (Some e)"
proof -
  let ?l = "l\<lparr>main_at := Finished (Some e), note_closed := True\<rparr>"
  have "server_run closes l ?l" by (rule server_run_one [OF server_step.close_and_leave [OF assms(1,3)]])
  moreover obtain m where "server_run closes ?l m" "wait_result m = Some (Some e)"
    using finished_wait_ends [of ?l "Some e"] assms(1,2) by auto
  ultimately show ?thesis using server_run_trans by blast
qed

text \<open>
  The property: from every state a server can reach, once it was asked to stop its \<open>Shutdown\<close> can come
  to the end of its waiting, with the error of the goroutine if it failed, whether or not anybody
  listens to \<open>Notify\<close>.
\<close>

theorem server_Shutdown_can_return:
  assumes "server_run closes new_life_of_server l" and "stop_asked l" and "\<not> stop_panic l"
  shows "\<exists>m. server_run closes l m \<and>
    wait_result m = Some (case main_at l of Failing e \<Rightarrow> Some e | Signalled e \<Rightarrow> Some e | Finished r \<Rightarrow> r | _ \<Rightarrow> None)"
proof (cases "main_at l")
  case Unstarted
  let ?m = "l\<lparr>wait_result := Some None\<rparr>"
  have "server_run closes l ?m" by (rule server_run_one [OF server_step.wait_unstarted [OF assms(3,2) Unstarted]])
  with Unstarted show ?thesis by (intro exI [of _ ?m]) simp
next
  case Running
  let ?m = "l\<lparr>main_at := Finished None\<rparr>"
  have "server_run closes l ?m" by (rule server_run_one [OF server_step.main_returns [OF assms(3) Running assms(2)]])
  moreover obtain n where "server_run closes ?m n" "wait_result n = Some None"
    using finished_wait_ends [of ?m None] assms(2,3) by auto
  ultimately show ?thesis using Running server_run_trans by fastforce
next
  case (Failing e)
  from room_for_error_run [OF assms(1) room_for_error_new] Failing have "notice l = None" by (auto simp: room_for_error_def)
  let ?m = "l\<lparr>main_at := Signalled e, notice := Some e\<rparr>"
  have "server_run closes l ?m" by (rule server_run_one [OF server_step.send [OF assms(3) Failing \<open>notice l = None\<close>]])
  moreover obtain n where "server_run closes ?m n" "wait_result n = Some (Some e)"
    using signalled_wait_ends [of ?m e] assms(2,3) by auto
  ultimately show ?thesis using Failing server_run_trans by fastforce
next
  case (Signalled e)
  with signalled_wait_ends [OF assms(3,2) Signalled] show ?thesis by simp
next
  case (Finished r)
  with finished_wait_ends [OF assms(3,2) Finished] show ?thesis by simp
qed

theorem server_Shutdown_can_return_witness:
  "\<exists>m :: server_life. wait_result m = Some (Some (ErrNew ''address already in use''))"
proof -
  let ?e = "ErrNew ''address already in use''"
  let ?l1 = "new_life_of_server\<lparr>main_at := Running\<rparr>"
  let ?l2 = "?l1\<lparr>main_at := Failing ?e\<rparr>"
  let ?l3 = "?l2\<lparr>stop_asked := True\<rparr>"
  have "server_run closes new_life_of_server ?l1"
    by (rule server_run_one, rule server_step.Start) (simp_all add: new_life_of_server_def)
  moreover have "server_step closes ?l1 ?l2" by (rule server_step.main_fails) (simp_all add: new_life_of_server_def)
  moreover have "server_step closes ?l2 ?l3" using server_step.ask_stop [of ?l2 closes]
    by (simp add: new_life_of_server_def)
  ultimately have "server_run closes new_life_of_server ?l3" by (meson server_run.more)
  from server_Shutdown_can_return [OF this] show ?thesis by (auto simp: new_life_of_server_def)
qed

section \<open>Shutting down\<close>

text \<open>
  What a \<open>Shutdown\<close> does with one error: it is logged and collected. A cancelled context does not
  count where the code says so.
\<close>

definition collect :: "'w logger \<Rightarrow> string \<Rightarrow> goerr option \<Rightarrow> goerr option list \<times> 'w \<Rightarrow> goerr option list \<times> 'w" where
  "collect log site r acc = (case acc of (errs, w) \<Rightarrow>
     (case r of
        None \<Rightarrow> (errs, w)
      | Some e \<Rightarrow> (errs @ [Some e], lg_Error log (AnyErr e) [AnyStr site] w)))"

definition unless_cancelled :: "goerr option \<Rightarrow> goerr option" where
  "unless_cancelled r = (case r of Some e \<Rightarrow> if err_is e Canceled then None else Some e | None \<Rightarrow> None)"

text \<open>
  The four functions; their arguments are what the library calls and \<open>eg.Wait\<close> return. The NATS
  server unsubscribes only what it subscribed.
\<close>

definition http_Shutdown :: "'w logger \<Rightarrow> goerr option \<Rightarrow> goerr option \<Rightarrow> 'w \<Rightarrow> goerr option \<times> 'w" where
  "http_Shutdown log stop_err wait_err w =
     (case collect log ''http server - Server - Shutdown - s.eg.Wait'' (unless_cancelled wait_err)
         (collect log ''http server - Server - Shutdown - s.App.ShutdownWithTimeout'' (unless_cancelled stop_err)
           ([], w)) of
        (errs, w) \<Rightarrow> (errors_join errs, lg_Info log ''http server - Server - Shutdown'' [] w))"

definition grpc_Shutdown :: "'w logger \<Rightarrow> goerr option \<Rightarrow> 'w \<Rightarrow> goerr option \<times> 'w" where
  "grpc_Shutdown log wait_err w =
     (case collect log ''grpc server - Server - Shutdown - s.eg.Wait'' (unless_cancelled wait_err) ([], w) of
        (errs, w) \<Rightarrow> (errors_join errs, lg_Info log ''grpc server - Server - Shutdown'' [] w))"

definition nats_Shutdown ::
  "'a nats_world logger \<Rightarrow> nat option \<Rightarrow> nat \<Rightarrow> goerr option \<Rightarrow> 'a nats_world \<Rightarrow> goerr option \<times> 'a nats_world" where
  "nats_Shutdown log subscription connection wait_err w =
     (let (errs, w) = collect log ''nats_rpc server - Server - Shutdown - s.eg.Wait'' (unless_cancelled wait_err) ([], w);
          (errs, w) = (case subscription of
             None \<Rightarrow> (errs, w)
           | Some sub \<Rightarrow> (case ask (Unsubscribe sub) (sw_net w) of (e, s) \<Rightarrow>
               collect log ''nats_rpc server - Server - Shutdown - s.conn.Subscription.Unsubscribe'' e
                 (errs, w\<lparr>sw_net := s\<rparr>)));
          w = w\<lparr>sw_net := snd (ask (CloseNats connection) (sw_net w))\<rparr>
      in (errors_join errs, lg_Info log ''nats_rpc server - Server - Shutdown'' [] w))"

definition rmq_Shutdown ::
  "'a rmq_world logger \<Rightarrow> nat \<Rightarrow> goerr option \<Rightarrow> 'a rmq_world \<Rightarrow> goerr option \<times> 'a rmq_world" where
  "rmq_Shutdown log connection wait_err w =
     (let (errs, w) = collect log ''rmq_rpc server - Server - Shutdown - s.eg.Wait'' (unless_cancelled wait_err) ([], w);
          (e, w) = rmq_ask (CloseConnection connection) w;
          (errs, w) = collect log ''rmq_rpc server - Server - Shutdown - s.Connection.Close'' e (errs, w)
      in (errors_join errs, lg_Info log ''rmq_rpc server - Server - Shutdown'' [] w))"

lemma collect_errs: "fst (collect log site r (errs, w)) = errs @ (case r of None \<Rightarrow> [] | Some e \<Rightarrow> [Some e])"
  by (simp add: collect_def split: option.splits)

lemma collect_split:
  "collect log site r (errs, w) = (errs @ (case r of None \<Rightarrow> [] | Some e \<Rightarrow> [Some e]),
     case r of None \<Rightarrow> w | Some e \<Rightarrow> lg_Error log (AnyErr e) [AnyStr site] w)"
  by (simp add: collect_def split: option.splits)

lemma http_Shutdown_nil_iff:
  "fst (http_Shutdown log stop_err wait_err w) = None \<longleftrightarrow>
     unless_cancelled stop_err = None \<and> unless_cancelled wait_err = None"
  by (cases "unless_cancelled wait_err"; cases "unless_cancelled stop_err") (simp_all add: http_Shutdown_def collect_split)

lemma grpc_Shutdown_nil_iff:
  "fst (grpc_Shutdown log wait_err w) = None \<longleftrightarrow> unless_cancelled wait_err = None"
  by (cases "unless_cancelled wait_err") (simp_all add: grpc_Shutdown_def collect_split)


section \<open>Constructors\<close>

text \<open>\<open>net.JoinHostPort\<close> with an empty host.\<close>

definition join_port :: "string \<Rightarrow> string" where "join_port port = CHR '':'' # port"

text \<open>\<open>_defaultAddr\<close> and the three timeouts.\<close>

definition http_defaults :: "string \<times> int \<times> int \<times> int" where
  [simp]: "http_defaults = ('':80'', 5000000000, 5000000000, 3000000000)"

record http_server =
  hs_address :: string
  hs_prefork :: bool
  hs_readTimeout :: int
  hs_writeTimeout :: int
  hs_shutdownTimeout :: int

datatype http_option = HttpPort string | HttpPrefork bool | ReadTimeout int | WriteTimeout int | ShutdownTimeout int

fun apply_http_option :: "http_option \<Rightarrow> http_server \<Rightarrow> http_server" where
  "apply_http_option (HttpPort p) s = s\<lparr>hs_address := join_port p\<rparr>"
| "apply_http_option (HttpPrefork b) s = s\<lparr>hs_prefork := b\<rparr>"
| "apply_http_option (ReadTimeout d) s = s\<lparr>hs_readTimeout := d\<rparr>"
| "apply_http_option (WriteTimeout d) s = s\<lparr>hs_writeTimeout := d\<rparr>"
| "apply_http_option (ShutdownTimeout d) s = s\<lparr>hs_shutdownTimeout := d\<rparr>"

text \<open>\<open>New\<close>, without the \<open>fiber.App\<close> made of these settings.\<close>

definition new_http_server :: "http_option list \<Rightarrow> http_server" where
  "new_http_server opts = fold apply_http_option opts
     (case http_defaults of (addr, read, wr, down) \<Rightarrow>
       \<lparr>hs_address = addr, hs_prefork = False, hs_readTimeout = read, hs_writeTimeout = wr, hs_shutdownTimeout = down\<rparr>)"

text \<open>
  \<open>grpcserver.New\<close>, and what \<open>NewRouter\<close> of \<open>internal/controller/grpc\<close> registers: reflection, nothing
  of the program's own.
\<close>

definition grpc_defaultAddr :: string where [simp]: "grpc_defaultAddr = '':80''"

record grpc_server =
  gs_address :: string
  gs_services :: "string list"

datatype grpc_option = GrpcPort string

fun apply_grpc_option :: "grpc_option \<Rightarrow> grpc_server \<Rightarrow> grpc_server" where
  "apply_grpc_option (GrpcPort p) s = s\<lparr>gs_address := join_port p\<rparr>"

definition new_grpc_server :: "grpc_option list \<Rightarrow> grpc_server" where
  "new_grpc_server opts = fold apply_grpc_option opts \<lparr>gs_address = grpc_defaultAddr, gs_services = []\<rparr>"

definition grpc_NewRouter :: "grpc_server \<Rightarrow> grpc_server" where
  "grpc_NewRouter app = app\<lparr>gs_services := gs_services app @ [''reflection'']\<rparr>"

text \<open>The RPC servers and the NATS client: options, and the connection that may fail.\<close>

datatype rmq_server_option = RmqTimeout int | RmqConnWaitTime int | RmqConnAttempts int

fun apply_rmq_server_option :: "rmq_server_option \<Rightarrow> connection \<times> int \<Rightarrow> connection \<times> int" where
  "apply_rmq_server_option (RmqTimeout d) (cn, t) = (cn, d)"
| "apply_rmq_server_option (RmqConnWaitTime d) (cn, t) = (cn\<lparr>WaitTime := d\<rparr>, t)"
| "apply_rmq_server_option (RmqConnAttempts n) (cn, t) = (cn\<lparr>Attempts := n\<rparr>, t)"

definition rmq_server_defaults :: "int \<times> int \<times> int" where
  [simp]: "rmq_server_defaults = (5000000000, 10, 2000000000)"

definition new_rmq_server ::
  "(nat \<Rightarrow> string) \<Rightarrow> string \<Rightarrow> string \<Rightarrow> rmq_server_option list \<Rightarrow> amqp \<Rightarrow> (goerr + connection \<times> int) \<times> amqp" where
  "new_rmq_server queue_name url exchange opts s =
     (case fold apply_rmq_server_option opts (case rmq_server_defaults of (wait, attempts, limit) \<Rightarrow>
          (new_connection exchange url wait attempts, limit)) of
        (cn, t) \<Rightarrow>
      (case AttemptConnect queue_name (cn, s) of
         (Some e, (cn, s)) \<Rightarrow> (Inl (wrap ''rmq_rpc server - NewServer - s.conn.AttemptConnect'' e), s)
       | (None, (cn, s)) \<Rightarrow> (Inr (cn, t), s)))"

text \<open>The defaults of the two are written in each of them.\<close>

definition nats_server_defaults :: "int \<times> int \<times> int" where
  [simp]: "nats_server_defaults = (5000000000, 10, 2000000000)"

definition nats_client_defaults :: "int \<times> int \<times> int" where
  [simp]: "nats_client_defaults = (5000000000, 10, 2000000000)"

definition nats_connect ::
  "string \<Rightarrow> int \<times> int \<times> int \<Rightarrow> string \<Rightarrow> nats_call remote \<Rightarrow> (goerr + nat) \<times> nats_call remote" where
  "nats_connect site defaults url s =
     (let h = next_handle s in
      case ask (case defaults of (wait, attempts, limit) \<Rightarrow> NatsConnect url wait attempts wait) s of
        (Some e, s) \<Rightarrow> (Inl (wrap site e), s)
      | (None, s) \<Rightarrow> (Inr h, s))"

text \<open>
  The NATS server as its constructor leaves it, and the client; the only option of either is its timeout.
\<close>

record nats_endpoint =
  ne_subject :: string
  ne_connection :: nat
  ne_timeout :: int

datatype nats_server_option = NatsServerTimeout int

fun apply_nats_server_option :: "nats_server_option \<Rightarrow> nats_endpoint \<Rightarrow> nats_endpoint" where
  "apply_nats_server_option (NatsServerTimeout d) s = s\<lparr>ne_timeout := d\<rparr>"

definition new_nats_server ::
  "string \<Rightarrow> string \<Rightarrow> nats_server_option list \<Rightarrow> nats_call remote \<Rightarrow> (goerr + nats_endpoint) \<times> nats_call remote" where
  "new_nats_server url serverSubject opts s =
     (case nats_connect ''nats_rpc server - NewServer - nats.Connect'' nats_server_defaults url s of
        (Inl e, s) \<Rightarrow> (Inl e, s)
      | (Inr h, s) \<Rightarrow> (Inr (fold apply_nats_server_option opts
          \<lparr>ne_subject = serverSubject, ne_connection = h, ne_timeout = snd (snd nats_server_defaults)\<rparr>), s))"

record nats_client =
  nc_subject :: string
  nc_connection :: nat
  nc_timeout :: int

datatype nats_client_option = NatsClientTimeout int

fun apply_nats_client_option :: "nats_client_option \<Rightarrow> nats_client \<Rightarrow> nats_client" where
  "apply_nats_client_option (NatsClientTimeout d) c = c\<lparr>nc_timeout := d\<rparr>"

definition new_nats_client ::
  "string \<Rightarrow> string \<Rightarrow> nats_client_option list \<Rightarrow> nats_call remote \<Rightarrow> (goerr + nats_client) \<times> nats_call remote" where
  "new_nats_client url serverSubject opts s =
     (case nats_connect ''nats_rpc client - NewClient - nats.Connect'' nats_client_defaults url s of
        (Inl e, s) \<Rightarrow> (Inl e, s)
      | (Inr h, s) \<Rightarrow> (Inr (fold apply_nats_client_option opts
          \<lparr>nc_subject = serverSubject, nc_connection = h, nc_timeout = snd (snd nats_client_defaults)\<rparr>), s))"

definition nats_client_Shutdown :: "nats_client \<Rightarrow> nats_call remote \<Rightarrow> goerr option \<times> nats_call remote" where
  "nats_client_Shutdown c s = (None, snd (ask (CloseNats (nc_connection c)) s))"

text \<open>The wrap in \<open>subscribe\<close> names another function than the one that failed.\<close>

definition nats_subscribe :: "string \<Rightarrow> nats_call remote \<Rightarrow> (goerr + nat) \<times> nats_call remote" where
  "nats_subscribe subject s =
     (let h = next_handle s in
      case ask (Subscribe subject) s of
        (Some e, s) \<Rightarrow> (Inl (wrap ''nats_rpc server - subscribe - s.conn.AttemptConnect'' e), s)
      | (None, s) \<Rightarrow> (Inr h, s))"

section \<open>The loop of the RabbitMQ server\<close>

text \<open>What the \<open>select\<close> of \<open>handleMessages\<close> takes, round by round.\<close>

datatype incoming = Delivered delivery | DeliveryClosed | StopClosed | ContextDone goerr

text \<open>
  The first component is \<^term>\<open>None\<close> while the loop goes on, and else how it ended.
\<close>

fun rmq_handleMessages ::
  "(nat \<Rightarrow> string) \<Rightarrow> ('a, 'v) rmq_server \<Rightarrow> incoming list \<Rightarrow> 'a rmq_world \<Rightarrow>
   goerr option outcome option \<times> 'a rmq_world" where
  "rmq_handleMessages qn srv [] w = (None, w)"
| "rmq_handleMessages qn srv (ContextDone e # xs) w = (Some (Ret (Some e)), w)"
| "rmq_handleMessages qn srv (StopClosed # xs) w = (Some (Ret None), w)"
| "rmq_handleMessages qn srv (DeliveryClosed # xs) w =
     (case AttemptConnect qn (sw_net w) of
        (Some e, n) \<Rightarrow> (Some (Ret (Some e)), w\<lparr>sw_net := n\<rparr>)
      | (None, n) \<Rightarrow> rmq_handleMessages qn srv xs (w\<lparr>sw_net := n\<rparr>))"
| "rmq_handleMessages qn srv (Delivered d # xs) w =
     (case rmq_serveCall srv d w of
        (Panic m, w) \<Rightarrow> (Some (Panic m), w)
      | (Ret u, w) \<Rightarrow> rmq_handleMessages qn srv xs w)"

text \<open>The specification: the handlers are called one after the other, and their answers sent in order.\<close>

fun expected_replies ::
  "(delivery, 'a, 'v) router \<Rightarrow> ('v \<Rightarrow> goerr + bytes) \<Rightarrow> connection \<Rightarrow> delivery list \<Rightarrow> 'a \<Rightarrow> amqp_call list option" where
  "expected_replies routes marshal cn [] a = Some []"
| "expected_replies routes marshal cn (d # ds) a =
     (case invoke routes (d_type d) d a of
        (Panic m, a') \<Rightarrow> None
      | (Ret res, a') \<Rightarrow> map_option (\<lambda>cs. (case rmq_answer marshal res of (status, body) \<Rightarrow>
            rmq_reply cn d status body) # Ack (d_tag d) False # cs) (expected_replies routes marshal cn ds a'))"

lemma serveCall_connection: "fst (sw_net (snd (rmq_serveCall (rmq_server_of routes marshal) d w))) = fst (sw_net w)"
  by (auto simp: rmq_serveCall_def rmq_server_logger.publish_sel rmq_server_logger.ack_sel rmq_server_of_sel
      split: option.splits prod.splits outcome.splits sum.splits)

lemma handleMessages_replies:
  assumes "expected_replies routes marshal (fst (sw_net w)) ds (sw_app w) = Some cs"
  shows "\<exists>w'. rmq_handleMessages qn (rmq_server_of routes marshal) (map Delivered ds) w = (None, w') \<and>
    rmq_calls w' = rmq_calls w @ cs"
  using assms
proof (induction ds arbitrary: w cs)
  case (Cons d ds)
  obtain res a where inv: "invoke routes (d_type d) d (sw_app w) = (Ret res, a)"
    using Cons.prems by (auto split: prod.splits outcome.splits)
  obtain status body where ans: "rmq_answer marshal res = (status, body)" by (metis prod.exhaust)
  obtain r w1 where run: "rmq_serveCall (rmq_server_of routes marshal) d w = (r, w1)" by (metis prod.exhaust)
  have "r = Ret () \<and> sw_app w1 = a \<and>
      rmq_calls w1 = rmq_calls w @ [rmq_reply (fst (sw_net w)) d status body, Ack (d_tag d) False]"
    using rmq_server_logger.serveCall_trace [where srv = "rmq_server_of routes marshal" and d = d and w = w,
        unfolded rmq_server_of_sel, OF refl] inv ans run
    by simp
  moreover have "fst (sw_net w1) = fst (sw_net w)"
    using serveCall_connection [of routes marshal d w] run by simp
  ultimately show ?case using Cons.prems inv ans run Cons.IH [of w1] by auto
qed simp

text \<open>
  C14. The property: the loop refines that specification: while no handler panics, every delivery is
  answered and then acknowledged before the next one is looked at, in the order they came, and the
  loop goes on.
\<close>

theorem rmq_server_answers_in_order:
  assumes "expected_replies routes marshal (fst (sw_net w)) ds (sw_app w) = Some cs"
  shows "case rmq_handleMessages qn (rmq_server_of routes marshal) (map Delivered ds) w of
    (r, w') \<Rightarrow> r = None \<and> rmq_calls w' = rmq_calls w @ cs"
  using handleMessages_replies [OF assms, of qn] by auto

definition echo_routes :: "(delivery, nat, bytes) router" where
  "echo_routes name = (if name = ''v1.echo'' then Some (\<lambda>d n. (Ret (Inr (d_body d)), Suc n)) else None)"

definition echo_world :: "nat rmq_world" where
  "echo_world = \<lparr>sw_net = (new_connection ''rpc'' ''amqp://broker'' 5 10,
     \<lparr>rm_answer = (\<lambda>n. if n = 0 then Some (ErrNew ''channel closed'') else None), rm_calls = [], rm_slept = 0\<rparr>),
     sw_app = 0, sw_lines = []\<rparr>"

definition echo_delivery :: delivery where
  "echo_delivery = \<lparr>d_tag = 7, d_type = ''v1.echo'', d_correlation_id = ''id-1'', d_reply_to = ''replies'', d_body = ''hi''\<rparr>"

theorem rmq_server_answers_in_order_witness:
  "case rmq_handleMessages (\<lambda>n. '''') (rmq_server_of echo_routes Inr) (map Delivered [echo_delivery]) echo_world of
     (r, w') \<Rightarrow> r = None \<and> length (rmq_calls w') = 2 \<and> rmq_calls w' ! 1 = Ack 7 False"
proof -
  have "expected_replies echo_routes Inr (fst (sw_net echo_world)) [echo_delivery] (sw_app echo_world) =
      Some [rmq_reply (fst (sw_net echo_world)) echo_delivery Success ''hi'', Ack 7 False]"
    by (simp add: invoke_def echo_routes_def echo_delivery_def)
  from rmq_server_answers_in_order [OF this, of "\<lambda>n. ''''"] show ?thesis
    by (auto simp: echo_world_def rmq_calls_def)
qed

end
