(* ===== verification/ServerLife.thy ===== *)
theory ServerLife
  imports Servers
begin

text \<open>
  The four servers in full: the goroutine that \<open>Start\<close> puts into the error group, what it does to the
  driver, the channel \<open>notify\<close> and \<open>Shutdown\<close>, as steps of several threads. Each relation refines
  the protocol \<^const>\<open>server_step\<close> of the theory \<open>Servers\<close>. \<open>Start\<close> is called before \<open>Shutdown\<close>, as
  \<open>Run\<close> does.
\<close>

section \<open>What the four share\<close>

text \<open>
  The end of a failing goroutine: it sends its error, which needs room in \<open>notify\<close>, closes the channel and
  returns; anyone may take the error out.
\<close>

inductive report_step :: "'a server_life_scheme \<Rightarrow> 'a server_life_scheme \<Rightarrow> bool" where
  send: "main_at l = Failing e \<Longrightarrow> notice l = None \<Longrightarrow> report_step l (l\<lparr>main_at := Signalled e, notice := Some e\<rparr>)"
| close_and_leave: "main_at l = Signalled e \<Longrightarrow> report_step l (l\<lparr>main_at := Finished (Some e), note_closed := True\<rparr>)"
| take_note: "notice l = Some e \<Longrightarrow> report_step l (l\<lparr>notice := None\<rparr>)"

text \<open>
  \<open>eg.Wait\<close> returns when the goroutine has, at once when there is none, with its error.
\<close>

inductive wait_step :: "'a server_life_scheme \<Rightarrow> 'a server_life_scheme \<Rightarrow> bool" where
  wait_ends: "stop_asked l \<Longrightarrow> wait_result l = None \<Longrightarrow> main_at l = Finished r \<Longrightarrow> wait_step l (l\<lparr>wait_result := Some r\<rparr>)"
| wait_unstarted: "stop_asked l \<Longrightarrow> wait_result l = None \<Longrightarrow> main_at l = Unstarted \<Longrightarrow> wait_step l (l\<lparr>wait_result := Some None\<rparr>)"

text \<open>\<open>close(s.stop)\<close>; closing a closed channel panics.\<close>

definition close_stop :: "'a server_life_scheme \<Rightarrow> 'a server_life_scheme" where
  "close_stop l = (if stop_asked l then l\<lparr>stop_panic := True\<rparr> else l\<lparr>stop_asked := True\<rparr>)"

text \<open>The context of an error group is cancelled by the first error and by the return of \<open>Wait\<close>.\<close>

definition group_cancelled :: "'a server_life_scheme \<Rightarrow> bool" where
  "group_cancelled l \<longleftrightarrow> wait_result l \<noteq> None \<or> (\<exists>e. main_at l = Finished (Some e))"

text \<open>What \<open>Shutdown\<close> returned; the connection it closes may be a nil pointer.\<close>

datatype shut_phase = NotShut | Shut "goerr option" | ShutOnNil

abbreviation life_of :: "'a server_life_scheme \<Rightarrow> server_life" where
  "life_of \<equiv> server_life.truncate"

lemma life_of_sel [simp]:
  "main_at (life_of l) = main_at l" "notice (life_of l) = notice l" "note_closed (life_of l) = note_closed l"
  "stop_asked (life_of l) = stop_asked l" "wait_result (life_of l) = wait_result l" "stop_panic (life_of l) = stop_panic l"
  by (simp_all add: server_life.defs)

lemma life_of_update [simp]:
  "life_of (l\<lparr>main_at := p\<rparr>) = (life_of l)\<lparr>main_at := p\<rparr>" "life_of (l\<lparr>notice := n\<rparr>) = (life_of l)\<lparr>notice := n\<rparr>"
  "life_of (l\<lparr>note_closed := b\<rparr>) = (life_of l)\<lparr>note_closed := b\<rparr>" "life_of (l\<lparr>stop_asked := b\<rparr>) = (life_of l)\<lparr>stop_asked := b\<rparr>"
  "life_of (l\<lparr>wait_result := r\<rparr>) = (life_of l)\<lparr>wait_result := r\<rparr>" "life_of (l\<lparr>stop_panic := b\<rparr>) = (life_of l)\<lparr>stop_panic := b\<rparr>"
  by (simp_all add: server_life.defs)

lemma report_step_follows: "report_step l m \<Longrightarrow> \<not> stop_panic l \<Longrightarrow> server_step closes (life_of l) (life_of m)"
  by (induction rule: report_step.induct) (auto intro: server_step.send server_step.close_and_leave server_step.take_note)

lemma wait_step_follows: "wait_step l m \<Longrightarrow> \<not> stop_panic l \<Longrightarrow> server_step closes (life_of l) (life_of m)"
  by (induction rule: wait_step.induct) (auto intro: server_step.wait_ends server_step.wait_unstarted)

lemma close_stop_follows: "\<not> stop_panic l \<Longrightarrow> server_step True (life_of l) (life_of (close_stop l))"
  using server_step.ask_stop [of "life_of l" True] by (simp add: close_stop_def split: if_splits)

lemma close_stop_sel [simp]:
  "main_at (close_stop l) = main_at l" "wait_result (close_stop l) = wait_result l" "notice (close_stop l) = notice l"
  "stop_asked (close_stop l)"
  by (simp_all add: close_stop_def)

text \<open>
  The interface: steps that a server may take keep to the protocol. Then so do runs, and the error
  of the goroutine never waits for a listener.
\<close>

locale hosted_server =
  fixes step :: "'l \<Rightarrow> 'l \<Rightarrow> bool" and life :: "'l \<Rightarrow> server_life" and closes :: bool
  assumes follows: "step s t \<Longrightarrow> life t = life s \<or> server_step closes (life s) (life t)"
begin

lemma run_follows: "step\<^sup>*\<^sup>* s t \<Longrightarrow> server_run closes (life s) (life t)"
proof (induction rule: rtranclp_induct)
  case (step t u)
  with follows [OF step(2)] show ?case by (auto intro: server_run.more)
qed (rule server_run.here)

lemma error_has_room:
  assumes "step\<^sup>*\<^sup>* s t" and "life s = new_life_of_server" and "main_at (life t) = Failing e"
  shows "notice (life t) = None"
proof -
  from room_for_error_run [OF run_follows [OF assms(1)]] have "room_for_error (life t)" by (simp add: assms(2))
  with assms(3) show ?thesis by (auto simp: room_for_error_def)
qed

end

section \<open>The RabbitMQ server\<close>

text \<open>
  Beside the life of its goroutine: connection, driver, application and log; the channel of
  deliveries, which the driver fills and closes when the connection breaks; the deliveries that were
  served; and whether a handler panicked, which ends the process.
\<close>

record 'a rmq_life = server_life +
  rl_world :: "'a rmq_world"
  rl_queue :: "delivery list"
  rl_open :: bool
  rl_served :: "delivery list"
  rl_crashed :: bool
  rl_down :: shut_phase

definition new_rmq_life :: "'a rmq_world \<Rightarrow> 'a rmq_life" where
  "new_rmq_life w = server_life.extend new_life_of_server
     \<lparr>rl_world = w, rl_queue = [], rl_open = True, rl_served = [], rl_crashed = False, rl_down = NotShut\<rparr>"

definition rl_up :: "'a rmq_life \<Rightarrow> bool" where
  "rl_up l \<longleftrightarrow> \<not> stop_panic l \<and> \<not> rl_crashed l"

inductive rmq_life_step ::
  "(nat \<Rightarrow> string) \<Rightarrow> ('a, 'v) rmq_server \<Rightarrow> 'a rmq_life \<Rightarrow> 'a rmq_life \<Rightarrow> bool"
  for qn :: "nat \<Rightarrow> string" and srv :: "('a, 'v) rmq_server" where
  Start: "rl_up l \<Longrightarrow> main_at l = Unstarted \<Longrightarrow> \<not> stop_asked l \<Longrightarrow>
     rmq_life_step qn srv l (l\<lparr>main_at := Running,
       rl_world := lg_Info (rs_logger srv) ''rmq_rpc server - Server - Started'' [] (rl_world l)\<rparr>)"
| arrives: "rl_up l \<Longrightarrow> rl_open l \<Longrightarrow> rmq_life_step qn srv l (l\<lparr>rl_queue := rl_queue l @ [d]\<rparr>)"
| breaks: "rl_up l \<Longrightarrow> rl_open l \<Longrightarrow> rmq_life_step qn srv l (l\<lparr>rl_open := False\<rparr>)"
| context_done: "rl_up l \<Longrightarrow> main_at l = Running \<Longrightarrow> group_cancelled l \<Longrightarrow>
     rmq_life_step qn srv l (l\<lparr>main_at := Failing Canceled\<rparr>)"
| told_to_stop: "rl_up l \<Longrightarrow> main_at l = Running \<Longrightarrow> stop_asked l \<Longrightarrow>
     rmq_life_step qn srv l (l\<lparr>main_at := Finished None\<rparr>)"
| serves: "rl_up l \<Longrightarrow> main_at l = Running \<Longrightarrow> rl_queue l = d # ds \<Longrightarrow>
     rmq_serveCall srv d (rl_world l) = (Ret u, w) \<Longrightarrow>
     rmq_life_step qn srv l (l\<lparr>rl_queue := ds, rl_world := w, rl_served := rl_served l @ [d]\<rparr>)"
| handler_panics: "rl_up l \<Longrightarrow> main_at l = Running \<Longrightarrow> rl_queue l = d # ds \<Longrightarrow>
     rmq_serveCall srv d (rl_world l) = (Panic m, w) \<Longrightarrow>
     rmq_life_step qn srv l (l\<lparr>rl_queue := ds, rl_world := w, rl_crashed := True\<rparr>)"
| reconnects: "rl_up l \<Longrightarrow> main_at l = Running \<Longrightarrow> rl_queue l = [] \<Longrightarrow> \<not> rl_open l \<Longrightarrow>
     AttemptConnect qn (sw_net (rl_world l)) = (None, n) \<Longrightarrow>
     rmq_life_step qn srv l (l\<lparr>rl_world := (rl_world l)\<lparr>sw_net := n\<rparr>, rl_open := True\<rparr>)"
| gives_up: "rl_up l \<Longrightarrow> main_at l = Running \<Longrightarrow> rl_queue l = [] \<Longrightarrow> \<not> rl_open l \<Longrightarrow>
     AttemptConnect qn (sw_net (rl_world l)) = (Some e, n) \<Longrightarrow>
     rmq_life_step qn srv l (l\<lparr>rl_world := (rl_world l)\<lparr>sw_net := n\<rparr>, main_at := Failing e\<rparr>)"
| reports: "rl_up l \<Longrightarrow> report_step l m \<Longrightarrow> rmq_life_step qn srv l m"
| stops: "rl_up l \<Longrightarrow> rmq_life_step qn srv l (close_stop l)"
| waits: "rl_up l \<Longrightarrow> wait_step l m \<Longrightarrow> rmq_life_step qn srv l m"
| shuts: "rl_up l \<Longrightarrow> wait_result l = Some r \<Longrightarrow> rl_down l = NotShut \<Longrightarrow>
     conn_Connection (fst (sw_net (rl_world l))) = Some h \<Longrightarrow>
     rmq_Shutdown (rs_logger srv) h r (rl_world l) = (res, w) \<Longrightarrow>
     rmq_life_step qn srv l (l\<lparr>rl_world := w, rl_down := Shut res\<rparr>)"
| shuts_nil: "rl_up l \<Longrightarrow> wait_result l = Some r \<Longrightarrow> rl_down l = NotShut \<Longrightarrow>
     conn_Connection (fst (sw_net (rl_world l))) = None \<Longrightarrow>
     rmq_life_step qn srv l (l\<lparr>rl_down := ShutOnNil\<rparr>)"

lemma life_of_rmq_update [simp]:
  "life_of (l\<lparr>rl_world := w\<rparr>) = life_of l" "life_of (l\<lparr>rl_queue := q\<rparr>) = life_of l" "life_of (l\<lparr>rl_open := b\<rparr>) = life_of l"
  "life_of (l\<lparr>rl_served := ds\<rparr>) = life_of l" "life_of (l\<lparr>rl_crashed := b\<rparr>) = life_of l" "life_of (l\<lparr>rl_down := x\<rparr>) = life_of l"
  by (simp_all add: server_life.defs)

interpretation rmq_hosted: hosted_server "rmq_life_step qn srv" life_of True
proof (unfold_locales, goal_cases)
  case (1 l m)
  then show ?case
    by (induction rule: rmq_life_step.induct)
      (auto simp: rl_up_def intro: server_step.Start server_step.main_fails server_step.main_returns
        report_step_follows wait_step_follows close_stop_follows)
qed


lemma new_rmq_life_sel [simp]:
  "main_at (new_rmq_life w) = Unstarted" "stop_asked (new_rmq_life w) = False" "wait_result (new_rmq_life w) = None"
  "rl_world (new_rmq_life w) = w" "rl_queue (new_rmq_life w) = []" "rl_served (new_rmq_life w) = []"
  "rl_down (new_rmq_life w) = NotShut" "rl_up (new_rmq_life w)" "life_of (new_rmq_life w) = new_life_of_server"
  by (simp_all add: new_rmq_life_def new_life_of_server_def server_life.defs rl_up_def)

text \<open>The calls that answer and acknowledge deliveries.\<close>

definition replies :: "amqp_call list \<Rightarrow> (string \<times> string) list" where
  "replies = List.map_filter (\<lambda>c. case c of Publish ch x k m i p \<Rightarrow> Some (x, pb_correlation_id p) | _ \<Rightarrow> None)"

definition acks_of :: "amqp_call list \<Rightarrow> nat list" where
  "acks_of = List.map_filter (\<lambda>c. case c of Ack t multiple \<Rightarrow> Some t | _ \<Rightarrow> None)"

lemma replies_append [simp]: "replies (cs @ ds) = replies cs @ replies ds"
  by (simp add: replies_def List.map_filter_def)

lemma acks_append [simp]: "acks_of (cs @ ds) = acks_of cs @ acks_of ds"
  by (simp add: acks_of_def List.map_filter_def)

lemma answer_calls [simp]:
  "replies [] = []" "acks_of [] = []"
  "replies (Ack t b # cs) = replies cs" "acks_of (Ack t b # cs) = t # acks_of cs"
  "replies (CloseConnection h # cs) = replies cs" "acks_of (CloseConnection h # cs) = acks_of cs"
  "replies (rmq_reply cn d status body # cs) = (d_reply_to d, d_correlation_id d) # replies cs"
  "acks_of (rmq_reply cn d status body # cs) = acks_of cs"
  by (simp_all add: replies_def acks_of_def List.map_filter_def rmq_reply_def)

text \<open>Connecting answers nothing.\<close>

interpretation connecting_silently: kept_by_attempts "connect qn" pause_connect
  "\<lambda>cs. replies (rm_calls (snd cs)) = rs \<and> acks_of (rm_calls (snd cs)) = as"
proof (unfold_locales, goal_cases)
  case (1 cs)
  obtain c s r c' s' where "cs = (c, s)" "connect qn cs = (r, (c', s'))" by (metis prod.exhaust)
  with 1 show ?case
    by (auto simp: connect_def ask_def Let_def replies_def acks_of_def List.map_filter_def split: option.splits)
qed (simp add: pause_connect_def)

lemma AttemptConnect_answers_nothing:
  assumes "AttemptConnect qn cs = (r, cs')"
  shows "replies (rm_calls (snd cs')) = replies (rm_calls (snd cs)) \<and> acks_of (rm_calls (snd cs')) = acks_of (rm_calls (snd cs))"
  using assms connecting_silently.retry_loop_inv [of cs "replies (rm_calls (snd cs))" "acks_of (rm_calls (snd cs))" qn]
  by (auto simp: AttemptConnect_def split: prod.splits option.splits) (metis snd_conv)+

lemma rmq_Shutdown_calls:
  "rmq_Shutdown (logger_of server_log) h r w = (res, w') \<Longrightarrow> rmq_calls w' = rmq_calls w @ [CloseConnection h]"
  by (auto simp: rmq_Shutdown_def collect_split rmq_ask_def ask_def Let_def rmq_calls_def server_logger.log_sel
      server_logger.info_sel split: prod.splits option.splits)


lemma rmq_serveCall_answers:
  assumes "rmq_serveCall (rmq_server_of routes marshal) d w = (Ret u, w')"
  shows "\<exists>status body. rmq_calls w' = rmq_calls w @ [rmq_reply (fst (sw_net w)) d status body, Ack (d_tag d) False]"
  using rmq_answers_once_then_acks [where routes = routes and d = d and w = w and marshal = marshal] assms
  by (auto split: prod.splits outcome.splits) (metis surj_pair)

text \<open>
  What holds of every state: who has been waited for is done, every delivery served was answered on its
  queue and acknowledged, and closing the connection was the last call.
\<close>

definition waited_done :: "'a server_life_scheme \<Rightarrow> bool" where
  "waited_done l \<longleftrightarrow> (wait_result l \<noteq> None \<longrightarrow> stop_asked l \<and> (main_at l = Unstarted \<or> (\<exists>r. main_at l = Finished r)))"

lemma report_step_waited: "report_step l m \<Longrightarrow> waited_done l \<Longrightarrow> waited_done m"
  by (induction rule: report_step.induct) (auto simp: waited_done_def)

lemma wait_step_waited: "wait_step l m \<Longrightarrow> waited_done l \<Longrightarrow> waited_done m"
  by (induction rule: wait_step.induct) (auto simp: waited_done_def)

lemma close_stop_waited: "waited_done l \<Longrightarrow> waited_done (close_stop l)"
  by (simp add: waited_done_def)

definition rl_answers :: "'a rmq_life \<Rightarrow> bool" where
  "rl_answers l \<longleftrightarrow> (rl_crashed l \<and> rl_down l = NotShut) \<or>
     replies (rmq_calls (rl_world l)) = map (\<lambda>d. (d_reply_to d, d_correlation_id d)) (rl_served l) \<and>
     acks_of (rmq_calls (rl_world l)) = map d_tag (rl_served l)"

definition rl_closed_last :: "'a rmq_life \<Rightarrow> bool" where
  "rl_closed_last l \<longleftrightarrow> (rl_down l \<noteq> NotShut \<longrightarrow> wait_result l \<noteq> None) \<and>
     (\<forall>r. rl_down l = Shut r \<longrightarrow> (\<exists>cs h. rmq_calls (rl_world l) = cs @ [CloseConnection h]))"

definition rl_inv :: "'a rmq_life \<Rightarrow> bool" where
  "rl_inv l \<longleftrightarrow> waited_done l \<and> rl_answers l \<and> rl_closed_last l"

lemma rl_frames:
  "report_step l m \<Longrightarrow> rl_world m = rl_world l \<and> rl_served m = rl_served l \<and> rl_crashed m = rl_crashed l \<and>
     rl_down m = rl_down l \<and> wait_result m = wait_result l \<and> stop_asked m = stop_asked l"
  "wait_step l m \<Longrightarrow> rl_world m = rl_world l \<and> rl_served m = rl_served l \<and> rl_crashed m = rl_crashed l \<and>
     rl_down m = rl_down l \<and> wait_result l = None"
  "rl_world (close_stop l) = rl_world l \<and> rl_served (close_stop l) = rl_served l \<and> rl_crashed (close_stop l) = rl_crashed l \<and>
     rl_down (close_stop l) = rl_down l"
  by (auto simp: close_stop_def elim: report_step.cases wait_step.cases)

lemma rl_inv_step:
  assumes "rmq_life_step qn (rmq_server_of routes marshal) l m" and "rl_inv l"
  shows "rl_inv m"
  using assms
proof (induction rule: rmq_life_step.induct)
  case (serves l d ds u w)
  with rmq_serveCall_answers [OF serves(4)] show ?case
    by (auto simp: rl_inv_def waited_done_def rl_answers_def rl_closed_last_def rl_up_def)
next
  case (reconnects l n)
  with AttemptConnect_answers_nothing [OF reconnects(5)] show ?case
    by (auto simp: rl_inv_def waited_done_def rl_answers_def rl_closed_last_def rmq_calls_def)
next
  case (gives_up l e n)
  with AttemptConnect_answers_nothing [OF gives_up(5)] show ?case
    by (auto simp: rl_inv_def waited_done_def rl_answers_def rl_closed_last_def rmq_calls_def)
next
  case (shuts l r h res w)
  with rmq_Shutdown_calls [of h r "rl_world l" res w] show ?case
    by (auto simp: rl_inv_def waited_done_def rl_answers_def rl_closed_last_def rl_up_def rmq_server_of_sel)
next
  case (reports l m)
  with rl_frames(1) [OF reports(2)] report_step_waited [OF reports(2)] show ?case
    by (auto simp: rl_inv_def rl_answers_def rl_closed_last_def)
next
  case (waits l m)
  with rl_frames(2) [OF waits(2)] wait_step_waited [OF waits(2)] show ?case
    by (auto simp: rl_inv_def rl_answers_def rl_closed_last_def)
next
  case (stops l)
  with rl_frames(3) [of l] close_stop_waited [of l] show ?case
    by (auto simp: rl_inv_def rl_answers_def rl_closed_last_def)
next
  case (Start l)
  then show ?case
    by (auto simp: rl_inv_def waited_done_def rl_answers_def rl_closed_last_def rmq_calls_def rmq_server_of_sel server_logger.info_sel)
qed (auto simp: rl_inv_def waited_done_def rl_answers_def rl_closed_last_def rl_up_def)

lemma rl_inv_run:
  "(rmq_life_step qn (rmq_server_of routes marshal))\<^sup>*\<^sup>* l m \<Longrightarrow> rl_inv l \<Longrightarrow> rl_inv m"
  by (induction rule: rtranclp_induct) (auto intro: rl_inv_step)

text \<open>Once \<open>Shutdown\<close> has closed the connection nothing is served and the driver is left alone.\<close>

lemma after_shut_step:
  assumes "rmq_life_step qn srv l m" and "rl_inv l" and "rl_down l \<noteq> NotShut"
  shows "rl_world m = rl_world l \<and> rl_served m = rl_served l \<and> rl_down m = rl_down l"
  using assms
  by (induction rule: rmq_life_step.induct)
    (auto simp: rl_inv_def waited_done_def rl_closed_last_def dest: rl_frames(1,2) simp: rl_frames(3))

lemma after_shut_run:
  assumes "(rmq_life_step qn (rmq_server_of routes marshal))\<^sup>*\<^sup>* l m" and "rl_inv l" and "rl_down l \<noteq> NotShut"
  shows "rl_world m = rl_world l \<and> rl_served m = rl_served l \<and> rl_down m = rl_down l"
  using assms(1)
proof (induction rule: rtranclp_induct)
  case (step m n)
  with after_shut_step [OF step(2) rl_inv_run [OF step(1) assms(2)]] assms(3) show ?case by simp
qed simp


lemma rl_inv_new [simp]: "rmq_calls w = [] \<Longrightarrow> rl_inv (new_rmq_life w)"
  by (simp add: rl_inv_def waited_done_def rl_answers_def rl_closed_last_def)

text \<open>
  The loss of the broker makes \<open>Shutdown\<close> close a nil pointer: the last dialling failed, so the
  connection is nil, the goroutine ends with the error, and the program that hears of it calls
  \<open>Shutdown\<close>.
\<close>

definition lost_world :: "nat rmq_world" where
  "lost_world = \<lparr>sw_net = ((new_connection ''rpc'' ''amqp://broker'' 5 1)\<lparr>conn_Connection := Some 0\<rparr>,
     \<lparr>rm_answer = (\<lambda>n. Some (ErrNew ''connection refused'')), rm_calls = [], rm_slept = 0\<rparr>), sw_app = 0, sw_lines = []\<rparr>"

lemma Shutdown_of_a_lost_connection:
  "\<exists>l. (rmq_life_step (\<lambda>n. '''') (rmq_server_of echo_routes Inr))\<^sup>*\<^sup>* (new_rmq_life lost_world) l \<and> rl_down l = ShutOnNil"
proof -
  let ?srv = "rmq_server_of echo_routes Inr" let ?step = "rmq_life_step (\<lambda>n. '''') ?srv"
  let ?e = "wrap ''rmq_rpc - AttemptConnect - c.connect'' (wrap ''amqp.Dial'' (ErrNew ''connection refused''))"
  let ?l0 = "new_rmq_life lost_world"
  let ?w = "lg_Info (rs_logger ?srv) ''rmq_rpc server - Server - Started'' [] lost_world"
  let ?l1 = "?l0\<lparr>main_at := Running, rl_world := ?w\<rparr>"
  let ?l2 = "?l1\<lparr>rl_open := False\<rparr>"
  have net: "sw_net ?w = sw_net lost_world" by (simp add: rmq_server_of_sel server_logger.info_sel)
  obtain n where n: "AttemptConnect (\<lambda>n. '''') (sw_net ?w) = (Some ?e, n)" "conn_Connection (fst n) = None"
    unfolding net by (simp add: lost_world_def AttemptConnect_def connect_def ask_def Let_def new_connection_def)
  let ?l3 = "?l2\<lparr>rl_world := ?w\<lparr>sw_net := n\<rparr>, main_at := Failing ?e\<rparr>"
  let ?l4 = "?l3\<lparr>main_at := Signalled ?e, notice := Some ?e\<rparr>"
  let ?l5 = "?l4\<lparr>main_at := Finished (Some ?e), note_closed := True\<rparr>"
  let ?l6 = "close_stop ?l5" let ?l7 = "?l6\<lparr>wait_result := Some (Some ?e)\<rparr>"
  have up: "rl_up ?l0" "rl_up ?l6" "stop_asked ?l5 = False" "notice ?l0 = None" "rl_open ?l0"
    by (simp_all add: rl_up_def new_rmq_life_def new_life_of_server_def server_life.defs close_stop_def)
  have "?step ?l0 ?l1" using rmq_life_step.Start [of ?l0] by simp
  moreover have "?step ?l1 ?l2" using rmq_life_step.breaks [of ?l1] up by (simp add: rl_up_def)
  moreover have "?step ?l2 ?l3" using rmq_life_step.gives_up [of ?l2] up n by (simp add: rl_up_def)
  moreover have "?step ?l3 ?l4" using up by (intro rmq_life_step.reports report_step.send) (simp_all add: rl_up_def)
  moreover have "?step ?l4 ?l5" using up by (intro rmq_life_step.reports report_step.close_and_leave) (simp_all add: rl_up_def)
  moreover have "?step ?l5 ?l6" using up by (intro rmq_life_step.stops) (simp add: rl_up_def)
  moreover have "?step ?l6 ?l7"
    using up by (intro rmq_life_step.waits wait_step.wait_ends) (simp_all add: rl_up_def close_stop_def)
  moreover have "?step ?l7 (?l7\<lparr>rl_down := ShutOnNil\<rparr>)"
    using up n by (intro rmq_life_step.shuts_nil) (simp_all add: rl_up_def close_stop_def)
  ultimately have "?step\<^sup>*\<^sup>* ?l0 (?l7\<lparr>rl_down := ShutOnNil\<rparr>)" by (meson converse_rtranclp_into_rtranclp rtranclp.rtrancl_refl)
  then show ?thesis by (intro exI [of _ "?l7\<lparr>rl_down := ShutOnNil\<rparr>"]) simp
qed


text \<open>
  C24. \<open>Shutdown\<close> of the RabbitMQ server is graceful: when it has closed the connection, every delivery that
  was served had been answered on its own queue under its own identifier and acknowledged, in the
  order served; closing was the last call to the driver; and whatever happens later, no delivery is
  served and the driver is not called again.
\<close>

theorem rmq_Shutdown_is_graceful:
  assumes "(rmq_life_step qn (rmq_server_of routes marshal))\<^sup>*\<^sup>* (new_rmq_life w) l" and "rmq_calls w = []"
    and "rl_down l = Shut res" and "(rmq_life_step qn (rmq_server_of routes marshal))\<^sup>*\<^sup>* l m"
  shows "(\<exists>cs h. rmq_calls (rl_world l) = cs @ [CloseConnection h]) \<and>
    replies (rmq_calls (rl_world l)) = map (\<lambda>d. (d_reply_to d, d_correlation_id d)) (rl_served l) \<and>
    acks_of (rmq_calls (rl_world l)) = map d_tag (rl_served l) \<and>
    rl_served m = rl_served l \<and> rl_world m = rl_world l"
  using rl_inv_run [OF assms(1) rl_inv_new [OF assms(2)]] after_shut_run [OF assms(4)] assms(3)
  by (auto simp: rl_inv_def rl_answers_def rl_closed_last_def)

definition linked_world :: "nat rmq_world" where
  "linked_world = echo_world\<lparr>sw_net := ((fst (sw_net echo_world))\<lparr>conn_Connection := Some 0\<rparr>, snd (sw_net echo_world))\<rparr>"

theorem rmq_Shutdown_is_graceful_witness:
  "\<exists>l :: nat rmq_life. rl_down l \<noteq> NotShut \<and> rl_served l = [echo_delivery] \<and> acks_of (rmq_calls (rl_world l)) = [7]"
proof -
  let ?srv = "rmq_server_of echo_routes Inr" let ?step = "rmq_life_step (\<lambda>n. '''') ?srv"
  let ?l0 = "new_rmq_life linked_world"
  let ?w1 = "lg_Info (rs_logger ?srv) ''rmq_rpc server - Server - Started'' [] linked_world"
  let ?l1 = "?l0\<lparr>main_at := Running, rl_world := ?w1\<rparr>"
  let ?l2 = "?l1\<lparr>rl_queue := [echo_delivery]\<rparr>"
  obtain w2 where w2: "rmq_serveCall ?srv echo_delivery ?w1 = (Ret (), w2)" "fst (sw_net w2) = fst (sw_net ?w1)"
    using rmq_answers_once_then_acks [where routes = echo_routes and d = echo_delivery and w = ?w1 and marshal = Inr]
      serveCall_connection [of echo_routes Inr echo_delivery ?w1]
    by (auto simp: invoke_def echo_routes_def echo_delivery_def split: prod.splits)
  let ?l3 = "?l2\<lparr>rl_queue := [], rl_world := w2, rl_served := rl_served ?l2 @ [echo_delivery]\<rparr>"
  let ?l4 = "close_stop ?l3" let ?l5 = "?l4\<lparr>main_at := Finished None\<rparr>"
  let ?l6 = "?l5\<lparr>wait_result := Some None\<rparr>"
  obtain res w3 where w3: "rmq_Shutdown (rs_logger ?srv) 0 None w2 = (res, w3)" by (metis prod.exhaust)
  let ?l7 = "?l6\<lparr>rl_world := w3, rl_down := Shut res\<rparr>"
  have up: "rl_up ?l0" "rl_up ?l4" "stop_asked ?l4" "rl_open ?l0"
    by (simp_all add: rl_up_def new_rmq_life_def new_life_of_server_def server_life.defs close_stop_def)
  have link: "conn_Connection (fst (sw_net w2)) = Some 0"
    unfolding w2(2) by (simp add: rmq_server_of_sel server_logger.info_sel linked_world_def)
  have "?step ?l0 ?l1" using rmq_life_step.Start [of ?l0] by simp
  moreover have "?step ?l1 ?l2" using rmq_life_step.arrives [of ?l1 _ _ echo_delivery] up by (simp add: rl_up_def)
  moreover have "?step ?l2 ?l3" using up w2 by (intro rmq_life_step.serves) (simp_all add: rl_up_def)
  moreover have "?step ?l3 ?l4" using up by (intro rmq_life_step.stops) (simp add: rl_up_def)
  moreover have "?step ?l4 ?l5" using up by (intro rmq_life_step.told_to_stop) (simp_all add: rl_up_def)
  moreover have "?step ?l5 ?l6" using up by (intro rmq_life_step.waits wait_step.wait_ends) (simp_all add: rl_up_def close_stop_def)
  moreover have "?step ?l6 ?l7" using up link w3 by (intro rmq_life_step.shuts) (simp_all add: rl_up_def close_stop_def)
  ultimately have run: "?step\<^sup>*\<^sup>* ?l0 ?l7" by (meson converse_rtranclp_into_rtranclp rtranclp.rtrancl_refl)
  have "rmq_calls linked_world = []" by (simp add: linked_world_def echo_world_def rmq_calls_def)
  from rmq_Shutdown_is_graceful [OF run this _ rtranclp.rtrancl_refl, of res] have "acks_of (rmq_calls (rl_world ?l7)) = [7]"
    by (simp add: close_stop_def echo_delivery_def)
  then show ?thesis by (intro exI [of _ ?l7]) (simp add: close_stop_def)
qed


section \<open>The NATS server\<close>

text \<open>
  The driver keeps the messages of a subscription and calls \<open>handleMessage\<close> from a goroutine of its own,
  for one message after the other; \<open>Unsubscribe\<close> drops those that wait, but not the one in progress.
\<close>

record 'a nats_life = server_life +
  nl_world :: "'a nats_world"
  nl_subscription :: "nat option"
  nl_pending :: "nats_msg list"
  nl_callback :: "nats_msg option"
  nl_answered :: "nats_msg list"
  nl_crashed :: bool
  nl_down :: shut_phase

definition new_nats_life :: "'a nats_world \<Rightarrow> 'a nats_life" where
  "new_nats_life w = server_life.extend new_life_of_server
     \<lparr>nl_world = w, nl_subscription = None, nl_pending = [], nl_callback = None, nl_answered = [],
      nl_crashed = False, nl_down = NotShut\<rparr>"

definition nl_up :: "'a nats_life \<Rightarrow> bool" where
  "nl_up l \<longleftrightarrow> \<not> stop_panic l \<and> \<not> nl_crashed l"

text \<open>\<open>subject\<close> and \<open>connection\<close> are fields of the server that nothing changes.\<close>

inductive nats_life_step ::
  "string \<Rightarrow> nat \<Rightarrow> ('a, 'v) nats_server \<Rightarrow> 'a nats_life \<Rightarrow> 'a nats_life \<Rightarrow> bool"
  for subject :: string and connection :: nat and srv :: "('a, 'v) nats_server" where
  Start: "nl_up l \<Longrightarrow> main_at l = Unstarted \<Longrightarrow> \<not> stop_asked l \<Longrightarrow>
     nats_life_step subject connection srv l (l\<lparr>main_at := Running,
       nl_world := lg_Info (ns_logger srv) ''nats_rpc server - Server - Started'' [] (nl_world l)\<rparr>)"
| subscribes: "nl_up l \<Longrightarrow> main_at l = Running \<Longrightarrow> nl_subscription l = None \<Longrightarrow>
     nats_subscribe subject (sw_net (nl_world l)) = (Inr h, n) \<Longrightarrow>
     nats_life_step subject connection srv l (l\<lparr>nl_world := (nl_world l)\<lparr>sw_net := n\<rparr>, nl_subscription := Some h\<rparr>)"
| cannot_subscribe: "nl_up l \<Longrightarrow> main_at l = Running \<Longrightarrow> nl_subscription l = None \<Longrightarrow>
     nats_subscribe subject (sw_net (nl_world l)) = (Inl e, n) \<Longrightarrow>
     nats_life_step subject connection srv l (l\<lparr>nl_world := (nl_world l)\<lparr>sw_net := n\<rparr>, main_at := Failing e\<rparr>)"
| told_to_stop: "nl_up l \<Longrightarrow> main_at l = Running \<Longrightarrow> nl_subscription l \<noteq> None \<Longrightarrow> stop_asked l \<Longrightarrow>
     nats_life_step subject connection srv l (l\<lparr>main_at := Finished None\<rparr>)"
| arrives: "nl_up l \<Longrightarrow> nl_subscription l \<noteq> None \<Longrightarrow> nl_down l = NotShut \<Longrightarrow>
     nats_life_step subject connection srv l (l\<lparr>nl_pending := nl_pending l @ [msg]\<rparr>)"
| begins: "nl_up l \<Longrightarrow> nl_callback l = None \<Longrightarrow> nl_pending l = msg # ms \<Longrightarrow>
     nats_life_step subject connection srv l (l\<lparr>nl_pending := ms, nl_callback := Some msg\<rparr>)"
| handles: "nl_up l \<Longrightarrow> nl_callback l = Some msg \<Longrightarrow> nats_handleMessage srv msg (nl_world l) = (Ret u, w) \<Longrightarrow>
     nats_life_step subject connection srv l
       (l\<lparr>nl_world := w, nl_callback := None, nl_answered := nl_answered l @ [msg]\<rparr>)"
| handler_panics: "nl_up l \<Longrightarrow> nl_callback l = Some msg \<Longrightarrow> nats_handleMessage srv msg (nl_world l) = (Panic m, w) \<Longrightarrow>
     nats_life_step subject connection srv l (l\<lparr>nl_world := w, nl_crashed := True\<rparr>)"
| reports: "nl_up l \<Longrightarrow> report_step l m \<Longrightarrow> nats_life_step subject connection srv l m"
| stops: "nl_up l \<Longrightarrow> nats_life_step subject connection srv l (close_stop l)"
| waits: "nl_up l \<Longrightarrow> wait_step l m \<Longrightarrow> nats_life_step subject connection srv l m"
| shuts: "nl_up l \<Longrightarrow> wait_result l = Some r \<Longrightarrow> nl_down l = NotShut \<Longrightarrow>
     nats_Shutdown (ns_logger srv) (nl_subscription l) connection r (nl_world l) = (res, w) \<Longrightarrow>
     nats_life_step subject connection srv l (l\<lparr>nl_world := w, nl_pending := [], nl_down := Shut res\<rparr>)"

lemma life_of_nats_update [simp]:
  "life_of (l\<lparr>nl_world := w\<rparr>) = life_of l" "life_of (l\<lparr>nl_subscription := s\<rparr>) = life_of l"
  "life_of (l\<lparr>nl_pending := ms\<rparr>) = life_of l" "life_of (l\<lparr>nl_callback := cb\<rparr>) = life_of l"
  "life_of (l\<lparr>nl_answered := ms\<rparr>) = life_of l" "life_of (l\<lparr>nl_crashed := b\<rparr>) = life_of l" "life_of (l\<lparr>nl_down := x\<rparr>) = life_of l"
  by (simp_all add: server_life.defs)

interpretation nats_hosted: hosted_server "nats_life_step subject connection srv" life_of True
proof (unfold_locales, goal_cases)
  case (1 l m)
  then show ?case
    by (induction rule: nats_life_step.induct)
      (auto simp: nl_up_def intro: server_step.Start server_step.main_fails server_step.main_returns
        report_step_follows wait_step_follows close_stop_follows)
qed

lemma new_nats_life_sel [simp]:
  "main_at (new_nats_life w) = Unstarted" "stop_asked (new_nats_life w) = False" "wait_result (new_nats_life w) = None"
  "nl_world (new_nats_life w) = w" "nl_pending (new_nats_life w) = []" "nl_callback (new_nats_life w) = None"
  "nl_answered (new_nats_life w) = []" "nl_subscription (new_nats_life w) = None"
  "nl_down (new_nats_life w) = NotShut" "nl_up (new_nats_life w)" "life_of (new_nats_life w) = new_life_of_server"
  by (simp_all add: new_nats_life_def new_life_of_server_def server_life.defs nl_up_def)

section \<open>The HTTP and the gRPC server\<close>

text \<open>
  Here the library serves; what the program does is to listen, to report and to shut down. \<open>hl_calls\<close>
  are its calls, and the lines of the log are kept by \<open>log\<close> in \<open>hl_log\<close>. \<open>Listen\<close> of fiber is called by the
  goroutine, some time after \<open>Start\<close>; some time after that its listener is registered (\<open>hl_open\<close>). It fails
  at any time, and returns nil only after a shutdown that found the listener: \<open>ShutdownWithTimeout\<close> does
  nothing when there is none yet, and \<open>Listen\<close> serves on afterwards (\<open>hl_heard\<close> tells the two apart). What
  \<open>ShutdownWithTimeout\<close> answers is kept for the end.
\<close>

datatype host_call = Listen string | ShutdownWithTimeout int | Serve | GracefulStop

record 'w host_life = server_life +
  hl_calls :: "host_call list"
  hl_open :: bool
  hl_heard :: bool
  hl_log :: 'w
  hl_stop :: "goerr option"
  hl_down :: shut_phase

definition new_host_life :: "'w \<Rightarrow> 'w host_life" where
  "new_host_life w = server_life.extend new_life_of_server \<lparr>hl_calls = [], hl_open = False, hl_heard = False,
     hl_log = w, hl_stop = None, hl_down = NotShut\<rparr>"

inductive http_life_step :: "http_server \<Rightarrow> 'w logger \<Rightarrow> 'w host_life \<Rightarrow> 'w host_life \<Rightarrow> bool"
  for srv :: http_server and log :: "'w logger" where
  Start: "main_at l = Unstarted \<Longrightarrow> \<not> stop_asked l \<Longrightarrow>
     http_life_step srv log l (l\<lparr>main_at := Running,
       hl_log := lg_Info log ''http server - Server - Started'' [] (hl_log l)\<rparr>)"
| listens: "main_at l = Running \<Longrightarrow> Listen (hs_address srv) \<notin> set (hl_calls l) \<Longrightarrow>
     http_life_step srv log l (l\<lparr>hl_calls := hl_calls l @ [Listen (hs_address srv)]\<rparr>)"
| opens: "main_at l = Running \<Longrightarrow> Listen (hs_address srv) \<in> set (hl_calls l) \<Longrightarrow>
     http_life_step srv log l (l\<lparr>hl_open := True\<rparr>)"
| Listen_fails: "main_at l = Running \<Longrightarrow> Listen (hs_address srv) \<in> set (hl_calls l) \<Longrightarrow>
     http_life_step srv log l (l\<lparr>main_at := Failing e\<rparr>)"
| Listen_returns: "main_at l = Running \<Longrightarrow> hl_heard l \<Longrightarrow> stop_asked l \<Longrightarrow>
     http_life_step srv log l (l\<lparr>main_at := Finished None\<rparr>)"
| reports: "report_step l m \<Longrightarrow> http_life_step srv log l m"
| stops: "\<not> stop_asked l \<Longrightarrow> http_life_step srv log l (l\<lparr>stop_asked := True,
     hl_calls := hl_calls l @ [ShutdownWithTimeout (hs_shutdownTimeout srv)], hl_heard := hl_open l, hl_stop := r\<rparr>)"
| waits: "wait_step l m \<Longrightarrow> http_life_step srv log l m"
| shuts: "wait_result l = Some r \<Longrightarrow> hl_down l = NotShut \<Longrightarrow> http_Shutdown log (hl_stop l) r (hl_log l) = (res, w) \<Longrightarrow>
     http_life_step srv log l (l\<lparr>hl_log := w, hl_down := Shut res\<rparr>)"

text \<open>
  The goroutine of the gRPC server first opens its port and then serves; either can fail. \<open>Serve\<close> returns
  after \<open>GracefulStop\<close>, also when it is called afterwards.
\<close>

inductive grpc_life_step :: "string \<Rightarrow> 'w logger \<Rightarrow> 'w host_life \<Rightarrow> 'w host_life \<Rightarrow> bool"
  for address :: string and log :: "'w logger" where
  Start: "main_at l = Unstarted \<Longrightarrow> \<not> stop_asked l \<Longrightarrow>
     grpc_life_step address log l (l\<lparr>main_at := Running,
       hl_log := lg_Info log ''grpc server - Server - Started'' [] (hl_log l)\<rparr>)"
| listens: "main_at l = Running \<Longrightarrow> Listen address \<notin> set (hl_calls l) \<Longrightarrow>
     grpc_life_step address log l (l\<lparr>hl_calls := hl_calls l @ [Listen address]\<rparr>)"
| Listen_fails: "main_at l = Running \<Longrightarrow> Listen address \<in> set (hl_calls l) \<Longrightarrow> Serve \<notin> set (hl_calls l) \<Longrightarrow>
     grpc_life_step address log l (l\<lparr>main_at := Failing e\<rparr>)"
| Listen_returns: "main_at l = Running \<Longrightarrow> Listen address \<in> set (hl_calls l) \<Longrightarrow> Serve \<notin> set (hl_calls l) \<Longrightarrow>
     grpc_life_step address log l (l\<lparr>hl_calls := hl_calls l @ [Serve]\<rparr>)"
| Serve_fails: "main_at l = Running \<Longrightarrow> Serve \<in> set (hl_calls l) \<Longrightarrow> grpc_life_step address log l (l\<lparr>main_at := Failing e\<rparr>)"
| Serve_returns: "main_at l = Running \<Longrightarrow> Serve \<in> set (hl_calls l) \<Longrightarrow> stop_asked l \<Longrightarrow>
     grpc_life_step address log l (l\<lparr>main_at := Finished None\<rparr>)"
| reports: "report_step l m \<Longrightarrow> grpc_life_step address log l m"
| stops: "\<not> stop_asked l \<Longrightarrow> grpc_life_step address log l (l\<lparr>stop_asked := True, hl_calls := hl_calls l @ [GracefulStop]\<rparr>)"
| waits: "wait_step l m \<Longrightarrow> grpc_life_step address log l m"
| shuts: "wait_result l = Some r \<Longrightarrow> hl_down l = NotShut \<Longrightarrow> grpc_Shutdown log r (hl_log l) = (res, w) \<Longrightarrow>
     grpc_life_step address log l (l\<lparr>hl_log := w, hl_down := Shut res\<rparr>)"

lemma life_of_host_update [simp]:
  "life_of (l\<lparr>hl_calls := cs\<rparr>) = life_of l" "life_of (l\<lparr>hl_log := w\<rparr>) = life_of l"
  "life_of (l\<lparr>hl_stop := r\<rparr>) = life_of l" "life_of (l\<lparr>hl_down := x\<rparr>) = life_of l"
  "life_of (l\<lparr>hl_open := b\<rparr>) = life_of l" "life_of (l\<lparr>hl_heard := c\<rparr>) = life_of l"
  by (simp_all add: server_life.defs)


text \<open>Neither closes a channel of its own, so nothing of them panics.\<close>

definition calm_life :: "'a server_life_scheme \<Rightarrow> server_life" where
  "calm_life l = (life_of l)\<lparr>stop_panic := False\<rparr>"

lemma calm_sel [simp]:
  "main_at (calm_life l) = main_at l" "notice (calm_life l) = notice l" "stop_asked (calm_life l) = stop_asked l"
  "wait_result (calm_life l) = wait_result l" "\<not> stop_panic (calm_life l)"
  by (simp_all add: calm_life_def)

lemma calm_update [simp]:
  "calm_life (l\<lparr>main_at := p\<rparr>) = (calm_life l)\<lparr>main_at := p\<rparr>" "calm_life (l\<lparr>notice := n\<rparr>) = (calm_life l)\<lparr>notice := n\<rparr>"
  "calm_life (l\<lparr>note_closed := b\<rparr>) = (calm_life l)\<lparr>note_closed := b\<rparr>" "calm_life (l\<lparr>stop_asked := b\<rparr>) = (calm_life l)\<lparr>stop_asked := b\<rparr>"
  "calm_life (l\<lparr>wait_result := r\<rparr>) = (calm_life l)\<lparr>wait_result := r\<rparr>"
  "calm_life (h\<lparr>hl_calls := cs\<rparr>) = calm_life h" "calm_life (h\<lparr>hl_log := w\<rparr>) = calm_life h"
  "calm_life (h\<lparr>hl_stop := s\<rparr>) = calm_life h" "calm_life (h\<lparr>hl_down := x\<rparr>) = calm_life h"
  "calm_life (h\<lparr>hl_open := b\<rparr>) = calm_life h" "calm_life (h\<lparr>hl_heard := c\<rparr>) = calm_life h"
  by (simp_all add: calm_life_def)

lemma calm_report: "report_step l m \<Longrightarrow> server_step closes (calm_life l) (calm_life m)"
  by (induction rule: report_step.induct) (auto intro: server_step.send server_step.close_and_leave server_step.take_note)

lemma calm_wait: "wait_step l m \<Longrightarrow> server_step closes (calm_life l) (calm_life m)"
  by (induction rule: wait_step.induct) (auto intro: server_step.wait_ends server_step.wait_unstarted)

lemma calm_main:
  "main_at l = Unstarted \<Longrightarrow> server_step closes (calm_life l) ((calm_life l)\<lparr>main_at := Running\<rparr>)"
  "main_at l = Running \<Longrightarrow> server_step closes (calm_life l) ((calm_life l)\<lparr>main_at := Failing e\<rparr>)"
  "main_at l = Running \<Longrightarrow> stop_asked l \<Longrightarrow> server_step closes (calm_life l) ((calm_life l)\<lparr>main_at := Finished None\<rparr>)"
  "server_step False (calm_life l) ((calm_life l)\<lparr>stop_asked := True\<rparr>)"
  using server_step.ask_stop [of "calm_life l" False]
  by (auto intro: server_step.Start server_step.main_fails server_step.main_returns)

lemma calm_new [simp]: "calm_life (new_host_life w) = new_life_of_server"
  by (simp add: calm_life_def new_host_life_def new_life_of_server_def server_life.defs)

interpretation http_hosted: hosted_server "http_life_step srv log" calm_life False
proof (unfold_locales, goal_cases)
  case (1 l m)
  then show ?case
    by (induction rule: http_life_step.induct) (auto intro: calm_main calm_report calm_wait)
qed

interpretation grpc_hosted: hosted_server "grpc_life_step address log" calm_life False
proof (unfold_locales, goal_cases)
  case (1 l m)
  then show ?case
    by (induction rule: grpc_life_step.induct) (auto intro: calm_main calm_report calm_wait)
qed

text \<open>
  A shutdown that comes before the listener is there is lost: as long as \<open>Listen\<close> does not fail, the
  goroutine goes on and nobody can have waited for it, so \<open>Shutdown\<close> of the HTTP server does not return.
\<close>

definition stop_lost :: "'w host_life \<Rightarrow> bool" where
  "stop_lost l \<longleftrightarrow> main_at l = Running \<and> stop_asked l \<and> \<not> hl_heard l \<and> wait_result l = None"

lemma stop_before_listening_is_lost:
  assumes "http_life_step srv log l m" and "stop_lost l"
  shows "stop_lost m \<or> (\<exists>e. m = l\<lparr>main_at := Failing e\<rparr>)"
  using assms by (cases rule: http_life_step.cases) (auto simp: stop_lost_def elim!: report_step.cases wait_step.cases)

lemma stop_can_be_lost:
  "\<exists>l. (http_life_step srv log)\<^sup>*\<^sup>* (new_host_life w) l \<and> stop_lost l"
proof -
  let ?l0 = "new_host_life w"
  let ?l1 = "?l0\<lparr>main_at := Running, hl_log := lg_Info log ''http server - Server - Started'' [] (hl_log ?l0)\<rparr>"
  let ?l2 = "?l1\<lparr>stop_asked := True, hl_calls := hl_calls ?l1 @ [ShutdownWithTimeout (hs_shutdownTimeout srv)],
    hl_heard := hl_open ?l1, hl_stop := None\<rparr>"
  have new: "main_at ?l0 = Unstarted" "\<not> stop_asked ?l0" "\<not> hl_open ?l0" "wait_result ?l0 = None"
    by (simp_all add: new_host_life_def new_life_of_server_def server_life.defs)
  have "http_life_step srv log ?l0 ?l1" using new by (intro http_life_step.Start)
  moreover have "http_life_step srv log ?l1 ?l2" using new by (intro http_life_step.stops) simp
  ultimately have "(http_life_step srv log)\<^sup>*\<^sup>* ?l0 ?l2" by (meson converse_rtranclp_into_rtranclp rtranclp.rtrancl_refl)
  moreover have "stop_lost ?l2" using new by (simp add: stop_lost_def)
  ultimately show ?thesis by blast
qed

section \<open>Properties of the servers\<close>

text \<open>
  All four servers keep to one protocol, whatever their transports do: each of their runs is, for
  the goroutine, the channel and the waiting, a run of \<^const>\<open>server_step\<close>. Hence a goroutine that fails
  can always send its error, whether or not anybody listens to \<open>Notify\<close>.
\<close>

theorem servers_keep_the_protocol:
  assumes "(rmq_life_step qn rmq)\<^sup>*\<^sup>* (new_rmq_life w1) l1" and "(nats_life_step subject connection nats)\<^sup>*\<^sup>* (new_nats_life w2) l2"
    and "(http_life_step http log3)\<^sup>*\<^sup>* (new_host_life w3) l3" and "(grpc_life_step address log4)\<^sup>*\<^sup>* (new_host_life w4) l4"
  shows "server_run True new_life_of_server (life_of l1) \<and> server_run True new_life_of_server (life_of l2) \<and>
    server_run False new_life_of_server (calm_life l3) \<and> server_run False new_life_of_server (calm_life l4) \<and>
    (\<forall>e. (main_at l1 = Failing e \<longrightarrow> notice l1 = None) \<and> (main_at l2 = Failing e \<longrightarrow> notice l2 = None) \<and>
      (main_at l3 = Failing e \<longrightarrow> notice l3 = None) \<and> (main_at l4 = Failing e \<longrightarrow> notice l4 = None))"
  using rmq_hosted.run_follows [OF assms(1)] nats_hosted.run_follows [OF assms(2)]
    http_hosted.run_follows [OF assms(3)] grpc_hosted.run_follows [OF assms(4)]
    rmq_hosted.error_has_room [OF assms(1)] nats_hosted.error_has_room [OF assms(2)]
    http_hosted.error_has_room [OF assms(3)] grpc_hosted.error_has_room [OF assms(4)]
  by simp

text \<open>The calls by which the NATS server answers, and what one answer or the shutdown adds.\<close>

definition published :: "nats_call list \<Rightarrow> string list" where
  "published = List.map_filter (\<lambda>c. case c of PublishMsg m \<Rightarrow> Some (nm_subject m) | _ \<Rightarrow> None)"

lemma published_simps [simp]:
  "published (cs @ ds) = published cs @ published ds" "published [] = []"
  "published (PublishMsg m # cs) = nm_subject m # published cs" "published (Unsubscribe h # cs) = published cs"
  "published (CloseNats h # cs) = published cs" "published (Subscribe s # cs) = published cs"
  by (simp_all add: published_def List.map_filter_def)

lemma nats_handleMessage_answers:
  assumes "nats_handleMessage (nats_server_of routes marshal) msg w = (Ret u, w')"
  shows "\<exists>reply. rm_calls (sw_net w') = rm_calls (sw_net w) @ [PublishMsg reply] \<and> nm_subject reply = nm_reply msg"
  using nats_handleMessage_trace [where routes = routes and msg = msg and w = w and marshal = marshal] assms
  by (auto simp: nats_reply_def new_msg_def split: prod.splits outcome.splits) (metis nats_msg.select_convs(1) surj_pair)

lemma nats_Shutdown_calls:
  assumes "nats_Shutdown (logger_of server_log) sub connection r w = (res, w')"
  shows "rm_calls (sw_net w') = rm_calls (sw_net w) @ (case sub of None \<Rightarrow> [] | Some h \<Rightarrow> [Unsubscribe h]) @ [CloseNats connection]"
  using assms
  by (auto simp: nats_Shutdown_def collect_split ask_def Let_def server_logger.log_sel server_logger.info_sel
      split: prod.splits option.splits)

lemma nats_subscribe_calls:
  "nats_subscribe subject s = (r, s') \<Longrightarrow> rm_calls s' = rm_calls s @ [Subscribe subject]"
  by (auto simp: nats_subscribe_def ask_def Let_def split: option.splits)


theorem servers_keep_the_protocol_witness:
  "\<exists>l :: nat rmq_world host_life. main_at l = Failing (ErrNew ''address already in use'') \<and> notice l = None \<and>
     hl_calls l = [Listen '':80''] \<and> server_run False new_life_of_server (calm_life l)"
proof -
  let ?log = "logger_of server_log :: nat rmq_world logger" let ?srv = "new_http_server []"
  let ?l0 = "new_host_life echo_world"
  let ?l1 = "?l0\<lparr>main_at := Running, hl_log := lg_Info ?log ''http server - Server - Started'' [] (hl_log ?l0)\<rparr>"
  let ?l3 = "?l1\<lparr>hl_calls := hl_calls ?l1 @ [Listen (hs_address ?srv)]\<rparr>"
  let ?l2 = "?l3\<lparr>main_at := Failing (ErrNew ''address already in use'')\<rparr>"
  have new: "main_at ?l0 = Unstarted" "\<not> stop_asked ?l0" "hl_calls ?l0 = []"
    by (simp_all add: new_host_life_def new_life_of_server_def server_life.defs)
  have "http_life_step ?srv ?log ?l0 ?l1" using new by (intro http_life_step.Start) simp_all
  moreover have "http_life_step ?srv ?log ?l1 ?l3" using new by (intro http_life_step.listens) simp_all
  moreover have "http_life_step ?srv ?log ?l3 ?l2" by (rule http_life_step.Listen_fails) simp_all
  ultimately have run: "(http_life_step ?srv ?log)\<^sup>*\<^sup>* ?l0 ?l2" by (meson converse_rtranclp_into_rtranclp rtranclp.rtrancl_refl)
  have rmq: "(rmq_life_step (\<lambda>n. '''') (rmq_server_of echo_routes Inr))\<^sup>*\<^sup>* (new_rmq_life echo_world) (new_rmq_life echo_world)"
    and nats: "(nats_life_step '''' 0 (nats_server_of nats_routes Inr))\<^sup>*\<^sup>* (new_nats_life w) (new_nats_life w)"
    and grpc: "(grpc_life_step '''' ?log)\<^sup>*\<^sup>* (new_host_life echo_world) (new_host_life echo_world)" for w :: "nat nats_world"
    by simp_all
  from servers_keep_the_protocol [OF rmq nats run grpc] have "server_run False new_life_of_server (calm_life ?l2) \<and>
      (main_at ?l2 = Failing (ErrNew ''address already in use'') \<longrightarrow> notice ?l2 = None)" by blast
  then show ?thesis using new by (intro exI [of _ ?l2]) (simp add: new_http_server_def)
qed

text \<open>
  For the NATS server: every message handled is answered once, and after the shutdown nothing waits and
  at most one answer follows, that of the callback in progress.
\<close>

definition nl_closing :: "nat \<Rightarrow> nats_msg option \<Rightarrow> nats_call list \<Rightarrow> bool" where
  "nl_closing connection callback trace \<longleftrightarrow>
     (\<exists>cs late. trace = cs @ CloseNats connection # late \<and> length late \<le> (if callback = None then 1 else 0))"

lemma nl_closing_answer: "nl_closing connection (Some msg) trace \<Longrightarrow> nl_closing connection None (trace @ [c])"
  by (fastforce simp: nl_closing_def)

lemma nl_closing_close: "nl_closing connection callback (cs @ [CloseNats connection])"
  unfolding nl_closing_def by (rule exI [of _ cs], rule exI [of _ "[]"]) simp

definition nl_inv :: "nat \<Rightarrow> 'a nats_life \<Rightarrow> bool" where
  "nl_inv connection l \<longleftrightarrow>
     (nl_crashed l \<or> published (rm_calls (sw_net (nl_world l))) = map nm_reply (nl_answered l)) \<and>
     (nl_subscription l \<noteq> None \<longrightarrow> main_at l \<noteq> Unstarted) \<and>
     (nl_down l \<noteq> NotShut \<longrightarrow> wait_result l \<noteq> None \<and> nl_pending l = [] \<and>
        nl_closing connection (nl_callback l) (rm_calls (sw_net (nl_world l))))"

lemma nl_frames:
  "report_step l m \<Longrightarrow> nl_world m = nl_world l \<and> nl_answered m = nl_answered l \<and> nl_crashed m = nl_crashed l \<and>
     nl_down m = nl_down l \<and> nl_pending m = nl_pending l \<and> nl_callback m = nl_callback l \<and>
     nl_subscription m = nl_subscription l \<and> wait_result m = wait_result l \<and> (main_at l \<noteq> Unstarted \<longrightarrow> main_at m \<noteq> Unstarted)"
  "wait_step l m \<Longrightarrow> nl_world m = nl_world l \<and> nl_answered m = nl_answered l \<and> nl_crashed m = nl_crashed l \<and>
     nl_down m = nl_down l \<and> nl_pending m = nl_pending l \<and> nl_callback m = nl_callback l \<and>
     nl_subscription m = nl_subscription l \<and> main_at m = main_at l \<and> wait_result l = None"
  "nl_world (close_stop l) = nl_world l \<and> nl_answered (close_stop l) = nl_answered l \<and> nl_crashed (close_stop l) = nl_crashed l \<and>
     nl_down (close_stop l) = nl_down l \<and> nl_pending (close_stop l) = nl_pending l \<and> nl_callback (close_stop l) = nl_callback l \<and>
     nl_subscription (close_stop l) = nl_subscription l"
  by (auto simp: close_stop_def elim: report_step.cases wait_step.cases)

lemma nl_inv_step:
  assumes "nats_life_step subject connection (nats_server_of routes marshal) l m" and "nl_inv connection l" and "waited_done l"
  shows "nl_inv connection m \<and> waited_done m"
  using assms
proof (induction rule: nats_life_step.induct)
  case (subscribes l h n)
  with nats_subscribe_calls [OF subscribes(4)] show ?case by (auto simp: nl_inv_def waited_done_def)
next
  case (cannot_subscribe l e n)
  with nats_subscribe_calls [OF cannot_subscribe(4)] show ?case by (auto simp: nl_inv_def waited_done_def)
next
  case (handles l msg u w)
  obtain reply where "rm_calls (sw_net w) = rm_calls (sw_net (nl_world l)) @ [PublishMsg reply]" "nm_subject reply = nm_reply msg"
    using nats_handleMessage_answers [OF handles(3)] by blast
  with handles nl_closing_answer [of connection msg "rm_calls (sw_net (nl_world l))" "PublishMsg reply"] show ?case
    by (auto simp: nl_inv_def waited_done_def nl_up_def)
next
  case (handler_panics l msg e w)
  then have "sw_net w = sw_net (nl_world l)"
    using nats_handleMessage_trace [where routes = routes and msg = msg and w = "nl_world l" and marshal = marshal]
    by (auto split: prod.splits outcome.splits)
  with handler_panics show ?case by (simp add: nl_inv_def waited_done_def nl_up_def)
next
  case (shuts l r res w)
  from shuts(4) have w: "rm_calls (sw_net w) = (rm_calls (sw_net (nl_world l)) @
      (case nl_subscription l of None \<Rightarrow> [] | Some h \<Rightarrow> [Unsubscribe h])) @ [CloseNats connection]"
    using nats_Shutdown_calls [of "nl_subscription l" connection r "nl_world l" res w] by (simp add: nats_server_of_sel)
  have "nl_closing connection (nl_callback l) (rm_calls (sw_net w))" unfolding w by (rule nl_closing_close)
  with shuts w show ?case
    by (auto simp: nl_inv_def waited_done_def nl_up_def split: option.splits)
next
  case (reports l m)
  with nl_frames(1) [OF reports(2)] report_step_waited [OF reports(2)] show ?case by (auto simp: nl_inv_def)
next
  case (waits l m)
  with nl_frames(2) [OF waits(2)] wait_step_waited [OF waits(2)] show ?case by (auto simp: nl_inv_def)
next
  case (stops l)
  with nl_frames(3) [of l] close_stop_waited [of l] show ?case by (auto simp: nl_inv_def)
next
  case (Start l)
  then show ?case by (auto simp: nl_inv_def waited_done_def nats_server_of_sel server_logger.info_sel)
qed (auto simp: nl_inv_def waited_done_def nl_up_def)

lemma nl_inv_run:
  assumes "(nats_life_step subject connection (nats_server_of routes marshal))\<^sup>*\<^sup>* (new_nats_life w) l"
    and "published (rm_calls (sw_net w)) = []"
  shows "nl_inv connection l"
proof -
  from assms(1) have "nl_inv connection l \<and> waited_done l"
    by (induction rule: rtranclp_induct) (use assms(2) in \<open>auto simp: nl_inv_def waited_done_def dest!: nl_inv_step\<close>)
  then show ?thesis ..
qed


text \<open>
  C26. Every request the NATS server handled was answered once, on its own reply subject, in the order
  handled. When \<open>Shutdown\<close> has closed the connection no request waits to be handled, and at most one more
  answer is tried: that of the callback that was in progress, for which nobody waits.
\<close>

theorem nats_Shutdown_leaves_one_callback:
  assumes "(nats_life_step subject connection (nats_server_of routes marshal))\<^sup>*\<^sup>* (new_nats_life w) l"
    and "published (rm_calls (sw_net w)) = []" and "\<not> nl_crashed l"
  shows "published (rm_calls (sw_net (nl_world l))) = map nm_reply (nl_answered l) \<and>
    (nl_down l \<noteq> NotShut \<longrightarrow> nl_pending l = [] \<and>
      (\<exists>cs late. rm_calls (sw_net (nl_world l)) = cs @ CloseNats connection # late \<and>
        length late \<le> (if nl_callback l = None then 1 else 0)))"
  using nl_inv_run [OF assms(1,2)] assms(3) by (simp add: nl_inv_def nl_closing_def)

text \<open>
  A run in which that happens: the request is taken before the shutdown and answered after the
  connection was closed.
\<close>

definition quiet_nats :: "nat nats_world" where
  "quiet_nats = \<lparr>sw_net = \<lparr>rm_answer = (\<lambda>n. None), rm_calls = [], rm_slept = 0\<rparr>, sw_app = 0, sw_lines = []\<rparr>"

lemma nats_reply_after_close:
  "\<exists>l. (nats_life_step ''rpc'' 0 (nats_server_of nats_routes Inr))\<^sup>*\<^sup>* (new_nats_life quiet_nats) l \<and> \<not> nl_crashed l \<and>
     nl_down l = Shut None \<and> nl_answered l = [(new_msg ''rpc'')\<lparr>nm_reply := ''inbox''\<rparr>] \<and>
     (\<exists>reply. rm_calls (sw_net (nl_world l)) = [Subscribe ''rpc'', Unsubscribe 0, CloseNats 0, PublishMsg reply])"
proof -
  let ?srv = "nats_server_of nats_routes Inr :: (nat, bytes) nats_server" let ?step = "nats_life_step ''rpc'' 0 ?srv"
  let ?msg = "(new_msg ''rpc'')\<lparr>nm_reply := ''inbox''\<rparr>"
  let ?l0 = "new_nats_life quiet_nats"
  let ?w1 = "lg_Info (ns_logger ?srv) ''nats_rpc server - Server - Started'' [] quiet_nats"
  let ?l1 = "?l0\<lparr>main_at := Running, nl_world := ?w1\<rparr>"
  let ?n = "asked (Subscribe ''rpc'') (sw_net quiet_nats)"
  have net: "sw_net ?w1 = sw_net quiet_nats" by (simp add: nats_server_of_sel server_logger.info_sel)
  have sub: "nats_subscribe ''rpc'' (sw_net (nl_world ?l1)) = (Inr 0, ?n)"
    by (simp add: net nats_subscribe_def ask_def Let_def) (simp add: quiet_nats_def next_handle_def)
  let ?l2 = "?l1\<lparr>nl_world := (nl_world ?l1)\<lparr>sw_net := ?n\<rparr>, nl_subscription := Some 0\<rparr>"
  let ?l3 = "?l2\<lparr>nl_pending := nl_pending ?l2 @ [?msg]\<rparr>"
  let ?l4 = "?l3\<lparr>nl_pending := [], nl_callback := Some ?msg\<rparr>"
  let ?l5 = "close_stop ?l4" let ?l6 = "?l5\<lparr>main_at := Finished None\<rparr>" let ?l7 = "?l6\<lparr>wait_result := Some None\<rparr>"
  obtain res w3 where w3: "nats_Shutdown (ns_logger ?srv) (nl_subscription ?l7) 0 None (nl_world ?l7) = (res, w3)"
    by (metis prod.exhaust)
  let ?l8 = "?l7\<lparr>nl_world := w3, nl_pending := [], nl_down := Shut res\<rparr>"
  obtain u w4 where w4: "nats_handleMessage ?srv ?msg w3 = (Ret u, w4)"
    by (simp add: nats_handleMessage_def nats_server_of_sel nats_routes_def)
  let ?l9 = "?l8\<lparr>nl_world := w4, nl_callback := None, nl_answered := nl_answered ?l8 @ [?msg]\<rparr>"
  have up: "nl_up ?l0" "nl_up ?l4" "nl_up ?l5" "\<not> stop_asked ?l4"
    by (simp_all add: nl_up_def new_nats_life_def new_life_of_server_def server_life.defs close_stop_def)
  have "?step ?l0 ?l1" using nats_life_step.Start [of ?l0] by simp
  moreover have "?step ?l1 ?l2" using up sub by (intro nats_life_step.subscribes) (simp_all add: nl_up_def)
  moreover have "?step ?l2 ?l3" using up by (intro nats_life_step.arrives) (simp_all add: nl_up_def)
  moreover have "?step ?l3 ?l4" using up by (intro nats_life_step.begins) (simp_all add: nl_up_def)
  moreover have "?step ?l4 ?l5" using up by (intro nats_life_step.stops)
  moreover have "?step ?l5 ?l6" using up by (intro nats_life_step.told_to_stop) (simp_all add: nl_frames(3))
  moreover have "?step ?l6 ?l7"
    using up by (intro nats_life_step.waits wait_step.wait_ends) (simp_all add: nl_up_def)
  moreover have "?step ?l7 ?l8" using up w3 by (intro nats_life_step.shuts) (simp_all add: nl_up_def close_stop_def)
  moreover have "?step ?l8 ?l9" using up w4 by (intro nats_life_step.handles) (simp_all add: nl_up_def close_stop_def)
  ultimately have "?step\<^sup>*\<^sup>* ?l0 ?l9" by (meson converse_rtranclp_into_rtranclp rtranclp.rtrancl_refl)
  moreover have "rm_answer (sw_net quiet_nats) = (\<lambda>n. None)" "rm_calls (sw_net quiet_nats) = []"
    by (simp_all add: quiet_nats_def)
  then have "res = None" "rm_calls (sw_net w3) = [Subscribe ''rpc'', Unsubscribe 0, CloseNats 0]"
    using w3 nats_Shutdown_calls [of "Some 0" 0 None "nl_world ?l7" res w3]
    by (auto simp: nats_Shutdown_def collect_split unless_cancelled_def ask_def Let_def nl_frames(3)
        nats_server_of_sel errors_join_def)
  moreover obtain reply where "rm_calls (sw_net w4) = rm_calls (sw_net w3) @ [PublishMsg reply]"
    using nats_handleMessage_answers [OF w4] by blast
  ultimately show ?thesis using up by (intro exI [of _ ?l9]) (simp add: nl_frames(3) nl_up_def)
qed


theorem nats_Shutdown_leaves_one_callback_witness:
  "\<exists>l :: nat nats_life. nl_down l = Shut None \<and> published (rm_calls (sw_net (nl_world l))) = [''inbox''] \<and> nl_pending l = []"
proof -
  obtain l where l: "(nats_life_step ''rpc'' 0 (nats_server_of nats_routes Inr))\<^sup>*\<^sup>* (new_nats_life quiet_nats) l"
    "\<not> nl_crashed l" "nl_down l = Shut None" "nl_answered l = [(new_msg ''rpc'')\<lparr>nm_reply := ''inbox''\<rparr>]"
    using nats_reply_after_close by blast
  have "published (rm_calls (sw_net quiet_nats)) = []" by (simp add: quiet_nats_def)
  from nats_Shutdown_leaves_one_callback [OF l(1) this l(2)] l(3,4) show ?thesis by (intro exI [of _ l]) simp
qed

end
