(* ===== verification/Subscriber.thy ===== *)
theory Subscriber
  imports AmqpConnection LogInterface
begin

text \<open>
  The consuming side of the event bus: \<open>Subscribe\<close> of \<open>pkg/eventbus/rabbitmq_subscriber.go\<close> with the
  goroutine that moves deliveries into an unbuffered channel, and the worker of
  \<open>internal/usecase/notification/worker.go\<close> that takes them out.
\<close>

section \<open>Subscribing\<close>

text \<open>\<open>type Event struct\<close> of \<open>subscriber.go\<close>, and what the pump reads of an \<open>amqp.Delivery\<close>.\<close>

record bus_event =
  be_ID :: string
  be_Type :: string
  be_Payload :: bytes

record event_delivery =
  ed_tag :: nat
  ed_message_id :: string
  ed_type :: string
  ed_body :: bytes

definition event_of :: "event_delivery \<Rightarrow> bus_event" where
  "event_of d = \<lparr>be_ID = ed_message_id d, be_Type = ed_type d, be_Payload = ed_body d\<rparr>"

text \<open>The part of \<open>Subscribe\<close> before the goroutine: the number of the \<open>Consume\<close> names its deliveries.\<close>

definition subscribe :: "rabbitmq_subscriber \<Rightarrow> string \<Rightarrow> amqp \<Rightarrow> (goerr + nat) \<times> amqp" where
  "subscribe sub topic s =
     (case ask (QueueBind (rs_channel sub) (rs_queue sub) (topic @ ''.#'') (rs_exchange sub) False) s of
        (Some e, s) \<Rightarrow> (Inl (wrap ''RabbitMQSubscriber - bind queue'' e), s)
      | (None, s) \<Rightarrow>
      let deliveries = next_handle s in
      case ask (Consume (rs_channel sub) (rs_queue sub) '''' False False False False) s of
        (Some e, s) \<Rightarrow> (Inl (wrap ''RabbitMQSubscriber - consume'' e), s)
      | (None, s) \<Rightarrow> (Inr deliveries, s))"

section \<open>The two goroutines\<close>

text \<open>
  The pump is in its \<open>select\<close>, blocked in \<open>events <- Event\<close>, past it and before the \<open>Ack\<close>, or has
  returned and closed \<open>events\<close>. The worker is in its \<open>select\<close>, inside \<open>handleEvent\<close>, or has returned.
\<close>

datatype pump_phase = Selecting | Sending event_delivery | Acking event_delivery | PumpReturned

datatype worker_phase = Looping | Handling bus_event | WorkerReturned

record 'w pump =
  msgs :: "event_delivery list"
  msgs_closed :: bool
  bus_ctx_done :: bool
  pump_at :: pump_phase
  worker_at :: worker_phase
  arrived :: "event_delivery list"
  acks :: "event_delivery list"
  handled :: "bus_event list"
  bus_world :: 'w

definition new_pump :: "'w \<Rightarrow> 'w pump" where
  "new_pump w = \<lparr>msgs = [], msgs_closed = False, bus_ctx_done = False, pump_at = Selecting,
     worker_at = Looping, arrived = [], acks = [], handled = [], bus_world = w\<rparr>"

text \<open>
  \<open>type Subscriber interface\<close> and the RabbitMQ subscriber as one; the worker holds one, with the service
  it does not use yet. With no error of \<open>Start\<close> the two goroutines below run.
\<close>

record subscriber =
  sb_Subscribe :: "string \<Rightarrow> amqp \<Rightarrow> (goerr + nat) \<times> amqp"
  sb_Close :: "amqp \<Rightarrow> goerr option \<times> amqp"

definition as_subscriber :: "rabbitmq_subscriber \<Rightarrow> subscriber" where
  "as_subscriber sub = \<lparr>sb_Subscribe = subscribe sub, sb_Close = subscriber_Close sub\<rparr>"

record ('svc, 'w) notification_worker =
  nw_service :: 'svc
  nw_bus :: subscriber
  nw_log :: "'w logger"

definition NewWorker :: "'svc \<Rightarrow> subscriber \<Rightarrow> 'w logger \<Rightarrow> ('svc, 'w) notification_worker" where
  "NewWorker service bus log = \<lparr>nw_service = service, nw_bus = bus, nw_log = log\<rparr>"

definition worker_Start ::
  "('svc, 'w) notification_worker \<Rightarrow> string \<Rightarrow> 'w \<Rightarrow> amqp \<Rightarrow> (goerr + 'w pump) \<times> amqp" where
  "worker_Start wk topic w s =
     (case sb_Subscribe (nw_bus wk) topic s of
        (Inl e, s) \<Rightarrow> (Inl (wrap ''Worker - Start - w.bus.Subscribe'' e), s)
      | (Inr deliveries, s) \<Rightarrow> (Inr (new_pump w), s))"

text \<open>\<open>handleEvent\<close>: events are logged and nothing else yet.\<close>

definition handleEvent :: "'w logger \<Rightarrow> bus_event \<Rightarrow> 'w \<Rightarrow> 'w" where
  "handleEvent log e w = lg_Info log ''Received event type: %s'' [AnyStr (be_Type e)] w"

inductive pump_step :: "'w logger \<Rightarrow> 'w pump \<Rightarrow> 'w pump \<Rightarrow> bool" for log :: "'w logger" where
  arrive: "\<not> msgs_closed p \<Longrightarrow> pump_step log p (p\<lparr>msgs := msgs p @ [d], arrived := arrived p @ [d]\<rparr>)"
| close_msgs: "pump_step log p (p\<lparr>msgs_closed := True\<rparr>)"
| cancel: "pump_step log p (p\<lparr>bus_ctx_done := True\<rparr>)"
| take_msg: "pump_at p = Selecting \<Longrightarrow> msgs p = d # ds \<Longrightarrow>
     pump_step log p (p\<lparr>msgs := ds, pump_at := Sending d\<rparr>)"
| pump_ctx: "pump_at p = Selecting \<Longrightarrow> bus_ctx_done p \<Longrightarrow> pump_step log p (p\<lparr>pump_at := PumpReturned\<rparr>)"
| pump_closed: "pump_at p = Selecting \<Longrightarrow> msgs p = [] \<Longrightarrow> msgs_closed p \<Longrightarrow>
     pump_step log p (p\<lparr>pump_at := PumpReturned\<rparr>)"
| hand_over: "pump_at p = Sending d \<Longrightarrow> worker_at p = Looping \<Longrightarrow>
     pump_step log p (p\<lparr>pump_at := Acking d, worker_at := Handling (event_of d)\<rparr>)"
| ack: "pump_at p = Acking d \<Longrightarrow> pump_step log p (p\<lparr>pump_at := Selecting, acks := acks p @ [d]\<rparr>)"
| handle: "worker_at p = Handling e \<Longrightarrow>
     pump_step log p (p\<lparr>worker_at := Looping, handled := handled p @ [e],
       bus_world := handleEvent log e (bus_world p)\<rparr>)"
| worker_ctx: "worker_at p = Looping \<Longrightarrow> bus_ctx_done p \<Longrightarrow>
     pump_step log p (p\<lparr>worker_at := WorkerReturned\<rparr>)"
| worker_closed: "worker_at p = Looping \<Longrightarrow> pump_at p = PumpReturned \<Longrightarrow>
     pump_step log p (p\<lparr>worker_at := WorkerReturned\<rparr>)"

inductive pump_run :: "'w logger \<Rightarrow> 'w pump \<Rightarrow> 'w pump \<Rightarrow> bool" for log :: "'w logger" where
  here: "pump_run log p p"
| more: "pump_run log p q \<Longrightarrow> pump_step log q r \<Longrightarrow> pump_run log p r"

inductive_cases pump_stepE: "pump_step log p q"

section \<open>Nothing is lost or reordered in between\<close>

text \<open>What the pump holds, and what the worker holds.\<close>

definition in_pump :: "'w pump \<Rightarrow> event_delivery list" where
  "in_pump p = (case pump_at p of Sending d \<Rightarrow> [d] | _ \<Rightarrow> [])"

definition unacked :: "'w pump \<Rightarrow> event_delivery list" where
  "unacked p = (case pump_at p of Acking d \<Rightarrow> [d] | _ \<Rightarrow> [])"

definition in_worker :: "'w pump \<Rightarrow> bus_event list" where
  "in_worker p = (case worker_at p of Handling e \<Rightarrow> [e] | _ \<Rightarrow> [])"

text \<open>The deliveries that were handed over: those acknowledged and the one about to be.\<close>

definition handed :: "'w pump \<Rightarrow> event_delivery list" where
  "handed p = acks p @ unacked p"

lemmas pump_parts = in_pump_def unacked_def in_worker_def handed_def

definition pump_inv :: "'w pump \<Rightarrow> bool" where
  "pump_inv p \<longleftrightarrow> arrived p = handed p @ in_pump p @ msgs p \<and> map event_of (handed p) = handled p @ in_worker p"

lemma pump_inv_step: "pump_step log p q \<Longrightarrow> pump_inv p \<Longrightarrow> pump_inv q"
  by (induction rule: pump_step.induct)
    (auto simp: pump_inv_def pump_parts split: pump_phase.splits worker_phase.splits)

lemma pump_inv_run: "pump_run log p q \<Longrightarrow> pump_inv p \<Longrightarrow> pump_inv q"
  by (induction rule: pump_run.induct) (auto intro: pump_inv_step)

lemma pump_inv_new [simp]: "pump_inv (new_pump w)"
  by (simp add: pump_inv_def new_pump_def pump_parts)

lemma pump_world_step:
  "pump_step log p q \<Longrightarrow> bus_world p = fold (handleEvent log) (handled p) w \<Longrightarrow>
     bus_world q = fold (handleEvent log) (handled q) w"
  by (induction rule: pump_step.induct) auto

lemma pump_world_run:
  "pump_run log p q \<Longrightarrow> bus_world p = fold (handleEvent log) (handled p) w \<Longrightarrow>
     bus_world q = fold (handleEvent log) (handled q) w"
  by (induction rule: pump_run.induct) (auto intro: pump_world_step)

text \<open>
  C16. The property: in every interleaving the worker handles exactly the events of the deliveries in the
  order they arrived, each once; a delivery is acknowledged only after it was handed over, in the
  same order; and at most one that was acknowledged is not handled yet.
\<close>

theorem events_handled_in_order:
  assumes "pump_run log (new_pump w) p"
  shows "\<exists>rest. map event_of (arrived p) = handled p @ in_worker p @ rest \<and>
    (\<exists>kept. map event_of (acks p) @ kept = handled p @ in_worker p) \<and>
    bus_world p = fold (handleEvent log) (handled p) w"
proof -
  from pump_inv_run [OF assms pump_inv_new] have inv: "pump_inv p" .
  then have "map event_of (arrived p) = handled p @ in_worker p @ map event_of (in_pump p @ msgs p)"
    unfolding pump_inv_def by simp
  moreover from inv have "map event_of (acks p) @ map event_of (unacked p) = handled p @ in_worker p"
    unfolding pump_inv_def handed_def by simp
  moreover have "bus_world p = fold (handleEvent log) (handled p) w"
    by (rule pump_world_run [OF assms]) (simp add: new_pump_def)
  ultimately show ?thesis by blast
qed

text \<open>A delivery that arrives at an idle pump is handled and acknowledged in four steps.\<close>

lemma one_delivery:
  assumes "pump_at p = Selecting" and "msgs p = []" and "\<not> msgs_closed p" and "worker_at p = Looping"
  shows "\<exists>q. pump_run log p q \<and> pump_at q = Selecting \<and> msgs q = [] \<and> worker_at q = Looping \<and>
    acks q = acks p @ [d] \<and> handled q = handled p @ [event_of d] \<and> arrived q = arrived p @ [d]"
proof -
  let ?p1 = "p\<lparr>msgs := msgs p @ [d], arrived := arrived p @ [d]\<rparr>"
  let ?p2 = "?p1\<lparr>msgs := [], pump_at := Sending d\<rparr>"
  let ?p3 = "?p2\<lparr>pump_at := Acking d, worker_at := Handling (event_of d)\<rparr>"
  let ?p4 = "?p3\<lparr>pump_at := Selecting, acks := acks ?p3 @ [d]\<rparr>"
  let ?p5 = "?p4\<lparr>worker_at := Looping, handled := handled ?p4 @ [event_of d],
    bus_world := handleEvent log (event_of d) (bus_world ?p4)\<rparr>"
  have "pump_step log p ?p1" by (rule pump_step.arrive) (use assms in simp)
  moreover have "pump_step log ?p1 ?p2" by (rule pump_step.take_msg) (use assms in simp_all)
  moreover have "pump_step log ?p2 ?p3" by (rule pump_step.hand_over) (use assms in simp_all)
  moreover have "pump_step log ?p3 ?p4" by (rule pump_step.ack) simp
  moreover have "pump_step log ?p4 ?p5" by (rule pump_step.handle) simp
  ultimately have "pump_run log p ?p5" by (meson pump_run.intros)
  then show ?thesis using assms by (intro exI [of _ ?p5]) simp
qed

definition count_logger :: "nat logger" where
  "count_logger = \<lparr>lg_Debug = (\<lambda>a xs w. Suc w), lg_Info = (\<lambda>m xs w. Suc w), lg_Warn = (\<lambda>m xs w. Suc w),
     lg_Error = (\<lambda>a xs w. Suc w), lg_Fatal = (\<lambda>a xs w. Suc w)\<rparr>"

definition sample_event :: event_delivery where
  "sample_event = \<lparr>ed_tag = 1, ed_message_id = ''m-1'', ed_type = ''user.created'', ed_body = ''{}''\<rparr>"

theorem events_handled_in_order_witness:
  "\<exists>p. pump_run count_logger (new_pump 0) p \<and> handled p = [event_of sample_event] \<and> bus_world p = 1"
proof -
  obtain p where p: "pump_run count_logger (new_pump (0 :: nat)) p" "handled p = [event_of sample_event]"
    using one_delivery [of "new_pump 0" count_logger sample_event] by (auto simp: new_pump_def)
  from events_handled_in_order [OF p(1)] p(2) have "bus_world p = 1"
    by (auto simp: handleEvent_def count_logger_def)
  with p show ?thesis by blast
qed

section \<open>Both goroutines come to rest\<close>

text \<open>
  A step of one of the two goroutines, as opposed to the broker or the context: it moves the program
  point of the pump or of the worker. \<open>pump_work\<close> bounds how many of them are left.
\<close>

definition own_step :: "'w logger \<Rightarrow> 'w pump \<Rightarrow> 'w pump \<Rightarrow> bool" where
  "own_step log p q \<longleftrightarrow> pump_step log p q \<and> (pump_at q, worker_at q) \<noteq> (pump_at p, worker_at p)"

fun pump_rank :: "pump_phase \<Rightarrow> nat" where
  "pump_rank (Sending d) = 4"
| "pump_rank (Acking d) = 2"
| "pump_rank Selecting = 1"
| "pump_rank PumpReturned = 0"

fun worker_rank :: "worker_phase \<Rightarrow> nat" where
  "worker_rank (Handling e) = 2"
| "worker_rank Looping = 1"
| "worker_rank WorkerReturned = 0"

definition pump_work :: "'w pump \<Rightarrow> nat" where
  "pump_work p = 4 * length (msgs p) + pump_rank (pump_at p) + worker_rank (worker_at p)"

lemma own_step_work: "own_step log p q \<Longrightarrow> pump_work q < pump_work p"
  unfolding own_step_def by (elim conjE pump_step.cases) (auto simp: pump_work_def)

lemma own_steps_work: "(own_step log ^^ n) p q \<Longrightarrow> n + pump_work q \<le> pump_work p"
proof (induction n arbitrary: q)
  case (Suc n)
  then obtain r where "(own_step log ^^ n) p r" "own_step log r q" by auto
  with Suc.IH [of r] own_step_work [of log r q] show ?case by simp
qed simp

lemma own_step_ctx: "own_step log p q \<Longrightarrow> bus_ctx_done q = bus_ctx_done p"
  unfolding own_step_def by (elim conjE pump_step.cases) auto

lemma own_steps_ctx: "(own_step log ^^ n) p q \<Longrightarrow> bus_ctx_done q = bus_ctx_done p"
  by (induction n arbitrary: q) (auto dest: own_step_ctx)

text \<open>Where a cancelled consumer cannot move any more.\<close>

lemma at_rest:
  assumes "bus_ctx_done p" and "\<And>q. \<not> own_step log p q"
  shows "worker_at p = WorkerReturned" and "pump_at p = PumpReturned \<or> (\<exists>d. pump_at p = Sending d)"
proof -
  have stuck: "pump_at q = pump_at p \<and> worker_at q = worker_at p" if "pump_step log p q" for q
    using assms(2) [of q] that by (auto simp: own_step_def)
  show "worker_at p = WorkerReturned"
    using stuck [OF pump_step.worker_ctx [OF _ assms(1)]] stuck [OF pump_step.handle]
    by (cases "worker_at p") auto
  show "pump_at p = PumpReturned \<or> (\<exists>d. pump_at p = Sending d)"
    using stuck [OF pump_step.pump_ctx [OF _ assms(1)]] stuck [OF pump_step.ack]
    by (cases "pump_at p") auto
qed

text \<open>
  C17. The consumer terminates: without further deliveries its two goroutines take at most
  \<open>pump_work\<close> steps in any order, and once the context is cancelled they stop only when the worker
  has returned and the pump has too, or is left in its send with a delivery in hand.
\<close>

theorem consumer_comes_to_rest:
  assumes "bus_ctx_done p" and "(own_step log ^^ n) p q"
  shows "n \<le> pump_work p \<and>
    ((\<exists>r. own_step log q r) \<or> worker_at q = WorkerReturned \<and> (pump_at q = PumpReturned \<or> (\<exists>d. pump_at q = Sending d)))"
  using at_rest [of q log] own_steps_ctx [OF assms(2)] own_steps_work [OF assms(2)] assms(1) by auto

text \<open>A cancelled consumer with nothing in hand returns in two steps.\<close>

lemma consumer_comes_to_rest_witness:
  "\<exists>q. (own_step count_logger ^^ 2) ((new_pump 0)\<lparr>bus_ctx_done := True\<rparr>) q \<and>
     ((\<exists>r. own_step count_logger q r) \<or> worker_at q = WorkerReturned) \<and>
     2 \<le> pump_work ((new_pump (0 :: nat))\<lparr>bus_ctx_done := True\<rparr>)"
proof -
  let ?p = "(new_pump (0 :: nat))\<lparr>bus_ctx_done := True\<rparr>"
  let ?p1 = "?p\<lparr>pump_at := PumpReturned\<rparr>"
  let ?p2 = "?p1\<lparr>worker_at := WorkerReturned\<rparr>"
  have "pump_step count_logger ?p ?p1" by (rule pump_step.pump_ctx) (simp_all add: new_pump_def)
  moreover have "pump_step count_logger ?p1 ?p2" by (rule pump_step.worker_ctx) (simp_all add: new_pump_def)
  ultimately have "own_step count_logger ?p ?p1" "own_step count_logger ?p1 ?p2"
    by (simp_all add: own_step_def new_pump_def)
  then have two: "(own_step count_logger ^^ 2) ?p ?p2"
    by (auto simp: numeral_2_eq_2)
  from consumer_comes_to_rest [OF _ two] two show ?thesis by auto
qed

section \<open>At the edges\<close>

text \<open>
  Once the worker has returned, a pump that holds a delivery is stuck in \<open>events <- Event\<close>: it does
  not look at the context there. The delivery is never acknowledged and the goroutine never ends.
\<close>

lemma pump_stuck:
  assumes "pump_run log p q" and "pump_at p = Sending d" and "worker_at p = WorkerReturned"
  shows "pump_at q = Sending d \<and> worker_at q = WorkerReturned \<and> acks q = acks p"
  using assms
proof (induction rule: pump_run.induct)
  case (more p q r)
  from more(2) more.IH [OF more(4,5)] show ?case by (cases rule: pump_step.cases) auto
qed simp

text \<open>The acknowledgement may come before the event is handled: a crash in between loses it.\<close>

lemma acked_before_handled:
  "\<exists>p. pump_run log (new_pump w) p \<and> acks p = [d] \<and> handled p = []"
proof -
  let ?p = "new_pump w"
  let ?p1 = "?p\<lparr>msgs := msgs ?p @ [d], arrived := arrived ?p @ [d]\<rparr>"
  let ?p2 = "?p1\<lparr>msgs := [], pump_at := Sending d\<rparr>"
  let ?p3 = "?p2\<lparr>pump_at := Acking d, worker_at := Handling (event_of d)\<rparr>"
  let ?p4 = "?p3\<lparr>pump_at := Selecting, acks := acks ?p3 @ [d]\<rparr>"
  have "pump_step log ?p ?p1" by (rule pump_step.arrive) (simp add: new_pump_def)
  moreover have "pump_step log ?p1 ?p2" by (rule pump_step.take_msg) (simp_all add: new_pump_def)
  moreover have "pump_step log ?p2 ?p3" by (rule pump_step.hand_over) (simp_all add: new_pump_def)
  moreover have "pump_step log ?p3 ?p4" by (rule pump_step.ack) simp
  ultimately have "pump_run log ?p ?p4" by (meson pump_run.intros)
  then show ?thesis by (intro exI [of _ ?p4]) (simp add: new_pump_def)
qed

end
