(* ===== verification/EventFlow.thy ===== *)
theory EventFlow
  imports OutboxSystem Subscriber
begin

text \<open>
  The way of an event through the whole program: stored in the outbox, published by the worker of
  \<open>pkg/eventbus/worker.go\<close>, routed by the broker, taken by the pump of \<open>pkg/eventbus/rabbitmq_subscriber.go\<close>
  and handled by the worker of \<open>internal/usecase/notification/worker.go\<close>. The two halves are those of
  \<open>OutboxSystem\<close> and \<open>Subscriber\<close>; here they run side by side.
\<close>

section \<open>Both halves side by side\<close>

text \<open>
  Between them stands the broker. Its exchange deals with the messages in the order they were
  received; if the queue is bound by then and its binding selects exchange and routing key (the
  parameter \<open>routes\<close>), the message joins the queue, otherwise it is dropped. The head of the queue
  is delivered to the consumer and stays outstanding until its acknowledgement is in; the broker may
  put an outstanding one back, as it does when it takes the consumer for dead, and another consumer
  of the queue may take one away.
\<close>

record broker =
  bk_bound :: bool
  bk_routed :: nat
  bk_ready :: "publishing list"
  bk_outstanding :: "(event_delivery \<times> publishing) list"

definition empty_broker :: "bool \<Rightarrow> broker" where
  "empty_broker b = \<lparr>bk_bound = b, bk_routed = 0, bk_ready = [], bk_outstanding = []\<rparr>"

type_synonym 'w event_flow = "outbox_system \<times> broker \<times> 'w pump"

text \<open>Delivery tags count from 1 on a channel.\<close>

definition delivery_of :: "nat \<Rightarrow> publishing \<Rightarrow> event_delivery" where
  "delivery_of n m = \<lparr>ed_tag = Suc n, ed_message_id = p_message_id m, ed_type = p_type m, ed_body = p_body m\<rparr>"

abbreviation next_delivery :: "'w pump \<Rightarrow> publishing \<Rightarrow> event_delivery" where
  "next_delivery p m \<equiv> delivery_of (length (arrived p)) m"

definition selected :: "(string \<Rightarrow> string \<Rightarrow> bool) \<Rightarrow> publishing \<Rightarrow> bool" where
  "selected routes m \<longleftrightarrow> routes (p_exchange m) (p_routing_key m)"

definition route :: "(string \<Rightarrow> string \<Rightarrow> bool) \<Rightarrow> publishing \<Rightarrow> broker \<Rightarrow> broker" where
  "route routes m k = k\<lparr>bk_routed := Suc (bk_routed k),
     bk_ready := (if bk_bound k \<and> selected routes m then bk_ready k @ [m] else bk_ready k)\<rparr>"

inductive flow_step ::
  "outbox_system worker \<Rightarrow> 'w logger \<Rightarrow> (string \<Rightarrow> string \<Rightarrow> bool) \<Rightarrow> 'w event_flow \<Rightarrow> 'w event_flow \<Rightarrow> bool"
  for wk :: "outbox_system worker" and log :: "'w logger" and routes :: "string \<Rightarrow> string \<Rightarrow> bool" where
  flow_store: "or_Store (outboxRepo wk) es s = (r, s') \<Longrightarrow> flow_step wk log routes (s, k, p) (s', k, p)"
| flow_tick: "worker_tick wk s = (r, s') \<Longrightarrow> flow_step wk log routes (s, k, p) (s', k, p)"
| flow_bind: "flow_step wk log routes (s, k, p) (s, k\<lparr>bk_bound := True\<rparr>, p)"
| flow_route: "bk_routed k < length (received s) \<Longrightarrow>
    flow_step wk log routes (s, k, p) (s, route routes (received s ! bk_routed k) k, p)"
| flow_deliver: "bk_ready k = m # ms \<Longrightarrow> \<not> msgs_closed p \<Longrightarrow>
    flow_step wk log routes (s, k, p)
      (s, k\<lparr>bk_ready := ms, bk_outstanding := bk_outstanding k @ [(next_delivery p m, m)]\<rparr>,
       p\<lparr>msgs := msgs p @ [next_delivery p m], arrived := arrived p @ [next_delivery p m]\<rparr>)"
| flow_acked: "d \<in> set (acks p) \<Longrightarrow>
    flow_step wk log routes (s, k, p)
      (s, k\<lparr>bk_outstanding := filter (\<lambda>x. fst x \<noteq> d) (bk_outstanding k)\<rparr>, p)"
| flow_requeue: "bk_outstanding k = xs @ (d, m) # ys \<Longrightarrow>
    flow_step wk log routes (s, k, p) (s, k\<lparr>bk_outstanding := xs @ ys, bk_ready := m # bk_ready k\<rparr>, p)"
| flow_elsewhere: "bk_ready k = xs @ m # ys \<Longrightarrow> flow_step wk log routes (s, k, p) (s, k\<lparr>bk_ready := xs @ ys\<rparr>, p)"
| flow_consume: "pump_step log p q \<Longrightarrow> arrived q = arrived p \<Longrightarrow> flow_step wk log routes (s, k, p) (s, k, q)"

abbreviation flow_run ::
  "outbox_system worker \<Rightarrow> 'w logger \<Rightarrow> (string \<Rightarrow> string \<Rightarrow> bool) \<Rightarrow> 'w event_flow \<Rightarrow> 'w event_flow \<Rightarrow> bool" where
  "flow_run wk log routes \<equiv> (flow_step wk log routes)\<^sup>*\<^sup>*"

lemma flow_run_induct [consumes 1, case_names refl step]:
  assumes "flow_run wk log routes (s, k, p) (t, l, q)" and "P s k p"
    and "\<And>t l q t' l' q'. flow_run wk log routes (s, k, p) (t, l, q) \<Longrightarrow>
      flow_step wk log routes (t, l, q) (t', l', q') \<Longrightarrow> P t l q \<Longrightarrow> P t' l' q'"
  shows "P t l q"
proof -
  have "case y of (t, l, q) \<Rightarrow> P t l q" if "flow_run wk log routes (s, k, p) y" for y
    using that
  proof (induction rule: rtranclp_induct)
    case (step y z)
    then show ?case using assms(3) by (cases y; cases z) auto
  qed (simp add: assms(2))
  from this [OF assms(1)] show ?thesis by simp
qed

text \<open>A run of all three is a run of each half.\<close>

lemma flow_outbox:
  "flow_run wk log routes (s, k, p) (t, l, q) \<Longrightarrow> outbox_run wk s t"
proof (induction rule: flow_run_induct)
  case (step t l q t' l' q')
  from step(2,3) show ?case
    by (cases rule: flow_step.cases) (auto intro: outbox_run.intros)
qed (rule outbox_run.start)

lemma flow_pump:
  "flow_run wk log routes (s, k, p) (t, l, q) \<Longrightarrow> pump_run log p q"
proof (induction rule: flow_run_induct)
  case (step t l q t' l' q')
  from step(2,3) show ?case
    by (cases rule: flow_step.cases) (auto intro: pump_run.more pump_step.arrive)
qed (rule pump_run.here)

section \<open>Nothing is made up on the way\<close>

text \<open>The messages of what arrived, and those the broker holds.\<close>

definition arrived_messages :: "'w pump \<Rightarrow> (string \<times> string \<times> bytes) list" where
  "arrived_messages p = map (\<lambda>d. (ed_message_id d, ed_type d, ed_body d)) (arrived p)"

definition broker_holds :: "broker \<Rightarrow> publishing set" where
  "broker_holds k = set (bk_ready k) \<union> snd ` set (bk_outstanding k)"

lemma delivery_key [simp]:
  "(ed_message_id (delivery_of n m), ed_type (delivery_of n m), ed_body (delivery_of n m)) = message_key m"
  by (simp add: delivery_of_def message_key_def)

text \<open>
  The list of the received messages only grows, and exchange, queue and consumer have nothing that is
  not in it. The type of a received message is its routing key, and its exchange the publisher's.
\<close>

definition addressed :: "string \<Rightarrow> publishing \<Rightarrow> bool" where
  "addressed exchange m \<longleftrightarrow> p_exchange m = exchange \<and> p_routing_key m = p_type m"

definition grown :: "string \<Rightarrow> outbox_system \<Rightarrow> outbox_system \<Rightarrow> bool" where
  "grown exchange s t \<longleftrightarrow> (\<exists>ms. received t = received s @ ms \<and> list_all (addressed exchange) ms)"

lemma grown_refl [simp]: "grown exchange s s"
  by (simp add: grown_def)

lemma grown_trans: "grown exchange s t \<Longrightarrow> grown exchange t u \<Longrightarrow> grown exchange s u"
  by (auto simp: grown_def)

lemma grown_frame [simp]:
  "grown exchange s (advance t) = grown exchange s t" "grown exchange s (t\<lparr>outbox := rs\<rparr>) = grown exchange s t"
  by (simp_all add: grown_def)

lemma grown_log:
  "s1\<lparr>log_lines := []\<rparr> = s2\<lparr>log_lines := []\<rparr> \<Longrightarrow> grown exchange s s1 \<Longrightarrow> grown exchange s s2"
  by (drule log_lines_fields) (simp add: grown_def)

lemma Publish_grown: "grown exchange s t \<Longrightarrow> grown exchange s (snd (rabbitmq_Publish exchange txt e t))"
  using rabbitmq_Publish_lists(2) [OF prod.collapse [symmetric], of exchange "txt" e t]
  by (auto simp: grown_def addressed_def rabbitmq_message_def)

lemma tick_grown:
  assumes "wk = outbox_worker_of exchange txt opts" and "outbox_okay s"
  shows "grown exchange s (snd (worker_tick wk s))"
  by (rule system_tick_invariant [OF assms, where P = "grown exchange s"])
    (auto intro: grown_log Publish_grown)

lemma run_grown:
  assumes "wk = outbox_worker_of exchange txt opts" and "outbox_run wk s t" and "outbox_okay s"
  shows "grown exchange s t \<and> outbox_okay t"
  using assms(2,3)
proof (induction rule: outbox_run.induct)
  case (store s t es r u)
  then have "received u = received t"
    using Store_channel(2) [of es t] by (simp add: assms(1) outbox_worker_of_def pg_outbox_repo_def)
  with store have "grown exchange s u" by (simp add: grown_def)
  moreover have "outbox_okay u"
    using system_worker.store_okay [of t exchange "txt" opts es] store assms(1) by simp
  ultimately show ?case by simp
next
  case (tick s t r u)
  with tick_grown [OF assms(1), of t] system_worker.worker_tick_okay [of t exchange "txt" opts] assms(1)
  show ?case by (auto intro: grown_trans)
qed simp

lemma grown_set: "grown exchange s t \<Longrightarrow> set (received s) \<subseteq> set (received t)"
  by (auto simp: grown_def)

text \<open>The broker's books: what it holds was received, and it did not route more than that.\<close>

definition broker_inv :: "outbox_system \<Rightarrow> broker \<Rightarrow> 'w pump \<Rightarrow> bool" where
  "broker_inv s k p \<longleftrightarrow> broker_holds k \<subseteq> set (received s) \<and> bk_routed k \<le> length (received s) \<and>
     set (arrived_messages p) \<subseteq> set (received_messages s)"

lemma broker_inv_grown:
  assumes "broker_inv s k p" and "grown exchange s t"
  shows "broker_inv t k p"
proof -
  from assms(2) obtain ms where "received t = received s @ ms" by (auto simp: grown_def)
  with assms(1) show ?thesis by (auto simp: broker_inv_def received_messages_def)
qed

lemma flow_broker_inv:
  assumes "wk = outbox_worker_of exchange txt opts" and "outbox_okay s"
    and "flow_run wk log routes (s, k, p) (t, l, q)" and "broker_inv s k p"
  shows "broker_inv t l q"
  using assms(3,4)
proof (induction rule: flow_run_induct)
  case (step t l q t' l' q')
  have ok: "outbox_okay t"
    using run_grown [OF assms(1) flow_outbox [OF step(1)] assms(2)] by simp
  from step(3,4) have inv: "broker_inv t l q" by blast
  have grow: "grown exchange t t'" if "outbox_run wk t t'"
    using run_grown [OF assms(1) that ok] by simp
  from step(2) show ?case
  proof (cases rule: flow_step.cases)
    case (flow_store es r)
    then have "outbox_run wk t t'" by (blast intro: outbox_run.intros)
    from broker_inv_grown [OF inv grow [OF this]] flow_store show ?thesis by simp
  next
    case (flow_tick r)
    then have "outbox_run wk t t'" by (blast intro: outbox_run.intros)
    from broker_inv_grown [OF inv grow [OF this]] flow_tick show ?thesis by simp
  next
    case flow_route
    with inv show ?thesis by (auto simp: broker_inv_def broker_holds_def route_def)
  next
    case (flow_deliver m ms)
    with inv show ?thesis
      by (auto simp: broker_inv_def broker_holds_def arrived_messages_def received_messages_def)
  qed (use inv in \<open>auto simp: broker_inv_def broker_holds_def arrived_messages_def\<close>)
qed

section \<open>Everything can get through\<close>

text \<open>The consuming side runs, and is idle when it waits for the next delivery.\<close>

definition consuming :: "'w pump \<Rightarrow> bool" where
  "consuming p \<longleftrightarrow> \<not> msgs_closed p \<and> pump_at p \<noteq> PumpReturned \<and> worker_at p \<noteq> WorkerReturned"

definition idle :: "'w pump \<Rightarrow> bool" where
  "idle p \<longleftrightarrow> \<not> msgs_closed p \<and> pump_at p = Selecting \<and> msgs p = [] \<and> worker_at p = Looping"

text \<open>The worker finishes the event in hand, and the pump the delivery in hand.\<close>

lemma worker_finishes:
  assumes "worker_at p \<noteq> WorkerReturned"
  shows "\<exists>q. flow_run wk log routes (s, k, p) (s, k, q) \<and> worker_at q = Looping \<and> pump_at q = pump_at p \<and>
    msgs q = msgs p \<and> msgs_closed q = msgs_closed p \<and> set (handled p) \<subseteq> set (handled q)"
proof (cases "worker_at p")
  case (Handling e)
  let ?q = "p\<lparr>worker_at := Looping, handled := handled p @ [e],
    bus_world := handleEvent log e (bus_world p)\<rparr>"
  have "flow_step wk log routes (s, k, p) (s, k, ?q)"
    by (rule flow_consume [OF pump_step.handle]) (use Handling in auto)
  then show ?thesis by (intro exI [of _ ?q]) auto
qed (use assms in auto)

lemma pump_finishes:
  assumes "consuming p"
  shows "\<exists>q. flow_run wk log routes (s, k, p) (s, k, q) \<and> worker_at q = Looping \<and> pump_at q = Selecting \<and>
    msgs q = msgs p \<and> msgs_closed q = msgs_closed p \<and> set (handled p) \<subseteq> set (handled q) \<and>
    (\<forall>d. pump_at p = Sending d \<longrightarrow> event_of d \<in> set (handled q))"
proof -
  obtain p1 where p1: "flow_run wk log routes (s, k, p) (s, k, p1)" "worker_at p1 = Looping" "pump_at p1 = pump_at p"
      "msgs p1 = msgs p" "msgs_closed p1 = msgs_closed p" "set (handled p) \<subseteq> set (handled p1)"
    using worker_finishes assms unfolding consuming_def by blast
  show ?thesis
  proof (cases "pump_at p")
    case (Sending d)
    let ?p2 = "p1\<lparr>pump_at := Acking d, worker_at := Handling (event_of d)\<rparr>"
    let ?p3 = "?p2\<lparr>pump_at := Selecting, acks := acks ?p2 @ [d]\<rparr>"
    let ?p4 = "?p3\<lparr>worker_at := Looping, handled := handled ?p3 @ [event_of d],
      bus_world := handleEvent log (event_of d) (bus_world ?p3)\<rparr>"
    have "flow_step wk log routes (s, k, p1) (s, k, ?p2)"
      by (rule flow_consume [OF pump_step.hand_over]) (use p1 Sending in auto)
    moreover have "flow_step wk log routes (s, k, ?p2) (s, k, ?p3)"
      by (rule flow_consume [OF pump_step.ack]) auto
    moreover have "flow_step wk log routes (s, k, ?p3) (s, k, ?p4)"
      by (rule flow_consume [OF pump_step.handle]) auto
    ultimately have "flow_run wk log routes (s, k, p) (s, k, ?p4)"
      using p1(1) by (meson rtranclp.rtrancl_into_rtrancl)
    then show ?thesis
      using p1 Sending by (intro exI [of _ ?p4]) auto
  next
    case (Acking d)
    let ?p2 = "p1\<lparr>pump_at := Selecting, acks := acks p1 @ [d]\<rparr>"
    have "flow_step wk log routes (s, k, p1) (s, k, ?p2)"
      by (rule flow_consume [OF pump_step.ack]) (use p1 Acking in auto)
    with p1(1) have "flow_run wk log routes (s, k, p) (s, k, ?p2)"
      by (rule rtranclp.rtrancl_into_rtrancl)
    then show ?thesis
      using p1 Acking by (intro exI [of _ ?p2]) auto
  qed (use p1 assms in \<open>auto simp: consuming_def\<close>)
qed

lemma take_one:
  assumes "consuming p" and "pump_at p = Selecting" and "msgs p = d # ds"
  shows "\<exists>q. flow_run wk log routes (s, k, p) (s, k, q) \<and> consuming q \<and> pump_at q = Selecting \<and>
    worker_at q = Looping \<and> msgs q = ds \<and> set (handled p) \<subseteq> set (handled q) \<and> event_of d \<in> set (handled q)"
proof -
  let ?p1 = "p\<lparr>msgs := ds, pump_at := Sending d\<rparr>"
  have "flow_step wk log routes (s, k, p) (s, k, ?p1)"
    by (rule flow_consume [OF pump_step.take_msg]) (use assms in auto)
  moreover obtain q where "flow_run wk log routes (s, k, ?p1) (s, k, q)" "worker_at q = Looping" "pump_at q = Selecting"
      "msgs q = ds" "msgs_closed q = msgs_closed p" "set (handled p) \<subseteq> set (handled q)" "event_of d \<in> set (handled q)"
    using pump_finishes [of ?p1 wk log routes s k] assms(1) by (auto simp: consuming_def)
  ultimately show ?thesis
    using assms(1) by (intro exI [of _ q]) (auto simp: consuming_def intro: converse_rtranclp_into_rtranclp)
qed

lemma settles:
  assumes "consuming p"
  shows "\<exists>q. flow_run wk log routes (s, k, p) (s, k, q) \<and> idle q \<and> set (handled p) \<subseteq> set (handled q)"
proof -
  have drain: "\<exists>q. flow_run wk log routes (s, k, p) (s, k, q) \<and> idle q \<and> set (handled p) \<subseteq> set (handled q)"
    if "consuming p" "pump_at p = Selecting" "worker_at p = Looping" for p
    using that
  proof (induction "msgs p" arbitrary: p)
    case Nil
    then show ?case by (intro exI [of _ p]) (auto simp: idle_def consuming_def)
  next
    case (Cons d ds)
    obtain q where q: "flow_run wk log routes (s, k, p) (s, k, q)" "consuming q" "pump_at q = Selecting"
        "worker_at q = Looping" "ds = msgs q" "set (handled p) \<subseteq> set (handled q)"
      using take_one [OF Cons.prems(1,2) Cons.hyps(2) [symmetric], of wk log routes s k] by blast
    from Cons.hyps(1) [OF q(5,2,3,4)] q(1,6) show ?case
      by (meson rtranclp_trans subset_trans)
  qed
  obtain q where q: "flow_run wk log routes (s, k, p) (s, k, q)" "worker_at q = Looping" "pump_at q = Selecting"
      "msgs_closed q = msgs_closed p" "set (handled p) \<subseteq> set (handled q)"
    using pump_finishes [OF assms, of wk log routes s k] by blast
  with assms have "consuming q" by (simp add: consuming_def)
  from drain [OF this q(3,2)] q(1,5) show ?thesis
    by (meson rtranclp_trans subset_trans)
qed

text \<open>An idle consumer handles the head of the queue, and so the whole queue.\<close>

definition event_of_message :: "publishing \<Rightarrow> bus_event" where
  "event_of_message m = \<lparr>be_ID = p_message_id m, be_Type = p_type m, be_Payload = p_body m\<rparr>"

lemma event_of_delivery [simp]: "event_of (delivery_of n m) = event_of_message m"
  by (simp add: event_of_def delivery_of_def event_of_message_def)

lemma handles_head:
  assumes "idle p" and "bk_ready k = m # ms"
  shows "\<exists>l q. flow_run wk log routes (s, k, p) (s, l, q) \<and> idle q \<and> bk_ready l = ms \<and>
    set (handled p) \<subseteq> set (handled q) \<and> event_of_message m \<in> set (handled q)"
proof -
  let ?d = "next_delivery p m"
  let ?p1 = "p\<lparr>msgs := msgs p @ [?d], arrived := arrived p @ [?d]\<rparr>"
  let ?l = "k\<lparr>bk_ready := ms, bk_outstanding := bk_outstanding k @ [(?d, m)]\<rparr>"
  have "flow_step wk log routes (s, k, p) (s, ?l, ?p1)"
    by (rule flow_deliver) (use assms in \<open>auto simp: idle_def\<close>)
  moreover obtain q where q: "flow_run wk log routes (s, ?l, ?p1) (s, ?l, q)" "consuming q" "pump_at q = Selecting"
      "worker_at q = Looping" "msgs q = []" "set (handled ?p1) \<subseteq> set (handled q)" "event_of ?d \<in> set (handled q)"
    using take_one [of ?p1 ?d "[]" wk log routes s ?l] assms(1)
    by (auto simp: idle_def consuming_def)
  ultimately show ?thesis
    by (intro exI [of _ ?l] exI [of _ q]) (auto simp: idle_def consuming_def intro: converse_rtranclp_into_rtranclp)
qed

lemma handles_ready:
  assumes "idle p"
  shows "\<exists>l q. flow_run wk log routes (s, k, p) (s, l, q) \<and> set (handled p) \<subseteq> set (handled q) \<and>
    (\<forall>m \<in> set (bk_ready k). event_of_message m \<in> set (handled q))"
  using assms
proof (induction "bk_ready k" arbitrary: k p)
  case (Cons m ms)
  obtain l q where one: "flow_run wk log routes (s, k, p) (s, l, q)" "idle q" "ms = bk_ready l"
      "set (handled p) \<subseteq> set (handled q)" "event_of_message m \<in> set (handled q)"
    using handles_head [OF Cons.prems Cons.hyps(2) [symmetric]] by blast
  obtain l' q' where rest: "flow_run wk log routes (s, l, q) (s, l', q')" "set (handled q) \<subseteq> set (handled q')"
      "\<forall>m \<in> set (bk_ready l). event_of_message m \<in> set (handled q')"
    using Cons.hyps(1) [OF one(3,2)] by blast
  have "flow_run wk log routes (s, k, p) (s, l', q')"
    using one(1) rest(1) by (rule rtranclp_trans)
  then show ?case
    using one(3-5) rest(2,3) by (intro exI [of _ l'] exI [of _ q']) (auto simp flip: Cons.hyps(2))
qed auto

text \<open>A bound exchange routes everything it has received to the queue.\<close>

lemma routes_all:
  assumes "bk_bound k"
  shows "\<exists>l. flow_run wk log routes (s, k, p) (s, l, p) \<and> set (bk_ready k) \<subseteq> set (bk_ready l) \<and>
    (\<forall>m \<in> set (drop (bk_routed k) (received s)). selected routes m \<longrightarrow> m \<in> set (bk_ready l))"
  using assms
proof (induction "length (received s) - bk_routed k" arbitrary: k)
  case 0
  then show ?case by (intro exI [of _ k]) simp
next
  case (Suc n)
  let ?m = "received s ! bk_routed k"
  let ?k = "route routes ?m k"
  from Suc.hyps(2) have less: "bk_routed k < length (received s)" by simp
  then have step: "flow_step wk log routes (s, k, p) (s, ?k, p)" by (rule flow_route)
  have "n = length (received s) - bk_routed ?k" "bk_bound ?k"
    using Suc.hyps(2) Suc.prems by (simp_all add: route_def)
  then obtain l where l: "flow_run wk log routes (s, ?k, p) (s, l, p)" "set (bk_ready ?k) \<subseteq> set (bk_ready l)"
      "\<forall>m \<in> set (drop (bk_routed ?k) (received s)). selected routes m \<longrightarrow> m \<in> set (bk_ready l)"
    using Suc.hyps(1) by blast
  have "drop (bk_routed k) (received s) = ?m # drop (bk_routed ?k) (received s)"
    using less by (simp add: route_def Cons_nth_drop_Suc)
  moreover have "set (bk_ready k) \<subseteq> set (bk_ready ?k)" "selected routes ?m \<longrightarrow> ?m \<in> set (bk_ready ?k)"
    using Suc.prems by (auto simp: route_def)
  ultimately show ?case
    using l converse_rtranclp_into_rtranclp [OF step l(1)] by (intro exI [of _ l]) auto
qed

text \<open>The worker of the outbox ticks while broker and consumer stand still.\<close>

lemma flow_ticks: "flow_run wk log routes (s, k, p) (ticks wk n s, k, p)"
proof (induction n arbitrary: s)
  case (Suc n)
  have "flow_step wk log routes (s, k, p) (snd (worker_tick wk s), k, p)"
    by (rule flow_tick) (rule prod.collapse [symmetric])
  with Suc.IH show ?case by (auto intro: converse_rtranclp_into_rtranclp)
qed simp

text \<open>Enough ticks empty a healthy outbox: a batch is never empty-handed.\<close>

lemma enough_ticks:
  assumes "wk = outbox_worker_of exchange txt opts" and "outbox_okay s" and "system_well (batchSize wk) s"
    and "eligible (maxRetries wk) (unpublished (outbox s)) = unpublished (outbox s)"
  shows "mset (sent_messages (ticks wk (length (unpublished (outbox s))) s)) =
    mset (sent_messages s) + image_mset (event_message txt) (mset (unpublished (outbox s)))"
proof -
  have "1 \<le> nat (safe_limit (batchSize wk))" by (auto simp: safe_limit_def)
  then have "length (unpublished (outbox s)) \<le> length (unpublished (outbox s)) * nat (safe_limit (batchSize wk))"
    by (metis mult.right_neutral mult_le_mono2)
  with healthy_system.drained(2) [of s exchange "txt" opts "length (unpublished (outbox s))"] assms
  show ?thesis by simp
qed

text \<open>When the channel reports no error and loses nothing, the broker receives what is handed over.\<close>

definition in_step :: "publishing list \<Rightarrow> publishing list \<Rightarrow> outbox_system \<Rightarrow> bool" where
  "in_step hs rs w \<longleftrightarrow> (\<forall>n. arrives w n) \<and> publish_answer w = (\<lambda>_. None) \<and>
     (\<exists>ms. handed_over w = hs @ ms \<and> received w = rs @ ms)"

lemma in_step_frame [simp]:
  "in_step hs rs (advance w) = in_step hs rs w" "in_step hs rs (w\<lparr>outbox := es\<rparr>) = in_step hs rs w"
  by (simp_all add: in_step_def)

lemma in_step_Publish:
  "in_step hs rs w \<Longrightarrow> in_step hs rs (snd (rabbitmq_Publish exchange txt e w))"
  by (auto simp: in_step_def rabbitmq_Publish_def Let_def)

lemma ticks_in_step:
  assumes "wk = outbox_worker_of exchange txt opts" and "outbox_okay s" and "in_step hs rs s"
  shows "in_step hs rs (ticks wk n s)"
  using assms(2,3)
proof (induction n arbitrary: s)
  case (Suc n)
  have "in_step hs rs (snd (worker_tick wk s))"
  proof (rule system_tick_invariant [OF assms(1) Suc.prems(1), where P = "in_step hs rs"])
    show "in_step hs rs s2" if "s1\<lparr>log_lines := []\<rparr> = s2\<lparr>log_lines := []\<rparr>" "in_step hs rs s1" for s1 s2
      using that(2) log_lines_fields [OF that(1)] by (simp add: in_step_def)
  qed (use Suc.prems in \<open>simp_all add: in_step_Publish\<close>)
  moreover have "outbox_okay (snd (worker_tick wk s))"
    using system_worker.worker_tick_okay [OF Suc.prems(1)] by (simp add: assms(1))
  ultimately show ?case using Suc.IH by simp
qed simp

text \<open>So every unpublished row is among the messages the broker has received and not yet routed.\<close>

lemma drained_to_broker:
  assumes "wk = outbox_worker_of exchange txt opts" and "outbox_okay t" and "system_well (batchSize wk) t"
    and "\<forall>n. arrives t n" and "eligible (maxRetries wk) (unpublished (outbox t)) = unpublished (outbox t)"
    and "r \<in> set (unpublished (outbox t))" and "routed \<le> length (received t)"
  defines "u \<equiv> ticks wk (length (unpublished (outbox t))) t"
  shows "\<exists>m \<in> set (drop routed (received u)). addressed exchange m \<and> message_key m = event_message txt r"
proof -
  have "in_step (handed_over t) (received t) t"
    using assms(3,4) by (simp add: in_step_def system_well_def)
  from ticks_in_step [OF assms(1,2) this] obtain ms where
    ms: "handed_over u = handed_over t @ ms" "received u = received t @ ms"
    unfolding u_def in_step_def by blast
  have "outbox_run wk s (ticks wk n s)" for n s
  proof (induction n arbitrary: s)
    case (Suc n)
    have "outbox_run wk s (snd (worker_tick wk s))"
      by (rule outbox_run.tick [OF outbox_run.start prod.collapse [symmetric]])
    from outbox_run_trans [OF Suc.IH this] show ?case by simp
  qed (simp add: outbox_run.start)
  then have "grown exchange t u"
    using run_grown [OF assms(1) _ assms(2)] unfolding u_def by blast
  with ms(2) have "list_all (addressed exchange) ms" by (auto simp: grown_def)
  moreover have "mset (map message_key ms) = image_mset (event_message txt) (mset (unpublished (outbox t)))"
    using enough_ticks [OF assms(1,2,3,5)] ms(1) by (simp add: sent_messages_def flip: u_def)
  then have "event_message txt r \<in> set (map message_key ms)"
    using assms(6) by (metis image_eqI set_image_mset set_mset_mset)
  ultimately show ?thesis
    using ms(2) assms(7) by (auto simp: list_all_iff)
qed

section \<open>Properties\<close>

text \<open>The sample system on one side, a counting logger on the other, and a binding to one exchange.\<close>

definition sample_routes :: "string \<Rightarrow> string \<Rightarrow> bool" where
  "sample_routes exchange key \<longleftrightarrow> exchange = ''events'' \<and> take 4 key = ''user''"

abbreviation sample_flow :: "nat event_flow \<Rightarrow> nat event_flow \<Rightarrow> bool" where
  "sample_flow \<equiv> flow_run (outbox_worker_of ''events'' sample_text []) count_logger sample_routes"

lemma idle_new [simp]: "idle (new_pump w)" "consuming (new_pump w)"
  by (simp_all add: idle_def consuming_def new_pump_def)

lemma sample_flow_stored: "sample_flow (sample_system, k, p) (stored_system, k, p)"
  using sample_store
  by (intro r_into_rtranclp flow_store [where es = "[OutboxRepo.sample_event 1 30]" and r = None])
    (simp add: pg_outbox_repo_def stored_system_def)

lemma sample_flow_ticked: "sample_flow (sample_system, k, p) (ticked_system, k, p)"
proof -
  have "flow_step (outbox_worker_of ''events'' sample_text []) count_logger sample_routes
      (stored_system, k, p) (ticked_system, k, p)"
    by (rule flow_tick [where r = "fst (worker_tick (outbox_worker_of ''events'' sample_text []) stored_system)"])
      (simp add: ticked_system_def)
  with sample_flow_stored show ?thesis by (rule rtranclp.rtrancl_into_rtrancl)
qed

definition sample_bus_event :: bus_event where
  "sample_bus_event = \<lparr>be_ID = ''x'', be_Type = ''user.created'', be_Payload = ''{}''\<rparr>"

lemma sample_flow_handled:
  "\<exists>k p. sample_flow (sample_system, empty_broker True, new_pump 0) (ticked_system, k, p) \<and>
     sample_bus_event \<in> set (handled p)"
proof -
  let ?m = "rabbitmq_message ''events'' sample_text 1002500 (OutboxRepo.sample_event 1 30)"
  have m: "?m \<in> set (drop (bk_routed (empty_broker True)) (received ticked_system))" "selected sample_routes ?m"
    "event_of_message ?m = sample_bus_event" "bk_bound (empty_broker True)"
    by (simp_all add: ticked_system_eq rabbitmq_message_def sample_routes_def selected_def event_of_message_def
        sample_bus_event_def sample_text_def OutboxRepo.sample_event_def new_outbox_event_def new_base_def
        empty_broker_def)
  obtain k where k: "sample_flow (ticked_system, empty_broker True, new_pump 0) (ticked_system, k, new_pump 0)"
      "?m \<in> set (bk_ready k)"
    using routes_all [OF m(4)] m(1,2) by blast
  obtain l q where "sample_flow (ticked_system, k, new_pump 0) (ticked_system, l, q)" "sample_bus_event \<in> set (handled q)"
    using handles_ready [OF idle_new(1), of "outbox_worker_of ''events'' sample_text []" count_logger sample_routes
        ticked_system k 0] k(2) m(3) by metis
  with sample_flow_ticked k(1) show ?thesis by (meson rtranclp_trans)
qed

text \<open>
  C3. No event is made up: in every run of outbox, broker and consumer from an empty outbox and an
  empty broker, with every failure of the database and the channel, with lost, repeated and requeued
  messages and other consumers of the queue, an event that was handled has the identifier, type and
  payload of a row of the outbox.
\<close>

theorem handled_event_was_stored:
  assumes "wk = outbox_worker_of exchange txt opts"
    and "outbox s = []" and "received s = []" and "scan_ok (scan_outbox s)"
    and "flow_run wk log routes (s, empty_broker b, new_pump w) (t, k, p)" and "e \<in> set (handled p)"
  shows "\<exists>r. r \<in> set (outbox t) \<and> txt (oe_id r) = be_ID e \<and> oe_event_type r = be_Type e \<and>
    oe_payload r = be_Payload e"
proof -
  have ok: "outbox_okay s" using assms(2,4) by (simp add: outbox_okay_def)
  have "pump_inv p"
    using pump_inv_run [OF flow_pump [OF assms(5)]] by simp
  then have "set (handled p) \<subseteq> event_of ` set (handed p)" "set (handed p) \<subseteq> set (arrived p)"
    by (auto simp: pump_inv_def simp flip: set_map)
  with assms(6) obtain d where d: "d \<in> set (arrived p)" "e = event_of d" by blast
  have "broker_inv s (empty_broker b) (new_pump w)"
    by (simp add: broker_inv_def broker_holds_def empty_broker_def arrived_messages_def new_pump_def)
  from flow_broker_inv [OF assms(1) ok assms(5) this]
  have "set (arrived_messages p) \<subseteq> set (received_messages t)" by (simp add: broker_inv_def)
  moreover have "set (received_messages t) \<subseteq> event_message txt ` set (outbox t)"
    by (rule run_received_rows [OF assms(1) flow_outbox [OF assms(5)] ok])
      (simp add: received_messages_def assms(3))
  ultimately have "(ed_message_id d, ed_type d, ed_body d) \<in> event_message txt ` set (outbox t)"
    using d(1) by (auto simp: arrived_messages_def)
  then show ?thesis by (auto simp: d(2) event_of_def event_message_def)
qed

lemma handled_event_was_stored_witness:
  "\<exists>k p r. sample_bus_event \<in> set (handled p) \<and> r \<in> set (outbox ticked_system) \<and>
     sample_text (oe_id r) = ''x'' \<and> oe_event_type r = ''user.created'' \<and> oe_payload r = ''{}'' \<and>
     sample_flow (sample_system, empty_broker True, new_pump 0) (ticked_system, k, p)"
proof -
  obtain k p where p: "sample_flow (sample_system, empty_broker True, new_pump 0) (ticked_system, k, p)"
      "sample_bus_event \<in> set (handled p)"
    using sample_flow_handled by blast
  from handled_event_was_stored [OF refl _ _ _ p] p show ?thesis
    by (auto simp: sample_bus_event_def)
qed



end
