(* ===== verification/HttpServer.thy ===== *)
theory HttpServer
  imports Logger Redact
begin

text \<open>
  What every HTTP request passes through: the middleware of \<open>internal/controller/http/middleware\<close>, the
  order in which \<open>router.go\<close> registers it, and the database probe of \<open>v1/health.go\<close>. The package
  \<open>fiber\<close> is represented by the context it hands around and by the rest of the chain as a function.
\<close>

section \<open>Requests\<close>

text \<open>
  \<open>fiber.Ctx\<close> as far as it is read and set here. \<open>fc_headers\<close> is \<open>c.Get\<close>: the empty string for a
  header that is absent. \<open>fc_locals\<close> are the values of \<open>c.Locals\<close>.
\<close>

record fiber_ctx =
  fc_method :: string
  fc_path :: string
  fc_url :: string
  fc_ip :: string
  fc_headers :: "string \<Rightarrow> string"
  fc_locals :: "string \<Rightarrow> any option"
  fc_status :: int
  fc_set :: "string \<Rightarrow> string option"
  fc_body :: bytes

text \<open>A handler changes the context and the world; it returns an error or panics.\<close>

type_synonym 'w fiber_handler = "fiber_ctx \<Rightarrow> 'w \<Rightarrow> goerr option outcome \<times> fiber_ctx \<times> 'w"

section \<open>The request identifier\<close>

definition RequestIDHeader :: string where "RequestIDHeader = ''X-Request-ID''"

definition RequestIDKey :: string where "RequestIDKey = ''request_id''"

text \<open>\<open>new_id\<close> is \<open>uuid.New().String()\<close>; \<open>next\<close> is the rest of the chain.\<close>

definition request_id_of :: "('w \<Rightarrow> string) \<Rightarrow> fiber_ctx \<Rightarrow> 'w \<Rightarrow> string" where
  "request_id_of new_id c w =
     (if fc_headers c RequestIDHeader = '''' then new_id w else fc_headers c RequestIDHeader)"

definition RequestID :: "('w \<Rightarrow> string) \<Rightarrow> 'w fiber_handler \<Rightarrow> 'w fiber_handler" where
  "RequestID new_id nxt c w =
     (let requestID = request_id_of new_id c w in
      nxt (c\<lparr>fc_locals := (fc_locals c)(RequestIDKey \<mapsto> AnyStr requestID),
             fc_set := (fc_set c)(RequestIDHeader \<mapsto> requestID)\<rparr>) w)"

definition GetRequestID :: "fiber_ctx \<Rightarrow> string" where
  "GetRequestID c = (case fc_locals c RequestIDKey of Some (AnyStr i) \<Rightarrow> i | _ \<Rightarrow> '''')"

section \<open>The access log\<close>

text \<open>
  \<open>latency\<close> is the time since the start in milliseconds, \<open>order\<close> the order in which the runtime walks
  a map, and \<open>ul\<close> the mapping of \<open>strings.ToLower\<close> beyond ASCII.
\<close>

definition log_fields :: "int \<Rightarrow> fiber_ctx \<Rightarrow> string \<Rightarrow> any option" where
  "log_fields latency c =
     [''method'' \<mapsto> AnyStr (fc_method c), ''path'' \<mapsto> AnyStr (fc_path c), ''status'' \<mapsto> AnyInt (fc_status c),
      ''latency_ms'' \<mapsto> AnyInt latency, ''ip'' \<mapsto> AnyStr (fc_ip c),
      ''user_agent'' \<mapsto> AnyStr (fc_headers c ''User-Agent''), ''bytes_out'' \<mapsto> AnyInt (int (length (fc_body c)))]"

text \<open>
  \<open>Logger\<close> reads the status when the handlers behind it have returned. \<open>fc_status\<close> is then what they set, 200 if
  nothing; \<open>fiber\<close> calls its error handler, which sets the status of the answer to a returned error, after the
  whole chain.
\<close>

definition LoggerMiddleware ::
  "(string \<Rightarrow> string) \<Rightarrow> ((string \<Rightarrow> any option) \<Rightarrow> (string \<times> any) list) \<Rightarrow> ('w \<Rightarrow> int) \<Rightarrow> 'w zlogger \<Rightarrow>
   'w fiber_handler \<Rightarrow> 'w fiber_handler" where
  "LoggerMiddleware ul order latency l nxt c w =
     (case nxt c w of
        (Panic m, c, w) \<Rightarrow> (Panic m, c, w)
      | (Ret err, c, w) \<Rightarrow>
      let status = fc_status c;
          requestID = GetRequestID c;
          reqLogger = with_fields (order (RedactFields ul (log_fields (latency w) c))) (with_request_id requestID l)
      in (Ret err, c,
          if 500 \<le> status then log_Error reqLogger (AnyStr ''server error'') [] w
          else if 400 \<le> status then log_Warn reqLogger ''client error'' [] w
          else log_Info reqLogger ''request completed'' [] w))"

section \<open>Panics\<close>

text \<open>
  \<open>shown\<close> and \<open>stack\<close> are the value of the panic and the stack as \<open>fmt\<close> prints them. \<open>recovering\<close>
  stands for the recovery handler of \<open>fiber\<close>, which is given the function to call for a stack trace.
\<close>

definition buildPanicMessage :: "fiber_ctx \<Rightarrow> string \<Rightarrow> string \<Rightarrow> string" where
  "buildPanicMessage c shown stack =
     fc_ip c @ '' - '' @ fc_method c @ '' '' @ fc_url c @ '' PANIC DETECTED: '' @
     shown @ [CHR 0x0A] @ stack @ [CHR 0x0A]"

definition logPanic :: "'w zlogger \<Rightarrow> string \<Rightarrow> fiber_ctx \<Rightarrow> string \<Rightarrow> 'w \<Rightarrow> 'w" where
  "logPanic l stack c shown w = log_Error l (AnyStr (buildPanicMessage c shown stack)) [] w"

definition Recovery ::
  "((fiber_ctx \<Rightarrow> string \<Rightarrow> 'w \<Rightarrow> 'w) \<Rightarrow> 'w fiber_handler \<Rightarrow> 'w fiber_handler) \<Rightarrow> string \<Rightarrow> 'w zlogger \<Rightarrow>
   'w fiber_handler \<Rightarrow> 'w fiber_handler" where
  "Recovery recovering stack l nxt = recovering (logPanic l stack) nxt"

text \<open>What the package documents: a panic is passed to the function and becomes the returned error.\<close>

definition recovers ::
  "((fiber_ctx \<Rightarrow> string \<Rightarrow> 'w \<Rightarrow> 'w) \<Rightarrow> 'w fiber_handler \<Rightarrow> 'w fiber_handler) \<Rightarrow> bool" where
  "recovers recovering \<longleftrightarrow> (\<forall>trace nxt c w. recovering trace nxt c w =
     (case nxt c w of
        (Ret err, c', w') \<Rightarrow> (Ret err, c', w')
      | (Panic m, c', w') \<Rightarrow> (Ret (Some (ErrNew m)), c', trace c' m w')))"

section \<open>The chain\<close>

text \<open>The registrations of \<open>NewRouter\<close>, in order; a request passes the middleware in this order.\<close>

datatype registration = UseRequestID | UseLogger | UseRecovery | UsePrometheus | Route string

definition NewHealthRoutes :: "registration list" where
  [simp]: "NewHealthRoutes = [Route ''/healthz/db'']"

definition registrations :: "bool \<Rightarrow> bool \<Rightarrow> registration list" where
  "registrations metrics swagger =
     [UseRequestID, UseLogger, UseRecovery] @
     (if metrics then [Route ''/metrics'', UsePrometheus] else []) @
     (if swagger then [Route ''/swagger/*''] else []) @
     [Route ''/healthz''] @ NewHealthRoutes"

record 'w http_parts =
  hp_new_id :: "'w \<Rightarrow> string"
  hp_lower :: "string \<Rightarrow> string"
  hp_order :: "(string \<Rightarrow> any option) \<Rightarrow> (string \<times> any) list"
  hp_latency :: "'w \<Rightarrow> int"
  hp_log :: "'w zlogger"
  hp_recovering :: "(fiber_ctx \<Rightarrow> string \<Rightarrow> 'w \<Rightarrow> 'w) \<Rightarrow> 'w fiber_handler \<Rightarrow> 'w fiber_handler"
  hp_stack :: string
  hp_metrics :: "'w fiber_handler \<Rightarrow> 'w fiber_handler"

fun through :: "'w http_parts \<Rightarrow> registration list \<Rightarrow> 'w fiber_handler \<Rightarrow> 'w fiber_handler" where
  "through p [] h = h"
| "through p (UseRequestID # rs) h = RequestID (hp_new_id p) (through p rs h)"
| "through p (UseLogger # rs) h =
     LoggerMiddleware (hp_lower p) (hp_order p) (hp_latency p) (hp_log p) (through p rs h)"
| "through p (UseRecovery # rs) h = Recovery (hp_recovering p) (hp_stack p) (hp_log p) (through p rs h)"
| "through p (UsePrometheus # rs) h = hp_metrics p (through p rs h)"
| "through p (Route r # rs) h = through p rs h"

definition serve_request :: "'w http_parts \<Rightarrow> bool \<Rightarrow> bool \<Rightarrow> 'w fiber_handler \<Rightarrow> 'w fiber_handler" where
  "serve_request p metrics swagger h = through p (registrations metrics swagger) h"

section \<open>The probes\<close>

text \<open>\<open>SendStatus\<close> of fiber sets the status and, on an empty body, its text.\<close>

definition healthz :: "fiber_ctx \<Rightarrow> goerr option \<times> fiber_ctx" where
  "healthz c = (None, c\<lparr>fc_status := 200, fc_body := (if fc_body c = '''' then ''OK'' else fc_body c)\<rparr>)"

definition dbHealthTimeout :: int where "dbHealthTimeout = 5000000000"

record db_health =
  dh_status :: string
  dh_version :: "int option"
  dh_dirty :: "bool option"
  dh_error :: string

text \<open>
  \<open>ping\<close> and \<open>row\<close> are what the pool answers within the deadline \<^const>\<open>dbHealthTimeout\<close>; \<open>json\<close> is the encoder.
\<close>

definition send_json :: "(db_health \<Rightarrow> goerr + bytes) \<Rightarrow> int \<Rightarrow> db_health \<Rightarrow> fiber_ctx \<Rightarrow> goerr option \<times> fiber_ctx" where
  "send_json json status r c =
     (case json r of
        Inl e \<Rightarrow> (Some e, c\<lparr>fc_status := status\<rparr>)
      | Inr b \<Rightarrow> (None, c\<lparr>fc_status := status, fc_body := b\<rparr>))"

definition dbHealth ::
  "(db_health \<Rightarrow> goerr + bytes) \<Rightarrow> goerr option \<Rightarrow> goerr + int \<times> bool \<Rightarrow> fiber_ctx \<Rightarrow> goerr option \<times> fiber_ctx" where
  "dbHealth json ping row c =
     (case ping of
        Some e \<Rightarrow> send_json json 503
          \<lparr>dh_status = ''unhealthy'', dh_version = None, dh_dirty = None, dh_error = ''database connection failed''\<rparr> c
      | None \<Rightarrow>
      (case row of
         Inl e \<Rightarrow> send_json json 200
           \<lparr>dh_status = ''healthy'', dh_version = None, dh_dirty = None, dh_error = ''''\<rparr> c
       | Inr (version, dirty) \<Rightarrow> send_json json 200
           \<lparr>dh_status = ''healthy'', dh_version = Some version, dh_dirty = Some dirty, dh_error = ''''\<rparr> c))"

text \<open>The probe says 503 exactly when the database does not answer, and never how it failed.\<close>

lemma dbHealth_status:
  "fc_status (snd (dbHealth json ping row c)) = (if ping = None then 200 else 503)"
  by (simp add: dbHealth_def send_json_def split: option.splits sum.splits prod.splits)

lemma dbHealth_no_leak:
  "ping \<noteq> None \<Longrightarrow> ping' \<noteq> None \<Longrightarrow> dbHealth json ping row c = dbHealth json ping' row' c"
  by (auto simp: dbHealth_def)


section \<open>One line for each request\<close>

definition access_line :: "int \<Rightarrow> zlevel \<times> string" where
  "access_line status =
     (if 500 \<le> status then (ErrorLevel, ''server error'')
      else if 400 \<le> status then (WarnLevel, ''client error'') else (InfoLevel, ''request completed''))"

definition line_at :: "'w zlogger \<Rightarrow> zlevel \<times> string \<Rightarrow> (string \<times> any) list \<Rightarrow> 'w \<Rightarrow> 'w" where
  "line_at l lm fs = z_Msg (zl_api l) (fst lm) (zl_fields l @ fs) (snd lm)"

lemma derived_logger_sel [simp]:
  "zl_api (with_fields fs l) = zl_api l" "zl_level (with_fields fs l) = zl_level l"
  "zl_api (with_request_id i l) = zl_api l" "zl_level (with_request_id i l) = zl_level l"
  "zl_fields (with_request_id i l) = zl_fields l @ [(''request_id'', AnyStr i)]"
  by (simp_all add: with_fields_def with_request_id_def)

lemmas plain_lines = log_Error_def log_Warn_def log_Info_def log_msg_def log_at_def

lemma LoggerMiddleware_line:
  assumes "nxt c w = (Ret err, c', w')" and "zl_level l \<noteq> DebugLevel"
  shows "LoggerMiddleware ul order latency l nxt c w = (Ret err, c',
    line_at l (access_line (fc_status c'))
      ((''request_id'', AnyStr (GetRequestID c')) # order (RedactFields ul (log_fields (latency w') c'))) w')"
  using assms by (simp add: LoggerMiddleware_def Let_def line_at_def access_line_def plain_lines)

lemma Recovery_outcome:
  assumes "recovers recovering" and "zl_level l \<noteq> DebugLevel" and "nxt c w = (r, c', w')"
  shows "Recovery recovering stack l nxt c w =
    (case r of
       Ret err \<Rightarrow> (Ret err, c', w')
     | Panic m \<Rightarrow> (Ret (Some (ErrNew m)), c', line_at l (ErrorLevel, buildPanicMessage c' m stack) [] w'))"
  using assms
  by (simp add: Recovery_def recovers_def logPanic_def plain_lines line_at_def split: outcome.splits)

text \<open>The context that the routes see, and the part of the chain behind the three middlewares.\<close>

definition identified :: "'w http_parts \<Rightarrow> fiber_ctx \<Rightarrow> 'w \<Rightarrow> fiber_ctx" where
  "identified p c w = c\<lparr>fc_locals := (fc_locals c)(RequestIDKey \<mapsto> AnyStr (request_id_of (hp_new_id p) c w)),
     fc_set := (fc_set c)(RequestIDHeader \<mapsto> request_id_of (hp_new_id p) c w)\<rparr>"

definition routes_of :: "'w http_parts \<Rightarrow> bool \<Rightarrow> bool \<Rightarrow> 'w fiber_handler \<Rightarrow> 'w fiber_handler" where
  "routes_of p metrics swagger h = through p (drop 3 (registrations metrics swagger)) h"

text \<open>
  C18. The property: whatever the routes do with a request, and also when they panic, the chain returns;
  exactly one access line is written, after a line with the panic if there was one, and the error of the
  routes is passed on. The line carries the identifier of the request, which is also the header
  \<open>X-Request-ID\<close> of the response as long as the routes leave it alone, and the status as it stands when the
  chain returns, with the level of that status. It is not the status of the answer when the routes return an error or
  panic: \<open>fiber\<close> turns the error into a status only afterwards.
\<close>

theorem every_request_is_logged_once:
  assumes "recovers (hp_recovering p)" and "zl_level (hp_log p) \<noteq> DebugLevel"
    and "routes_of p metrics swagger h (identified p c w) w = (r, c', w')"
    and "fc_locals c' RequestIDKey = fc_locals (identified p c w) RequestIDKey"
    and "fc_set c' RequestIDHeader = fc_set (identified p c w) RequestIDHeader"
  shows "fc_set c' RequestIDHeader = Some (request_id_of (hp_new_id p) c w) \<and> serve_request p metrics swagger h c w =
    (let err = (case r of Ret e \<Rightarrow> e | Panic m \<Rightarrow> Some (ErrNew m));
         w1 = (case r of Ret e \<Rightarrow> w'
               | Panic m \<Rightarrow> line_at (hp_log p) (ErrorLevel, buildPanicMessage c' m (hp_stack p)) [] w')
     in (Ret err, c', line_at (hp_log p) (access_line (fc_status c'))
          ((''request_id'', AnyStr (request_id_of (hp_new_id p) c w)) #
           hp_order p (RedactFields (hp_lower p) (log_fields (hp_latency p w1) c'))) w1))"
proof -
  have chain: "serve_request p metrics swagger h c w =
      LoggerMiddleware (hp_lower p) (hp_order p) (hp_latency p) (hp_log p)
        (Recovery (hp_recovering p) (hp_stack p) (hp_log p) (routes_of p metrics swagger h)) (identified p c w) w"
    by (simp add: serve_request_def routes_of_def registrations_def RequestID_def identified_def Let_def)
  have id: "GetRequestID c' = request_id_of (hp_new_id p) c w"
    using assms(4) by (simp add: GetRequestID_def identified_def)
  let ?nxt = "Recovery (hp_recovering p) (hp_stack p) (hp_log p) (routes_of p metrics swagger h)"
  let ?err = "case r of Ret e \<Rightarrow> e | Panic m \<Rightarrow> Some (ErrNew m)"
  let ?w1 = "case r of Ret e \<Rightarrow> w'
    | Panic m \<Rightarrow> line_at (hp_log p) (ErrorLevel, buildPanicMessage c' m (hp_stack p)) [] w'"
  have "?nxt (identified p c w) w = (Ret ?err, c', ?w1)"
    using Recovery_outcome [where nxt = "routes_of p metrics swagger h" and c = "identified p c w" and w = w,
        OF assms(1-3)]
    by (simp split: outcome.splits)
  from LoggerMiddleware_line [where nxt = ?nxt and c = "identified p c w" and w = w, OF this assms(2)]
  have "serve_request p metrics swagger h c w = (Ret ?err, c', line_at (hp_log p) (access_line (fc_status c'))
      ((''request_id'', AnyStr (request_id_of (hp_new_id p) c w)) #
       hp_order p (RedactFields (hp_lower p) (log_fields (hp_latency p ?w1) c'))) ?w1)"
    unfolding chain by (simp add: id)
  moreover have "fc_set c' RequestIDHeader = Some (request_id_of (hp_new_id p) c w)"
    using assms(5) by (simp add: identified_def)
  ultimately show ?thesis by (simp add: Let_def)
qed

definition sample_ctx :: fiber_ctx where
  "sample_ctx = \<lparr>fc_method = ''GET'', fc_path = ''/healthz'', fc_url = ''/healthz'', fc_ip = ''10.0.0.1'',
     fc_headers = (\<lambda>h. if h = ''X-Request-ID'' then ''abc'' else ''''), fc_locals = (\<lambda>k. None), fc_status = 200,
     fc_set = (\<lambda>k. None), fc_body = ''''\<rparr>"

definition list_log :: "((zlevel \<times> string) list) zlogger" where
  "list_log = \<lparr>zl_api = \<lparr>z_Msg = (\<lambda>lv fs s w. w @ [(lv, s)]), z_Msgf = (\<lambda>lv fs s args w. w @ [(lv, s)]),
       z_SetGlobalLevel = (\<lambda>lv w. w), z_Exit = (\<lambda>c w. w), z_unknown = (\<lambda>lv v. lv)\<rparr>,
     zl_level = TraceLevel, zl_fields = []\<rparr>"

definition sample_parts :: "((zlevel \<times> string) list) http_parts" where
  "sample_parts = \<lparr>hp_new_id = (\<lambda>w. ''fresh''), hp_lower = (\<lambda>s. s), hp_order = (\<lambda>m. []), hp_latency = (\<lambda>w. 1),
     hp_log = list_log,
     hp_recovering = (\<lambda>trace nxt c w. case nxt c w of (Ret err, c', w') \<Rightarrow> (Ret err, c', w')
        | (Panic m, c', w') \<Rightarrow> (Ret (Some (ErrNew m)), c', trace c' m w')),
     hp_stack = ''stack'', hp_metrics = (\<lambda>h. h)\<rparr>"

definition panicking :: "((zlevel \<times> string) list) fiber_handler" where
  "panicking c w = (Panic ''nil map'', c, w)"

theorem every_request_is_logged_once_witness:
  "case serve_request sample_parts True False panicking sample_ctx [] of
     (r, c', ls) \<Rightarrow> r = Ret (Some (ErrNew ''nil map'')) \<and> map fst ls = [ErrorLevel, InfoLevel] \<and>
       fc_set c' ''X-Request-ID'' = Some ''abc''"
proof -
  let ?p = sample_parts and ?c = sample_ctx
  have rec: "recovers (hp_recovering ?p)" by (simp add: recovers_def sample_parts_def)
  have lvl: "zl_level (hp_log ?p) \<noteq> DebugLevel" by (simp add: sample_parts_def list_log_def)
  have routes: "routes_of ?p True False panicking (identified ?p ?c []) [] =
      (Panic ''nil map'', identified ?p ?c [], [])"
    by (simp add: routes_of_def registrations_def panicking_def sample_parts_def)
  show ?thesis
    using every_request_is_logged_once [OF rec lvl routes refl refl]
    by (simp add: Let_def line_at_def access_line_def identified_def request_id_of_def sample_parts_def sample_ctx_def
        list_log_def RequestIDHeader_def)
qed

text \<open>
  The status is read before \<open>fiber\<close> turns the returned error into one: a request whose handler only
  returned an error, or panicked, is logged as completed with the status 200.
\<close>

lemma error_logged_as_completed:
  assumes "nxt c w = (Ret (Some e), c', w')" and "fc_status c' = 200" and "zl_level l \<noteq> DebugLevel"
  shows "\<exists>fs. LoggerMiddleware ul order latency l nxt c w =
    (Ret (Some e), c', line_at l (InfoLevel, ''request completed'') fs w')"
  using LoggerMiddleware_line [where nxt = nxt and c = c and w = w, OF assms(1,3)] assms(2) by (auto simp: access_line_def)

end
