(* ===== verification/AppLife.thy ===== *)
theory AppLife
  imports App Servers WorkerLifecycle
begin

text \<open>
  The whole program while it runs: the thread of \<open>Run\<close> of \<open>internal/app/app.go\<close> goes through its actions,
  and between them the goroutines of the four servers and of the outbox worker take their own steps.
  What is shown: the way down never gets stuck, and nothing is closed under the feet of its user.
\<close>

section \<open>The parts\<close>

datatype host = RmqHost | NatsHost | GrpcHost | HttpHost

fun start_of :: "host \<Rightarrow> app_action" where
  "start_of RmqHost = StartRmq"
| "start_of NatsHost = StartNats"
| "start_of GrpcHost = StartGrpc"
| "start_of HttpHost = StartHttp"

fun shutdown_of :: "host \<Rightarrow> app_action" where
  "shutdown_of RmqHost = ShutdownRmq"
| "shutdown_of NatsHost = ShutdownNats"
| "shutdown_of GrpcHost = ShutdownGrpc"
| "shutdown_of HttpHost = ShutdownHttp"

text \<open>The two RPC servers close a channel in \<open>Shutdown\<close>.\<close>

fun closes_stop :: "host \<Rightarrow> bool" where
  "closes_stop RmqHost = True"
| "closes_stop NatsHost = True"
| "closes_stop GrpcHost = False"
| "closes_stop HttpHost = False"

text \<open>
  What a server or the worker does without \<open>Run\<close>: only \<open>Run\<close> starts it, reads its \<open>notify\<close>, stops it and
  cancels the context.
\<close>

definition own_step :: "bool \<Rightarrow> server_life \<Rightarrow> server_life \<Rightarrow> bool" where
  "own_step closes l m \<longleftrightarrow> server_step closes l m \<and> stop_asked m = stop_asked l \<and> stop_panic m = stop_panic l \<and>
     (main_at m = Unstarted \<longleftrightarrow> main_at l = Unstarted) \<and> (notice l \<noteq> None \<longrightarrow> notice m = notice l)"

definition own_life_step :: "'w worker \<Rightarrow> 'w life \<Rightarrow> 'w life \<Rightarrow> bool" where
  "own_life_step wk l m \<longleftrightarrow> life_step wk l m \<and> length (runs m) = length (runs l) \<and> stop_calls m = stop_calls l \<and>
     ctx_done m = ctx_done l"

text \<open>
  \<open>todo\<close> is what \<open>Run\<close> has still to start and to take down; \<open>woken\<close> says that its \<open>select\<close> has been
  passed.
\<close>

record 'w program =
  hosts :: "host \<Rightarrow> server_life"
  poller :: "'w life"
  todo :: "app_action list"
  woken :: bool

definition new_program :: "config \<Rightarrow> app_answers \<Rightarrow> 'w \<Rightarrow> 'w program" where
  "new_program cfg an w = \<lparr>hosts = (\<lambda>h. new_life_of_server), poller = new_life w,
     todo = filter is_control (Run cfg an), woken = False\<rparr>"

definition alive :: "'w program \<Rightarrow> bool" where
  "alive p \<longleftrightarrow> crash (poller p) = None \<and> (\<forall>h. \<not> stop_panic (hosts p h))"

definition set_host :: "host \<Rightarrow> server_life \<Rightarrow> 'w program \<Rightarrow> 'w program" where
  "set_host h l p = p\<lparr>hosts := (hosts p)(h := l)\<rparr>"

text \<open>
  The \<open>select\<close>: a signal may come at any time; a channel \<open>notify\<close> is ready with its error, or with nil when
  it is closed and empty. The error is taken out.
\<close>

fun notify_of :: "wake \<Rightarrow> (host \<times> goerr option) option" where
  "notify_of (Interrupted s) = None"
| "notify_of (HttpNotify r) = Some (HttpHost, r)"
| "notify_of (GrpcNotify r) = Some (GrpcHost, r)"
| "notify_of (RmqNotify r) = Some (RmqHost, r)"
| "notify_of (NatsNotify r) = Some (NatsHost, r)"

definition ready :: "wake \<Rightarrow> 'w program \<Rightarrow> bool" where
  "ready k p = (case notify_of k of
     None \<Rightarrow> True
   | Some (h, r) \<Rightarrow> notice (hosts p h) = r \<and> (r = None \<longrightarrow> note_closed (hosts p h)))"

definition take_notice :: "wake \<Rightarrow> 'w program \<Rightarrow> 'w program" where
  "take_notice k p = (case notify_of k of
     None \<Rightarrow> p
   | Some (h, r) \<Rightarrow> set_host h ((hosts p h)\<lparr>notice := None\<rparr>) p)"

text \<open>
  A \<open>Shutdown\<close> first asks its server to stop and then waits for it; the first one, that of the HTTP server,
  comes after the \<open>select\<close>. \<open>Stop\<close> of the worker does likewise.
\<close>

inductive program_step :: "'w worker \<Rightarrow> 'w program \<Rightarrow> 'w program \<Rightarrow> bool" for wk :: "'w worker" where
  host_works: "alive p \<Longrightarrow> own_step (closes_stop h) (hosts p h) l \<Longrightarrow> program_step wk p (set_host h l p)"
| poller_works: "alive p \<Longrightarrow> own_life_step wk (poller p) l \<Longrightarrow> program_step wk p (p\<lparr>poller := l\<rparr>)"
| starts: "alive p \<Longrightarrow> todo p = start_of h # as \<Longrightarrow> main_at (hosts p h) = Unstarted \<Longrightarrow>
     program_step wk p (set_host h ((hosts p h)\<lparr>main_at := Running\<rparr>) (p\<lparr>todo := as\<rparr>))"
| starts_poller: "alive p \<Longrightarrow> todo p = StartWorker # as \<Longrightarrow> life_step wk (poller p) l \<Longrightarrow>
     runs l = runs (poller p) @ [Spawned] \<Longrightarrow> program_step wk p (p\<lparr>poller := l, todo := as\<rparr>)"
| wakes: "alive p \<Longrightarrow> todo p = ShutdownHttp # as \<Longrightarrow> \<not> woken p \<Longrightarrow> ready k p \<Longrightarrow>
     program_step wk p ((take_notice k p)\<lparr>woken := True\<rparr>)"
| asks: "alive p \<Longrightarrow> todo p = shutdown_of h # as \<Longrightarrow> h = HttpHost \<longrightarrow> woken p \<Longrightarrow> \<not> stop_asked (hosts p h) \<Longrightarrow>
     program_step wk p (set_host h ((hosts p h)\<lparr>stop_asked := True\<rparr>) p)"
| shut: "alive p \<Longrightarrow> todo p = shutdown_of h # as \<Longrightarrow> wait_result (hosts p h) \<noteq> None \<Longrightarrow>
     program_step wk p (p\<lparr>todo := as\<rparr>)"
| stops_poller: "alive p \<Longrightarrow> todo p = StopWorker # as \<Longrightarrow> stop_calls (poller p) = 0 \<Longrightarrow>
     life_step wk (poller p) l \<Longrightarrow> stop_calls l = 1 \<Longrightarrow> program_step wk p (p\<lparr>poller := l\<rparr>)"
| poller_stopped: "alive p \<Longrightarrow> todo p = StopWorker # as \<Longrightarrow> Returned \<in> set (stops (poller p)) \<Longrightarrow>
     program_step wk p (p\<lparr>todo := as\<rparr>)"
| cancels: "alive p \<Longrightarrow> todo p = CancelContext # as \<Longrightarrow>
     program_step wk p (p\<lparr>poller := (poller p)\<lparr>ctx_done := True\<rparr>, todo := as\<rparr>)"
| closes: "alive p \<Longrightarrow> todo p = a # as \<Longrightarrow> a = ClosePublisher \<or> a = ClosePostgres \<Longrightarrow>
     program_step wk p (p\<lparr>todo := as\<rparr>)"

abbreviation program_run :: "'w worker \<Rightarrow> 'w program \<Rightarrow> 'w program \<Rightarrow> bool" where
  "program_run wk \<equiv> (program_step wk)\<^sup>*\<^sup>*"

section \<open>What holds of every state\<close>

lemma suffix_facts:
  assumes "suffix as (control_text e)"
  shows "distinct as" and "start_of h \<in> set as \<Longrightarrow> shutdown_of h \<in> set (tl as)"
    and "StartWorker \<in> set as \<Longrightarrow> StopWorker \<in> set (tl as)" and "set as \<subseteq> set (control_text e)"
proof -
  obtain xs where xs: "control_text e = xs @ as" using assms by (auto simp: suffix_def)
  have "distinct (control_text e)" by (cases e) (simp_all add: control_text_def)
  with xs show "distinct as" "set as \<subseteq> set (control_text e)" by auto
  show "shutdown_of h \<in> set (tl as)" if "start_of h \<in> set as"
    using that xs by (cases e; cases h) (auto simp: control_text_def append_eq_Cons_conv Cons_eq_append_conv)
  show "StopWorker \<in> set (tl as)" if "StartWorker \<in> set as"
    using that xs by (cases e) (auto simp: control_text_def append_eq_Cons_conv Cons_eq_append_conv)
qed


lemma control_actions [simp]:
  "start_of h = start_of k \<longleftrightarrow> h = k" "shutdown_of h = shutdown_of k \<longleftrightarrow> h = k" "start_of h \<noteq> shutdown_of k"
  "shutdown_of h \<noteq> start_of k" "start_of h \<noteq> StartWorker" "start_of h \<noteq> StopWorker" "start_of h \<noteq> CancelContext"
  "start_of h \<noteq> ClosePublisher" "start_of h \<noteq> ClosePostgres" "shutdown_of h \<noteq> StartWorker"
  "shutdown_of h \<noteq> StopWorker" "shutdown_of h \<noteq> CancelContext" "shutdown_of h \<noteq> ClosePublisher"
  "shutdown_of h \<noteq> ClosePostgres"
  by (cases h; cases k; simp)+

lemma worker_in_text [simp]:
  "StartWorker \<in> set (control_text e) \<longleftrightarrow> e" "StopWorker \<in> set (control_text e) \<longleftrightarrow> e"
  by (auto simp: control_text_def)

lemmas control_actions_sym [simp] = control_actions(5-14) [symmetric]

text \<open>
  A server is started when its action is done; it is asked to stop only by the action at the head;
  and when its \<open>Shutdown\<close> is done it was waited for, and its goroutine had finished.
\<close>

definition host_ok :: "app_action list \<Rightarrow> host \<Rightarrow> server_life \<Rightarrow> bool" where
  "host_ok as h l \<longleftrightarrow> room_for_error l \<and> \<not> stop_panic l \<and>
     (main_at l = Unstarted \<longleftrightarrow> start_of h \<in> set as) \<and>
     (stop_asked l \<longrightarrow> shutdown_of h \<notin> set (tl as)) \<and>
     (wait_result l \<noteq> None \<longrightarrow> stop_asked l \<and> (\<exists>r. main_at l = main_phase.Finished r)) \<and>
     (shutdown_of h \<notin> set as \<longrightarrow> wait_result l \<noteq> None)"

lemma set_tl: "x \<in> set (tl as) \<Longrightarrow> x \<in> set as"
  by (cases as) simp_all

lemma host_ok_done:
  assumes "host_ok (a # as) h l" and "a \<noteq> start_of h" and "a = shutdown_of h \<Longrightarrow> wait_result l \<noteq> None"
  shows "host_ok as h l"
  using assms by (auto simp: host_ok_def dest: set_tl)

lemma host_ok_started:
  assumes "host_ok (start_of h # as) h l" and "start_of h \<notin> set as"
  shows "host_ok as h (l\<lparr>main_at := Running\<rparr>)"
proof -
  have "main_at l = Unstarted" using assms(1) by (simp add: host_ok_def)
  with assms(1) have "notice l = None" "wait_result l = None" "\<not> stop_panic l" "stop_asked l \<longrightarrow> shutdown_of h \<notin> set as"
    "shutdown_of h \<in> set as"
    by (auto simp: host_ok_def room_for_error_def)
  with assms(2) show ?thesis by (auto simp: host_ok_def room_for_error_def dest: set_tl)
qed

lemma host_ok_own:
  assumes "host_ok as h l" and "own_step closes l m" and "start_of h \<in> set as \<Longrightarrow> shutdown_of h \<in> set (tl as)"
  shows "host_ok as h m"
proof -
  from assms(2) have step: "server_step closes l m"
    and m: "stop_asked m = stop_asked l" "stop_panic m = stop_panic l" "main_at m = Unstarted \<longleftrightarrow> main_at l = Unstarted"
    by (simp_all add: own_step_def)
  from step assms(1,3) have "wait_result m \<noteq> None \<longrightarrow> stop_asked m \<and> (\<exists>r. main_at m = main_phase.Finished r)"
    "wait_result l \<noteq> None \<longrightarrow> wait_result m \<noteq> None"
    by (induction rule: server_step.induct) (auto simp: host_ok_def)
  with assms(1) m room_for_error_step [OF step] show ?thesis by (auto simp: host_ok_def)
qed

definition poller_ok :: "bool \<Rightarrow> app_action list \<Rightarrow> 'w life \<Rightarrow> bool" where
  "poller_ok e as l \<longleftrightarrow> life_inv l \<and> length (runs l) \<le> 1 \<and> (runs l = [] \<longleftrightarrow> StartWorker \<in> set as \<or> \<not> e) \<and>
     stop_calls l \<le> 1 \<and> (stop_calls l \<noteq> 0 \<longrightarrow> StopWorker \<notin> set (tl as)) \<and>
     (e \<and> StopWorker \<notin> set as \<longrightarrow> Returned \<in> set (stops l))"

lemma poller_ok_done:
  assumes "poller_ok e (a # as) l" and "a \<noteq> StartWorker" and "a = StopWorker \<Longrightarrow> Returned \<in> set (stops l)"
  shows "poller_ok e as l"
  using assms by (auto simp: poller_ok_def dest: set_tl)

lemma returned_stays: "life_step wk l m \<Longrightarrow> Returned \<in> set (stops l) \<Longrightarrow> Returned \<in> set (stops m)"
  by (induction rule: life_step.induct) (auto simp: Let_def set_update_memI)

lemma poller_ok_own: "poller_ok e as l \<Longrightarrow> own_life_step wk l m \<Longrightarrow> poller_ok e as m"
  using life_inv_step [of wk l m] returned_stays [of wk l m]
  by (auto simp: poller_ok_def own_life_step_def simp flip: length_0_conv)

lemma poller_started:
  assumes "life_step wk l m" and "runs m = runs l @ [Spawned]"
  shows "stop_calls m = stop_calls l"
  using assms by (cases rule: life_step.cases) (auto simp: leave_run_def Let_def split: if_splits)

lemma poller_asked:
  assumes "life_step wk l m" and "stop_calls m \<noteq> stop_calls l"
  shows "runs m = runs l"
  using assms by (cases rule: life_step.cases) (auto simp: leave_run_def Let_def)

definition program_inv :: "bool \<Rightarrow> 'w program \<Rightarrow> bool" where
  "program_inv e p \<longleftrightarrow> suffix (todo p) (control_text e) \<and> (\<forall>h. host_ok (todo p) h (hosts p h)) \<and>
     poller_ok e (todo p) (poller p)"

lemma set_host_sel [simp]:
  "hosts (set_host h l p) = (hosts p)(h := l)" "poller (set_host h l p) = poller p" "todo (set_host h l p) = todo p"
  "woken (set_host h l p) = woken p"
  by (simp_all add: set_host_def)

lemma room_without_notice [simp]: "room_for_error (l\<lparr>notice := None\<rparr>)"
  by (simp add: room_for_error_def)

lemma take_notice_sel [simp]:
  "poller (take_notice k p) = poller p" "todo (take_notice k p) = todo p"
  by (simp_all add: take_notice_def split: option.splits prod.splits)

lemma take_notice_ok: "host_ok as h (hosts p h) \<Longrightarrow> host_ok as h (hosts (take_notice k p) h)"
  by (auto simp: take_notice_def host_ok_def split: option.splits prod.splits)

lemma program_inv_step:
  assumes "program_step wk p q" and "program_inv e p"
  shows "program_inv e q"
  using assms
proof (induction rule: program_step.induct)
  case (host_works p h l)
  with suffix_facts(2) [of "todo p" e h] host_ok_own [of "todo p" h "hosts p h" "closes_stop h" l] show ?case
    by (auto simp: program_inv_def)
next
  case (poller_works p l)
  with poller_ok_own [of e "todo p" "poller p" wk l] show ?case by (simp add: program_inv_def)
next
  case (starts p h as)
  then have "suffix (start_of h # as) (control_text e)" "host_ok (start_of h # as) k (hosts p k)" for k
    by (simp_all add: program_inv_def)
  with suffix_facts(1) [of "start_of h # as" e] have "host_ok as k ((hosts (set_host h ((hosts p h)\<lparr>main_at := Running\<rparr>) p)) k)" for k
    using host_ok_done [of "start_of h" as k "hosts p k"] host_ok_started [of h as "hosts p h"] by (cases "k = h") auto
  with starts poller_ok_done [of e "start_of h" as "poller p"] show ?case
    by (auto simp: program_inv_def dest: suffix_ConsD)
next
  case (starts_poller p as l)
  then have "host_ok as h (hosts p h)" for h using host_ok_done [of StartWorker as h] by (auto simp: program_inv_def)
  moreover have "poller_ok e as l"
    using starts_poller life_inv_step [OF starts_poller(3)] poller_started [OF starts_poller(3,4)]
      suffix_facts [of "StartWorker # as" e]
    by (auto simp: program_inv_def poller_ok_def dest: set_tl)
  ultimately show ?case using starts_poller by (auto simp: program_inv_def dest: suffix_ConsD)
next
  case (wakes p as k)
  then show ?case by (auto simp: program_inv_def take_notice_ok)
next
  case (asks p h as)
  with suffix_facts(1) [of "todo p" e] show ?case by (auto simp: program_inv_def host_ok_def room_for_error_def)
next
  case (shut p h as)
  then have "host_ok as k (hosts p k)" for k using host_ok_done [of "shutdown_of h" as k "hosts p k"] by (auto simp: program_inv_def)
  with shut poller_ok_done [of e "shutdown_of h" as "poller p"] show ?case by (auto simp: program_inv_def dest: suffix_ConsD)
next
  case (stops_poller p as l)
  with life_inv_step [OF stops_poller(4)] poller_asked [OF stops_poller(4)] suffix_facts(1) [of "todo p" e] show ?case
    by (auto simp: program_inv_def poller_ok_def)
next
  case (poller_stopped p as)
  then have "host_ok as h (hosts p h)" for h using host_ok_done [of StopWorker as h] by (auto simp: program_inv_def)
  with poller_stopped poller_ok_done [of e StopWorker as "poller p"] show ?case by (auto simp: program_inv_def dest: suffix_ConsD)
next
  case (cancels p as)
  then have "host_ok as h (hosts p h)" for h using host_ok_done [of CancelContext as h] by (auto simp: program_inv_def)
  moreover have "poller_ok e as ((poller p)\<lparr>ctx_done := True\<rparr>)"
    using cancels poller_ok_done [of e CancelContext as "poller p"] by (auto simp: program_inv_def poller_ok_def life_inv_def)
  ultimately show ?case using cancels by (auto simp: program_inv_def dest: suffix_ConsD)
next
  case (closes p a as)
  then have "host_ok as h (hosts p h)" for h using host_ok_done [of a as h] by (auto simp: program_inv_def)
  with closes poller_ok_done [of e a as "poller p"] show ?case by (auto simp: program_inv_def dest: suffix_ConsD)
qed

lemma program_inv_run: "program_run wk p q \<Longrightarrow> program_inv e p \<Longrightarrow> program_inv e q"
  by (induction rule: rtranclp_induct) (auto intro: program_inv_step)

lemma program_inv_new:
  assumes "todo (new_program cfg an w) \<noteq> []"
  shows "program_inv (cfg_Outbox_Enabled cfg) (new_program cfg an w)"
proof -
  have start: "todo (new_program cfg an w) = control_text (cfg_Outbox_Enabled cfg)"
    using assms control_Run [of cfg an] by (simp add: new_program_def)
  have "start_of h \<in> set (control_text e)" "shutdown_of h \<in> set (control_text e)" for h e
    by (cases h; simp add: control_text_def)+
  then show ?thesis
    unfolding program_inv_def start host_ok_def poller_ok_def
    by (simp add: new_program_def) (simp add: new_life_of_server_def new_life_def control_text_def)
qed


section \<open>The way down\<close>

lemma own_stepI:
  assumes "server_step closes l m" and "stop_asked m = stop_asked l" and "stop_panic m = stop_panic l"
    and "main_at m = Unstarted \<longleftrightarrow> main_at l = Unstarted" and "notice l \<noteq> None \<longrightarrow> notice m = notice l"
  shows "(own_step closes)\<^sup>*\<^sup>* l m"
  using assms by (simp add: own_step_def r_into_rtranclp)

lemma finished_rests:
  "main_at l = main_phase.Finished r \<Longrightarrow> stop_asked l \<Longrightarrow> \<not> stop_panic l \<Longrightarrow>
   \<exists>m. (own_step closes)\<^sup>*\<^sup>* l m \<and> wait_result m \<noteq> None"
  by (intro exI [of _ "l\<lparr>wait_result := Some r\<rparr>"] conjI own_stepI server_step.wait_ends) simp_all

lemma signalled_rests:
  assumes "main_at l = Signalled e" and "stop_asked l" and "\<not> stop_panic l"
  shows "\<exists>m. (own_step closes)\<^sup>*\<^sup>* l m \<and> wait_result m \<noteq> None"
proof -
  let ?l = "l\<lparr>main_at := main_phase.Finished (Some e), note_closed := True\<rparr>"
  have "(own_step closes)\<^sup>*\<^sup>* l ?l" using assms by (intro own_stepI server_step.close_and_leave) simp_all
  moreover obtain m where "(own_step closes)\<^sup>*\<^sup>* ?l m" "wait_result m \<noteq> None"
    using finished_rests [of ?l "Some e" closes] assms by auto
  ultimately show ?thesis by (blast intro: rtranclp_trans)
qed

lemma host_rests:
  assumes "room_for_error l" and "\<not> stop_panic l" and "stop_asked l"
  shows "\<exists>m. (own_step closes)\<^sup>*\<^sup>* l m \<and> wait_result m \<noteq> None"
proof (cases "main_at l")
  case Unstarted
  with assms show ?thesis
    by (intro exI [of _ "l\<lparr>wait_result := Some None\<rparr>"] conjI own_stepI server_step.wait_unstarted) simp_all
next
  case Running
  let ?l = "l\<lparr>main_at := main_phase.Finished None\<rparr>"
  have "(own_step closes)\<^sup>*\<^sup>* l ?l" using assms Running by (intro own_stepI server_step.main_returns) simp_all
  moreover obtain m where "(own_step closes)\<^sup>*\<^sup>* ?l m" "wait_result m \<noteq> None"
    using finished_rests [of ?l None closes] assms by auto
  ultimately show ?thesis by (blast intro: rtranclp_trans)
next
  case (Failing e)
  let ?l = "l\<lparr>main_at := Signalled e, notice := Some e\<rparr>"
  from assms(1) Failing have "notice l = None" by (auto simp: room_for_error_def)
  then have "(own_step closes)\<^sup>*\<^sup>* l ?l" using assms Failing by (intro own_stepI server_step.send) simp_all
  moreover obtain m where "(own_step closes)\<^sup>*\<^sup>* ?l m" "wait_result m \<noteq> None"
    using signalled_rests [of ?l e closes] assms by auto
  ultimately show ?thesis by (blast intro: rtranclp_trans)
qed (use assms finished_rests signalled_rests in blast)+

text \<open>The worker that is asked to stop lets \<open>Stop\<close> return.\<close>

lemma own_life_stepI:
  assumes "life_step wk l m" and "length (runs m) = length (runs l)" and "stop_calls m = stop_calls l" and "ctx_done m = ctx_done l"
  shows "(own_life_step wk)\<^sup>*\<^sup>* l m"
  using assms by (simp add: own_life_step_def r_into_rtranclp)

lemma closed_rests:
  assumes "done_closed l" and "crash l = None" and "length (stops l) = 1"
  shows "\<exists>m. (own_life_step wk)\<^sup>*\<^sup>* l m \<and> Returned \<in> set (stops m) \<and> crash m = None"
proof (cases "stops l ! 0")
  case AwaitingDone
  with assms show ?thesis
    by (intro exI [of _ "l\<lparr>stops := (stops l)[0 := Returned],
        world := lg_Info (worker_log wk) ''eventbus worker - stopped'' [] (world l)\<rparr>"] conjI own_life_stepI life_step.Stop_returns)
      (auto simp: set_update_memI)
next
  case Returned
  with assms show ?thesis by (intro exI [of _ l]) (auto simp: in_set_conv_nth)
qed

lemma polling_rests:
  assumes "runs l = [Polling]" and "life.stop_closed l" and "\<not> done_closed l" and "crash l = None" and "length (stops l) = 1"
  shows "\<exists>m. (own_life_step wk)\<^sup>*\<^sup>* l m \<and> Returned \<in> set (stops m) \<and> crash m = None"
proof -
  have "(own_life_step wk)\<^sup>*\<^sup>* l (leave_run 0 l)"
    using assms by (intro own_life_stepI life_step.quit) (simp_all add: leave_run_def)
  moreover obtain m where "(own_life_step wk)\<^sup>*\<^sup>* (leave_run 0 l) m" "Returned \<in> set (stops m)" "crash m = None"
    using closed_rests [of "leave_run 0 l" wk] assms by (auto simp: leave_run_def)
  ultimately show ?thesis by (blast intro: rtranclp_trans)
qed

lemma poller_rests:
  assumes "life_inv l" and "length (runs l) = 1" and "stop_calls l = 1" and "crash l = None" and "0 < pollInterval wk"
  shows "\<exists>m. (own_life_step wk)\<^sup>*\<^sup>* l m \<and> Returned \<in> set (stops m) \<and> crash m = None"
proof -
  from assms have stops: "life.stop_closed l" "length (stops l) = 1"
    by (cases "stops l"; auto simp: life_inv_def)+
  obtain r where r: "runs l = [r]" using assms(2) by (cases "runs l") auto
  from assms r have closed: "done_closed l \<longleftrightarrow> r = run_phase.Finished" by (auto simp: life_inv_def)
  show ?thesis
  proof (cases r)
    case Spawned
    let ?l = "l\<lparr>runs := [Polling]\<rparr>"
    have "life_step wk l (l\<lparr>runs := (runs l)[0 := Polling]\<rparr>)"
      using assms r Spawned by (intro life_step.ticker) simp_all
    then have "(own_life_step wk)\<^sup>*\<^sup>* l ?l" using r by (intro own_life_stepI) simp_all
    moreover obtain m where "(own_life_step wk)\<^sup>*\<^sup>* ?l m" "Returned \<in> set (stops m)" "crash m = None"
      using polling_rests [of ?l wk] assms stops closed Spawned by auto
    ultimately show ?thesis by (blast intro: rtranclp_trans)
  qed (use assms r stops closed polling_rests closed_rests in simp_all)
qed


text \<open>The steps of a part are steps of the program.\<close>

lemma set_host_again [simp]: "set_host h l (set_host h m p) = set_host h l p" "set_host h (hosts p h) p = p"
  by (simp_all add: set_host_def)

lemma alive_set_host: "alive p \<Longrightarrow> stop_panic l = stop_panic (hosts p h) \<Longrightarrow> alive (set_host h l p)"
  by (simp add: alive_def)

lemma host_runs:
  assumes "(own_step (closes_stop h))\<^sup>*\<^sup>* (hosts p h) l" and "alive p"
  shows "program_run wk p (set_host h l p) \<and> alive (set_host h l p)"
  using assms(1)
proof (induction rule: rtranclp_induct)
  case (step l m)
  have "program_step wk (set_host h l p) (set_host h m (set_host h l p))"
    using step by (intro program_step.host_works) simp_all
  moreover have "alive (set_host h m (set_host h l p))"
    using alive_set_host [of "set_host h l p" m h] step by (simp add: own_step_def)
  ultimately show ?case using step.IH by (auto intro: rtranclp.rtrancl_into_rtrancl)
qed (simp add: assms(2))

lemma poller_runs:
  assumes "(own_life_step wk)\<^sup>*\<^sup>* (poller p) l" and "alive p" and "crash l = None"
  shows "program_run wk p (p\<lparr>poller := l\<rparr>)"
  using assms(1,3)
proof (induction rule: rtranclp_induct)
  case (step l m)
  then have "crash l = None" by (auto simp: own_life_step_def dest: crashed_stays)
  with step assms(2) have "program_step wk (p\<lparr>poller := l\<rparr>) ((p\<lparr>poller := l\<rparr>)\<lparr>poller := m\<rparr>)"
    by (intro program_step.poller_works) (simp_all add: alive_def)
  with step \<open>crash l = None\<close> show ?case by (auto intro: rtranclp.rtrancl_into_rtrancl)
qed simp

lemma program_one: "program_step wk p q \<Longrightarrow> program_run wk p q"
  by (rule r_into_rtranclp)

text \<open>A \<open>Shutdown\<close> at the head can be carried out: \<open>select\<close>, asking, waiting, return.\<close>

lemma shutdown_advances:
  assumes "alive p" and "program_inv e p" and "todo p = shutdown_of h # as"
  shows "\<exists>q. program_run wk p q \<and> alive q \<and> todo q = as"
proof -
  obtain p1 where p1: "program_run wk p p1" "alive p1" "todo p1 = todo p" "hosts p1 = hosts p" "h = HttpHost \<longrightarrow> woken p1"
  proof (cases "h = HttpHost \<and> \<not> woken p")
    case True
    with assms program_step.wakes [of p as "Interrupted ''terminated''" wk]
    have "program_step wk p (p\<lparr>woken := True\<rparr>)" by (simp add: ready_def take_notice_def)
    then show ?thesis using assms(1) by (intro that [of "p\<lparr>woken := True\<rparr>"]) (auto simp: alive_def)
  qed (use assms(1) that in blast)
  let ?l = "(hosts p h)\<lparr>stop_asked := True\<rparr>" let ?p2 = "set_host h ?l p1"
  have p2: "program_run wk p1 ?p2 \<and> alive ?p2"
  proof (cases "stop_asked (hosts p h)")
    case True
    then have "?l = hosts p1 h" by (simp add: p1(4))
    then have "?p2 = p1" by (simp only: set_host_again)
    then show ?thesis using p1(2) by simp
  next
    case False
    with p1 assms(3) show ?thesis
      using program_step.asks [of p1 h as wk] by (auto intro: program_one alive_set_host)
  qed
  have "room_for_error ?l" "\<not> stop_panic ?l" "stop_asked ?l"
    using assms(2) by (simp_all add: program_inv_def host_ok_def room_for_error_def)
  then obtain m where m: "(own_step (closes_stop h))\<^sup>*\<^sup>* ?l m" "wait_result m \<noteq> None" using host_rests by blast
  with host_runs [of h ?p2 m wk] p2 have p3: "program_run wk ?p2 (set_host h m p1)" "alive (set_host h m p1)" by simp_all
  have "program_step wk (set_host h m p1) ((set_host h m p1)\<lparr>todo := as\<rparr>)"
    using p1(3) assms(3) m(2) p3(2) by (intro program_step.shut [where h = h]) simp_all
  with p1(1) p2 p3 show ?thesis
    by (intro exI [of _ "(set_host h m p1)\<lparr>todo := as\<rparr>"])
      (auto simp: alive_def intro: rtranclp_trans rtranclp.rtrancl_into_rtrancl)
qed

text \<open>Likewise \<open>Stop\<close> of the worker.\<close>

lemma Stop_life:
  assumes "life_inv l" and "length (runs l) = 1" and "stop_calls l \<le> 1" and "crash l = None" and "0 < pollInterval wk"
  obtains m n where "m = l \<or> stop_calls l = 0 \<and> life_step wk l m \<and> stop_calls m = 1" and "crash m = None"
    and "(own_life_step wk)\<^sup>*\<^sup>* m n" and "Returned \<in> set (stops n)" and "crash n = None"
proof (cases "stop_calls l")
  case 0
  let ?m = "l\<lparr>stop_calls := 1, stop_closed := True, stops := stops l @ [AwaitingDone]\<rparr>"
  have step: "life_step wk l ?m" using life_step.Stop [of l wk] assms 0 by (simp add: life_inv_def Let_def)
  with poller_rests [of ?m wk] life_inv_step [OF step] assms obtain n
    where "(own_life_step wk)\<^sup>*\<^sup>* ?m n" "Returned \<in> set (stops n)" "crash n = None" by auto
  with step assms(4) 0 that [of ?m n] show ?thesis by simp
next
  case (Suc k)
  with poller_rests [of l wk] assms that [of l] show ?thesis by auto
qed

lemma Stop_advances:
  assumes "alive p" and "program_inv e p" and "todo p = StopWorker # as" and "0 < pollInterval wk"
  shows "\<exists>q. program_run wk p q \<and> alive q \<and> todo q = as"
proof -
  from assms suffix_facts(1,3,4) [of "todo p" e] have
    "life_inv (poller p)" "length (runs (poller p)) = 1" "stop_calls (poller p) \<le> 1" "crash (poller p) = None"
    by (auto simp: program_inv_def poller_ok_def alive_def le_Suc_eq)
  then obtain l m where l: "l = poller p \<or> stop_calls (poller p) = 0 \<and> life_step wk (poller p) l \<and> stop_calls l = 1" "crash l = None"
    and m: "(own_life_step wk)\<^sup>*\<^sup>* l m" "Returned \<in> set (stops m)" "crash m = None"
    using Stop_life [of "poller p" wk] assms(4) by blast
  have "program_run wk p (p\<lparr>poller := l\<rparr>)"
    using l(1) assms(1,3) program_step.stops_poller [of p as wk l] by (auto intro: program_one)
  moreover have "program_run wk (p\<lparr>poller := l\<rparr>) (p\<lparr>poller := m\<rparr>)"
    using poller_runs [of wk "p\<lparr>poller := l\<rparr>" m] m assms(1) l(2) by (simp add: alive_def)
  moreover have "program_step wk (p\<lparr>poller := m\<rparr>) (p\<lparr>poller := m, todo := as\<rparr>)"
    using program_step.poller_stopped [of "p\<lparr>poller := m\<rparr>" as wk] assms m by (simp add: alive_def)
  ultimately show ?thesis
    using m(3) assms(1) by (intro exI [of _ "p\<lparr>poller := m, todo := as\<rparr>"])
      (auto simp: alive_def intro: rtranclp_trans rtranclp.rtrancl_into_rtrancl)
qed

lemma host_actions [simp]:
  "\<exists>h. StartRmq = start_of h" "\<exists>h. StartNats = start_of h" "\<exists>h. StartGrpc = start_of h" "\<exists>h. StartHttp = start_of h"
  "\<exists>h. ShutdownRmq = shutdown_of h" "\<exists>h. ShutdownNats = shutdown_of h" "\<exists>h. ShutdownGrpc = shutdown_of h"
  "\<exists>h. ShutdownHttp = shutdown_of h"
  by (metis start_of.simps shutdown_of.simps)+

lemma text_cases:
  "a \<in> set (control_text e) \<Longrightarrow> (\<exists>h. a = start_of h) \<or> (\<exists>h. a = shutdown_of h) \<or>
     a \<in> {StartWorker, StopWorker, ClosePublisher, CancelContext, ClosePostgres}"
  by (auto simp: control_text_def split: if_splits)

lemma action_advances:
  assumes "alive p" and "program_inv e p" and "todo p = a # as" and "0 < pollInterval wk"
  shows "\<exists>q. program_run wk p q \<and> alive q \<and> todo q = as"
proof -
  have "a \<in> set (control_text e)" using assms(2,3) suffix_facts(4) [of "todo p" e] by (auto simp: program_inv_def)
  then consider h where "a = start_of h" | h where "a = shutdown_of h" | "a = StartWorker" | "a = StopWorker"
    | "a = CancelContext" | "a = ClosePublisher \<or> a = ClosePostgres"
    using text_cases by blast
  then show ?thesis
  proof cases
    case 1
    let ?q = "set_host h ((hosts p h)\<lparr>main_at := Running\<rparr>) (p\<lparr>todo := as\<rparr>)"
    have "main_at (hosts p h) = Unstarted" using assms(2,3) 1 by (auto simp: program_inv_def host_ok_def)
    with assms 1 have "program_step wk p ?q" by (intro program_step.starts) simp_all
    then show ?thesis using assms(1) by (intro exI [of _ ?q]) (auto simp: alive_def intro: program_one)
  next
    case 3
    let ?l = "(poller p)\<lparr>runs := runs (poller p) @ [Spawned],
        world := lg_Info (worker_log wk) ''eventbus worker - started'' [] (world (poller p))\<rparr>"
    have "program_step wk p (p\<lparr>poller := ?l, todo := as\<rparr>)"
      using assms(1,3) 3 life_step.Start [of "poller p" wk] by (intro program_step.starts_poller) (simp_all add: alive_def)
    then show ?thesis using assms(1) by (intro exI [of _ "p\<lparr>poller := ?l, todo := as\<rparr>"]) (auto simp: alive_def intro: program_one)
  next
    case 5
    let ?q = "p\<lparr>poller := (poller p)\<lparr>ctx_done := True\<rparr>, todo := as\<rparr>"
    have "program_step wk p ?q" using assms(1,3) 5 by (intro program_step.cancels) simp_all
    then show ?thesis using assms(1) by (intro exI [of _ ?q]) (auto simp: alive_def intro: program_one)
  next
    case 6
    have "program_step wk p (p\<lparr>todo := as\<rparr>)" using assms(1,3) 6 by (intro program_step.closes) simp_all
    then show ?thesis using assms(1) by (intro exI [of _ "p\<lparr>todo := as\<rparr>"]) (auto simp: alive_def intro: program_one)
  qed (use assms shutdown_advances Stop_advances in blast)+
qed

lemma program_ends:
  assumes "alive p" and "program_inv e p" and "0 < pollInterval wk"
  shows "\<exists>q. program_run wk p q \<and> alive q \<and> todo q = []"
  using assms(1,2)
proof (induction "todo p" arbitrary: p)
  case (Cons a as)
  from action_advances [OF Cons.prems Cons.hyps(2) [symmetric] assms(3)] obtain q where
    q: "program_run wk p q" "alive q" "todo q = as" by blast
  from Cons.hyps(1) [of q] q program_inv_run [OF q(1) Cons.prems(2)] show ?case by (auto intro: rtranclp_trans)
qed auto


lemma nothing_to_do_step: "program_step wk p q \<Longrightarrow> todo p = [] \<Longrightarrow> todo q = []"
  by (induction rule: program_step.induct) auto

lemma nothing_to_do: "program_run wk p q \<Longrightarrow> todo p = [] \<Longrightarrow> todo q = []"
  by (induction rule: rtranclp_induct) (auto dest: nothing_to_do_step)

text \<open>Seen from the worker, the program is its life cycle.\<close>

lemma poller_follows: "program_step wk p q \<Longrightarrow> poller q = poller p \<or> life_step wk (poller p) (poller q)"
  by (induction rule: program_step.induct) (auto simp: own_life_step_def alive_def intro: life_step.cancel)

lemma closing_comes_last:
  assumes "suffix as (control_text e)" and "ClosePostgres \<notin> set as \<or> e \<and> ClosePublisher \<notin> set as"
  shows "shutdown_of h \<notin> set as" and "StopWorker \<notin> set as"
proof -
  obtain xs where xs: "control_text e = xs @ as" using assms(1) by (auto simp: suffix_def)
  show "shutdown_of h \<notin> set as"
    using assms(2) xs by (cases e; cases h) (auto simp: control_text_def append_eq_Cons_conv Cons_eq_append_conv)
  show "StopWorker \<notin> set as"
    using assms(2) xs by (cases e) (auto simp: control_text_def append_eq_Cons_conv Cons_eq_append_conv)
qed

lemma idle_stays:
  assumes "program_run wk p q" and "program_inv e p" and "set (runs (poller p)) \<subseteq> {run_phase.Finished}"
    and "e \<longrightarrow> runs (poller p) \<noteq> []"
  shows "set (runs (poller q)) \<subseteq> {run_phase.Finished} \<and> cycles (poller q) = cycles (poller p) \<and> (e \<longrightarrow> runs (poller q) \<noteq> [])"
  using assms(1)
proof (induction rule: rtranclp_induct)
  case (step q r)
  have "program_inv e q" "program_inv e r"
    using program_inv_run [OF step(1) assms(2)] program_inv_step [OF step(2)] by blast+
  then have "length (runs (poller r)) \<le> length (runs (poller q))"
    using step.IH by (cases "runs (poller q)"; cases e) (auto simp: program_inv_def poller_ok_def)
  with poller_follows [OF step(2)] step.IH finished_no_cycle [of wk "poller q" "poller r"] runs_grow [of wk "poller q" "poller r"]
  show ?case by auto
qed (use assms(3,4) in simp)

section \<open>Properties\<close>

text \<open>
  With servers that keep to their protocol and a worker whose poll interval is positive, the program can be
  brought down: from every state it can reach without a panic, whatever its servers and its worker are doing
  and whichever of them have failed, it can go on so that \<open>Run\<close> comes to its end. What the libraries of the
  servers can add to that is in the theory \<open>ProgramLife\<close>.
\<close>

theorem program_can_be_brought_down:
  assumes "program_run wk (new_program cfg an w) p" and "alive p" and "0 < pollInterval wk"
  shows "\<exists>q. program_run wk p q \<and> alive q \<and> todo q = []"
proof (cases "todo (new_program cfg an w) = []")
  case True
  with nothing_to_do [OF assms(1)] assms(2) show ?thesis by auto
next
  case False
  from program_ends [OF assms(2) program_inv_run [OF assms(1) program_inv_new [OF False]] assms(3)] show ?thesis .
qed

lemma sample_program: "todo (new_program sample_config sample_answers w) = control_text True"
  using Run_control [of sample_config sample_answers]
  by (simp add: new_program_def sample_config_def sample_answers_def control_text_def)

lemma program_can_be_brought_down_witness:
  "\<exists>q. program_run demo_worker (new_program sample_config sample_answers sample_system) q \<and> todo q = []"
proof -
  have "alive (new_program sample_config sample_answers sample_system)"
    by (simp add: alive_def new_program_def new_life_of_server_def new_life_def)
  from program_can_be_brought_down [OF rtranclp.rtrancl_refl this, of demo_worker] show ?thesis by auto
qed

text \<open>
  Nothing is closed under the feet of its user: when the publisher or the pool of connections has been
  closed, every server's goroutine has finished and was waited for, the goroutine of the outbox worker
  has returned, and no cycle of it runs any more.
\<close>

theorem closed_when_idle:
  assumes "program_run wk (new_program cfg an w) p" and "todo (new_program cfg an w) \<noteq> []" and "alive p"
    and "ClosePostgres \<notin> set (todo p) \<or> cfg_Outbox_Enabled cfg \<and> ClosePublisher \<notin> set (todo p)"
  shows "(\<forall>h. \<exists>r. main_at (hosts p h) = main_phase.Finished r \<and> wait_result (hosts p h) \<noteq> None) \<and>
    set (runs (poller p)) \<subseteq> {run_phase.Finished} \<and>
    (\<forall>q. program_run wk p q \<longrightarrow> cycles (poller q) = cycles (poller p))"
proof -
  let ?e = "cfg_Outbox_Enabled cfg"
  have inv: "program_inv ?e p" using program_inv_run [OF assms(1) program_inv_new [OF assms(2)]] .
  then have suf: "suffix (todo p) (control_text ?e)" and hosts: "\<And>h. host_ok (todo p) h (hosts p h)"
    and poll: "poller_ok ?e (todo p) (poller p)" by (simp_all add: program_inv_def)
  note last = closing_comes_last [OF suf assms(4)]
  have "StartWorker \<notin> set (todo p)" using suffix_facts(3) [OF suf] last(2) by (auto dest: set_tl)
  moreover have idle: "set (runs (poller p)) \<subseteq> {run_phase.Finished}"
  proof (cases ?e)
    case True
    with poll last(2) assms(3) show ?thesis
      by (intro returned_all_finished) (auto simp: poller_ok_def alive_def)
  next
    case False
    with poll show ?thesis by (simp add: poller_ok_def)
  qed
  ultimately have "cycles (poller q) = cycles (poller p)" if "program_run wk p q" for q
    using idle_stays [OF that inv] poll by (auto simp: poller_ok_def)
  with idle hosts last(1) show ?thesis by (fastforce simp: host_ok_def)
qed

lemma closed_when_idle_witness:
  "\<exists>q :: outbox_system program. set (runs (poller q)) \<subseteq> {run_phase.Finished} \<and> (\<exists>r. main_at (hosts q HttpHost) = main_phase.Finished r)"
proof -
  let ?p = "new_program sample_config sample_answers sample_system"
  have start: "alive ?p" "todo ?p \<noteq> []" by (simp_all add: alive_def sample_program control_text_def)
    (simp_all add: new_program_def new_life_of_server_def new_life_def)
  then obtain q where q: "program_run demo_worker ?p q" "alive q" "todo q = []"
    using program_ends [OF start(1) program_inv_new [OF start(2)], of demo_worker] by auto
  from closed_when_idle [OF q(1) start(2) q(2)] q(3) show ?thesis by auto
qed


section \<open>Hearing of failures\<close>

text \<open>Until \<open>Run\<close> is woken every error that was sent is still in its channel, and a closed channel has one.\<close>

definition unheard :: "server_life \<Rightarrow> bool" where
  "unheard l \<longleftrightarrow> (\<forall>e. main_at l = Signalled e \<or> main_at l = main_phase.Finished (Some e) \<longrightarrow> notice l = Some e) \<and>
     (note_closed l \<longrightarrow> (\<exists>e. main_at l = main_phase.Finished (Some e)))"

lemma unheard_own:
  assumes "own_step closes l m" and "unheard l"
  shows "unheard m"
proof -
  from assms(1) have "server_step closes l m" and kept: "notice l \<noteq> None \<longrightarrow> notice m = notice l"
    by (simp_all add: own_step_def)
  from this(1) kept assms(2) show ?thesis by (induction rule: server_step.induct) (auto simp: unheard_def)
qed

lemma unheard_step:
  assumes "program_step wk p q" and "\<not> woken p \<longrightarrow> (\<forall>h. unheard (hosts p h))"
  shows "\<not> woken q \<longrightarrow> (\<forall>h. unheard (hosts q h))"
  using assms
proof (induction rule: program_step.induct)
  case (host_works p h l)
  then show ?case using unheard_own [of "closes_stop h" "hosts p h" l] by auto
qed (auto simp: unheard_def)

lemma own_room: "own_step closes l m \<Longrightarrow> room_for_error l \<Longrightarrow> room_for_error m"
  by (auto simp: own_step_def intro: room_for_error_step)

lemma room_step:
  assumes "program_step wk p q" and "\<forall>h. room_for_error (hosts p h)"
  shows "\<forall>h. room_for_error (hosts q h)"
  using assms
proof (induction rule: program_step.induct)
  case (starts p h as)
  then have "notice (hosts p h) = None" by (force simp: room_for_error_def)
  with starts show ?case by (simp add: room_for_error_def)
next
  case (asks p h as)
  then show ?case by (auto simp: room_for_error_def)
qed (auto simp: take_notice_def intro: own_room split: option.splits prod.splits)

lemma heard_run:
  assumes "program_run wk (new_program cfg an w) p"
  shows "(\<forall>h. room_for_error (hosts p h)) \<and> (\<not> woken p \<longrightarrow> (\<forall>h. unheard (hosts p h)))"
  using assms
proof (induction rule: rtranclp_induct)
  case base
  show ?case by (simp add: new_program_def) (simp add: unheard_def new_life_of_server_def)
next
  case (step q r)
  with unheard_step [OF step(2)] room_step [OF step(2)] show ?case by blast
qed

fun notify_at :: "host \<Rightarrow> goerr option \<Rightarrow> wake" where
  "notify_at HttpHost r = HttpNotify r"
| "notify_at GrpcHost r = GrpcNotify r"
| "notify_at RmqHost r = RmqNotify r"
| "notify_at NatsHost r = NatsNotify r"

lemma notify_of_at [simp]: "notify_of (notify_at h r) = Some (h, r)"
  by (cases h) simp_all

lemma ready_at:
  assumes "room_for_error (hosts p h)" and "unheard (hosts p h)"
  shows "ready (notify_at h r) p \<longleftrightarrow>
    (\<exists>e. r = Some e \<and> (main_at (hosts p h) = Signalled e \<or> main_at (hosts p h) = main_phase.Finished (Some e)))"
  using assms by (cases r) (auto simp: ready_def unheard_def room_for_error_def)

text \<open>
  C27. \<open>Run\<close> hears of every failure and of nothing else: while it waits, the channel \<open>notify\<close> of a server is
  ready exactly with the error of a goroutine that has failed and sent it, never with nil; and a server
  that fails can send at once, whatever the other servers do, and then \<open>Run\<close> can be woken by it.
\<close>

theorem Run_hears_of_failures:
  assumes "program_run wk (new_program cfg an w) p" and "alive p" and "\<not> woken p"
  shows "(\<forall>h r. ready (notify_at h r) p \<longleftrightarrow>
      (\<exists>e. r = Some e \<and> (main_at (hosts p h) = Signalled e \<or> main_at (hosts p h) = main_phase.Finished (Some e)))) \<and>
    (\<forall>h e. main_at (hosts p h) = Failing e \<longrightarrow>
      (\<exists>q. program_step wk p q \<and> todo q = todo p \<and> ready (notify_at h (Some e)) q))"
proof (intro conjI allI impI)
  fix h r
  show "ready (notify_at h r) p \<longleftrightarrow>
      (\<exists>e. r = Some e \<and> (main_at (hosts p h) = Signalled e \<or> main_at (hosts p h) = main_phase.Finished (Some e)))"
    using heard_run [OF assms(1)] assms(3) by (intro ready_at) simp_all
next
  fix h e
  let ?m = "(hosts p h)\<lparr>main_at := Signalled e, notice := Some e\<rparr>"
  assume failing: "main_at (hosts p h) = Failing e"
  with heard_run [OF assms(1)] have "notice (hosts p h) = None" by (force simp: room_for_error_def)
  with failing assms(2) have "own_step (closes_stop h) (hosts p h) ?m"
    using server_step.send [of "hosts p h" e "closes_stop h"] by (simp add: own_step_def alive_def)
  from program_step.host_works [OF assms(2) this] show "\<exists>q. program_step wk p q \<and> todo q = todo p \<and> ready (notify_at h (Some e)) q"
    by (intro exI [of _ "set_host h ?m p"]) (simp add: ready_def)
qed

lemma Run_hears_of_failures_witness:
  "\<exists>p :: outbox_system program. \<exists>q. main_at (hosts p RmqHost) = Failing Canceled \<and> program_step demo_worker p q \<and>
     ready (RmqNotify (Some Canceled)) q \<and> \<not> ready (RmqNotify None) p"
proof -
  let ?n = "new_program sample_config sample_answers sample_system"
  let ?s = "set_host RmqHost ((hosts ?n RmqHost)\<lparr>main_at := Running\<rparr>) (?n\<lparr>todo := tl (control_text True)\<rparr>)"
  let ?p = "set_host RmqHost ((hosts ?s RmqHost)\<lparr>main_at := Failing Canceled\<rparr>) ?s"
  have new: "hosts ?n = (\<lambda>h. new_life_of_server)" "poller ?n = new_life sample_system" "\<not> woken ?n"
    "todo ?n = start_of RmqHost # tl (control_text True)"
    using sample_program [of sample_system] by (simp_all add: new_program_def control_text_def)
  have "program_step demo_worker ?n ?s"
    using new by (intro program_step.starts) (simp_all add: alive_def new_life_of_server_def new_life_def)
  moreover have "own_step (closes_stop RmqHost) (hosts ?s RmqHost) ((hosts ?s RmqHost)\<lparr>main_at := Failing Canceled\<rparr>)"
    using server_step.main_fails [of "hosts ?s RmqHost" True Canceled] new by (simp add: own_step_def new_life_of_server_def)
  then have "program_step demo_worker ?s ?p"
    using new by (intro program_step.host_works) (simp_all add: alive_def new_life_of_server_def new_life_def)
  ultimately have run: "program_run demo_worker ?n ?p" by simp
  have "alive ?p" "\<not> woken ?p" using new by (simp_all add: alive_def new_life_of_server_def new_life_def)
  note heard = Run_hears_of_failures [OF run this]
  have failing: "main_at (hosts ?p RmqHost) = Failing Canceled" by simp
  with heard obtain q where "program_step demo_worker ?p q" "ready (notify_at RmqHost (Some Canceled)) q" by blast
  moreover have "\<not> ready (notify_at RmqHost None) ?p" using heard by (metis option.distinct(1))
  ultimately show ?thesis using failing by (metis notify_at.simps(3))
qed

end
