(* ===== verification/ProgramLife.thy ===== *)
theory ProgramLife
  imports AppLife ServerLife
begin

text \<open>
  The whole program with its servers in full: the thread of \<open>Run\<close> of \<open>internal/app/app.go\<close> beside the
  RabbitMQ, NATS, gRPC and HTTP servers of the theory \<open>ServerLife\<close>, each with its driver, its log and its
  calls, and the outbox worker. It refines the program of the theory \<open>AppLife\<close>; what is added is
  what \<open>Shutdown\<close> does after the wait, so also its panic over a lost connection.
\<close>

section \<open>The parts\<close>

datatype ('a, 'b, 'c) service =
    RmqService "'a rmq_life"
  | NatsService "'b nats_life"
  | GrpcService "'c host_life"
  | HttpService "'c host_life"

text \<open>What the constructors were given; nothing changes it.\<close>

record ('a, 'u, 'b, 'v, 'c) deployment =
  dp_queue_name :: "nat \<Rightarrow> string"
  dp_rmq :: "('a, 'u) rmq_server"
  dp_subject :: string
  dp_connection :: nat
  dp_nats :: "('b, 'v) nats_server"
  dp_grpc_address :: string
  dp_http :: http_server
  dp_log :: "'c logger"

inductive service_step ::
  "('a, 'u, 'b, 'v, 'c) deployment \<Rightarrow> ('a, 'b, 'c) service \<Rightarrow> ('a, 'b, 'c) service \<Rightarrow> bool"
  for d :: "('a, 'u, 'b, 'v, 'c) deployment" where
  rmq: "rmq_life_step (dp_queue_name d) (dp_rmq d) l m \<Longrightarrow> service_step d (RmqService l) (RmqService m)"
| nats: "nats_life_step (dp_subject d) (dp_connection d) (dp_nats d) l m \<Longrightarrow> service_step d (NatsService l) (NatsService m)"
| grpc: "grpc_life_step (dp_grpc_address d) (dp_log d) l m \<Longrightarrow> service_step d (GrpcService l) (GrpcService m)"
| http: "http_life_step (dp_http d) (dp_log d) l m \<Longrightarrow> service_step d (HttpService l) (HttpService m)"

inductive_cases rmq_serviceE: "service_step d (RmqService l) s"
inductive_cases nats_serviceE: "service_step d (NatsService l) s"
inductive_cases grpc_serviceE: "service_step d (GrpcService l) s"
inductive_cases http_serviceE: "service_step d (HttpService l) s"

fun service_host :: "('a, 'b, 'c) service \<Rightarrow> host" where
  "service_host (RmqService l) = RmqHost"
| "service_host (NatsService l) = NatsHost"
| "service_host (GrpcService l) = GrpcHost"
| "service_host (HttpService l) = HttpHost"

text \<open>The part of a server that \<open>Run\<close> deals with: goroutine, \<open>notify\<close>, asking and waiting.\<close>

fun service_life :: "('a, 'b, 'c) service \<Rightarrow> server_life" where
  "service_life (RmqService l) = life_of l"
| "service_life (NatsService l) = life_of l"
| "service_life (GrpcService l) = calm_life l"
| "service_life (HttpService l) = calm_life l"

text \<open>How its \<open>Shutdown\<close> ended.\<close>

fun service_down :: "('a, 'b, 'c) service \<Rightarrow> shut_phase" where
  "service_down (RmqService l) = rl_down l"
| "service_down (NatsService l) = nl_down l"
| "service_down (GrpcService l) = hl_down l"
| "service_down (HttpService l) = hl_down l"

text \<open>No handler of it has panicked.\<close>

fun service_up :: "('a, 'b, 'c) service \<Rightarrow> bool" where
  "service_up (RmqService l) \<longleftrightarrow> rl_up l"
| "service_up (NatsService l) \<longleftrightarrow> nl_up l"
| "service_up (GrpcService l) \<longleftrightarrow> True"
| "service_up (HttpService l) \<longleftrightarrow> True"

lemma service_step_host: "service_step d s t \<Longrightarrow> service_host t = service_host s"
  by (induction rule: service_step.induct) simp_all

interpretation served: hosted_server "\<lambda>s t. service_host s = h \<and> service_step d s t" service_life "closes_stop h"
proof (unfold_locales, elim conjE)
  fix s t :: "('a, 'b, 'c) service"
  assume "service_step d s t" and "service_host s = h"
  then show "service_life t = service_life s \<or> server_step (closes_stop h) (service_life s) (service_life t)"
    by (induction rule: service_step.induct)
      (auto dest: rmq_hosted.follows nats_hosted.follows grpc_hosted.follows http_hosted.follows)
qed

text \<open>The end of \<open>Shutdown\<close>, after the wait: it closes and logs, and changes nothing that \<open>Run\<close> sees.\<close>

lemma service_shuts:
  assumes "service_step d s t" and "service_down t \<noteq> service_down s"
  shows "service_life t = service_life s" and "wait_result (service_life s) \<noteq> None"
proof -
  have "service_life t = service_life s \<and> wait_result (service_life s) \<noteq> None" using assms
  proof (induction rule: service_step.induct)
    case (rmq l m)
    then show ?case by (cases rule: rmq_life_step.cases) (auto dest: rl_frames(1,2) simp: rl_frames(3))
  next
    case (nats l m)
    then show ?case by (cases rule: nats_life_step.cases) (auto dest: nl_frames(1,2) simp: nl_frames(3))
  next
    case (grpc l m)
    then show ?case by (cases rule: grpc_life_step.cases) (auto elim: report_step.cases wait_step.cases)
  next
    case (http l m)
    then show ?case by (cases rule: http_life_step.cases) (auto elim: report_step.cases wait_step.cases)
  qed
  then show "service_life t = service_life s" "wait_result (service_life s) \<noteq> None" by simp_all
qed

text \<open>
  What a server does without \<open>Run\<close>, as \<^const>\<open>own_step\<close> of the theory \<open>AppLife\<close>: it does not start itself, ask
  itself to stop, read its \<open>notify\<close> or run its \<open>Shutdown\<close>.
\<close>

definition works_alone :: "server_life \<Rightarrow> server_life \<Rightarrow> bool" where
  "works_alone l m \<longleftrightarrow> stop_asked m = stop_asked l \<and> stop_panic m = stop_panic l \<and>
     (main_at m = Unstarted \<longleftrightarrow> main_at l = Unstarted) \<and> (notice l \<noteq> None \<longrightarrow> notice m = notice l)"

definition service_alone ::
  "('a, 'u, 'b, 'v, 'c) deployment \<Rightarrow> ('a, 'b, 'c) service \<Rightarrow> ('a, 'b, 'c) service \<Rightarrow> bool" where
  "service_alone d s t \<longleftrightarrow> service_step d s t \<and> works_alone (service_life s) (service_life t) \<and> service_down t = service_down s"

section \<open>The program\<close>

text \<open>
  \<open>ws_agenda\<close> is what \<open>Run\<close> has still to do, as \<open>todo\<close> of the theory \<open>AppLife\<close>; \<open>ws_fallen\<close> says that \<open>Run\<close>
  has panicked, after which only its deferred calls are made.
\<close>

record ('a, 'b, 'c, 'w) whole =
  ws_services :: "host \<Rightarrow> ('a, 'b, 'c) service"
  ws_outbox :: "'w life"
  ws_agenda :: "app_action list"
  ws_awake :: bool
  ws_fallen :: bool

fun new_service :: "'a rmq_world \<Rightarrow> 'b nats_world \<Rightarrow> 'c \<Rightarrow> host \<Rightarrow> ('a, 'b, 'c) service" where
  "new_service w1 w2 w3 RmqHost = RmqService (new_rmq_life w1)"
| "new_service w1 w2 w3 NatsHost = NatsService (new_nats_life w2)"
| "new_service w1 w2 w3 GrpcHost = GrpcService (new_host_life w3)"
| "new_service w1 w2 w3 HttpHost = HttpService (new_host_life w3)"

definition new_whole ::
  "config \<Rightarrow> app_answers \<Rightarrow> 'w \<Rightarrow> (host \<Rightarrow> ('a, 'b, 'c) service) \<Rightarrow> ('a, 'b, 'c, 'w) whole" where
  "new_whole cfg an w services = \<lparr>ws_services = services, ws_outbox = new_life w,
     ws_agenda = filter is_control (Run cfg an), ws_awake = False, ws_fallen = False\<rparr>"

definition whole_up :: "('a, 'b, 'c, 'w) whole \<Rightarrow> bool" where
  "whole_up p \<longleftrightarrow> crash (ws_outbox p) = None \<and> (\<forall>h. service_up (ws_services p h))"

definition put_service :: "host \<Rightarrow> ('a, 'b, 'c) service \<Rightarrow> ('a, 'b, 'c, 'w) whole \<Rightarrow> ('a, 'b, 'c, 'w) whole" where
  "put_service h s p = p\<lparr>ws_services := (ws_services p)(h := s)\<rparr>"

text \<open>The calls that were deferred: \<open>cancel\<close> and \<open>pg.Close\<close>.\<close>

definition deferred :: "app_action list \<Rightarrow> app_action list" where
  "deferred = filter (\<lambda>a. a \<in> {CancelContext, ClosePostgres})"

inductive whole_step ::
  "('a, 'u, 'b, 'v, 'c) deployment \<Rightarrow> 'w worker \<Rightarrow> ('a, 'b, 'c, 'w) whole \<Rightarrow> ('a, 'b, 'c, 'w) whole \<Rightarrow> bool"
  for d :: "('a, 'u, 'b, 'v, 'c) deployment" and wk :: "'w worker" where
  service_works: "whole_up p \<Longrightarrow> service_alone d (ws_services p h) s \<Longrightarrow> whole_step d wk p (put_service h s p)"
| outbox_works: "whole_up p \<Longrightarrow> own_life_step wk (ws_outbox p) l \<Longrightarrow> whole_step d wk p (p\<lparr>ws_outbox := l\<rparr>)"
| starts: "whole_up p \<Longrightarrow> ws_agenda p = start_of h # as \<Longrightarrow> service_step d (ws_services p h) s \<Longrightarrow>
     main_at (service_life (ws_services p h)) = Unstarted \<Longrightarrow> main_at (service_life s) = Running \<Longrightarrow>
     whole_step d wk p (put_service h s (p\<lparr>ws_agenda := as\<rparr>))"
| starts_outbox: "whole_up p \<Longrightarrow> ws_agenda p = StartWorker # as \<Longrightarrow> life_step wk (ws_outbox p) l \<Longrightarrow>
     runs l = runs (ws_outbox p) @ [Spawned] \<Longrightarrow> whole_step d wk p (p\<lparr>ws_outbox := l, ws_agenda := as\<rparr>)"
| signalled: "whole_up p \<Longrightarrow> ws_agenda p = ShutdownHttp # as \<Longrightarrow> \<not> ws_awake p \<Longrightarrow>
     whole_step d wk p (p\<lparr>ws_awake := True\<rparr>)"
| hears: "whole_up p \<Longrightarrow> ws_agenda p = ShutdownHttp # as \<Longrightarrow> \<not> ws_awake p \<Longrightarrow>
     notice (service_life (ws_services p h)) = Some e \<Longrightarrow> service_step d (ws_services p h) s \<Longrightarrow>
     notice (service_life s) = None \<Longrightarrow> whole_step d wk p ((put_service h s p)\<lparr>ws_awake := True\<rparr>)"
| hears_nil: "whole_up p \<Longrightarrow> ws_agenda p = ShutdownHttp # as \<Longrightarrow> \<not> ws_awake p \<Longrightarrow>
     notice (service_life (ws_services p h)) = None \<Longrightarrow> note_closed (service_life (ws_services p h)) \<Longrightarrow>
     whole_step d wk p (p\<lparr>ws_awake := True\<rparr>)"
| asks: "whole_up p \<Longrightarrow> ws_agenda p = shutdown_of h # as \<Longrightarrow> h = HttpHost \<longrightarrow> ws_awake p \<Longrightarrow>
     service_step d (ws_services p h) s \<Longrightarrow> \<not> stop_asked (service_life (ws_services p h)) \<Longrightarrow> stop_asked (service_life s) \<Longrightarrow>
     whole_step d wk p (put_service h s p)"
| shuts: "whole_up p \<Longrightarrow> ws_agenda p = shutdown_of h # as \<Longrightarrow> service_step d (ws_services p h) s \<Longrightarrow>
     service_down (ws_services p h) = NotShut \<Longrightarrow> service_down s = Shut r \<Longrightarrow>
     whole_step d wk p ((put_service h s p)\<lparr>ws_agenda := as\<rparr>)"
| shuts_on_nil: "whole_up p \<Longrightarrow> ws_agenda p = shutdown_of h # as \<Longrightarrow> service_step d (ws_services p h) s \<Longrightarrow>
     service_down (ws_services p h) = NotShut \<Longrightarrow> service_down s = ShutOnNil \<Longrightarrow>
     whole_step d wk p ((put_service h s p)\<lparr>ws_agenda := deferred as, ws_fallen := True\<rparr>)"
| stops_outbox: "whole_up p \<Longrightarrow> ws_agenda p = StopWorker # as \<Longrightarrow> stop_calls (ws_outbox p) = 0 \<Longrightarrow>
     life_step wk (ws_outbox p) l \<Longrightarrow> stop_calls l = 1 \<Longrightarrow> whole_step d wk p (p\<lparr>ws_outbox := l\<rparr>)"
| outbox_stopped: "whole_up p \<Longrightarrow> ws_agenda p = StopWorker # as \<Longrightarrow> Returned \<in> set (stops (ws_outbox p)) \<Longrightarrow>
     whole_step d wk p (p\<lparr>ws_agenda := as\<rparr>)"
| cancels: "whole_up p \<Longrightarrow> ws_agenda p = CancelContext # as \<Longrightarrow>
     whole_step d wk p (p\<lparr>ws_outbox := (ws_outbox p)\<lparr>ctx_done := True\<rparr>, ws_agenda := as\<rparr>)"
| closes: "whole_up p \<Longrightarrow> ws_agenda p = a # as \<Longrightarrow> a = ClosePublisher \<or> a = ClosePostgres \<Longrightarrow>
     whole_step d wk p (p\<lparr>ws_agenda := as\<rparr>)"

abbreviation whole_run ::
  "('a, 'u, 'b, 'v, 'c) deployment \<Rightarrow> 'w worker \<Rightarrow> ('a, 'b, 'c, 'w) whole \<Rightarrow> ('a, 'b, 'c, 'w) whole \<Rightarrow> bool" where
  "whole_run d wk \<equiv> (whole_step d wk)\<^sup>*\<^sup>*"

lemma put_service_sel [simp]:
  "ws_services (put_service h s p) = (ws_services p)(h := s)" "ws_outbox (put_service h s p) = ws_outbox p"
  "ws_agenda (put_service h s p) = ws_agenda p" "ws_awake (put_service h s p) = ws_awake p"
  "ws_fallen (put_service h s p) = ws_fallen p"
  by (simp_all add: put_service_def)

section \<open>It refines the program of \<open>AppLife\<close>\<close>

definition program_of :: "('a, 'b, 'c, 'w) whole \<Rightarrow> 'w program" where
  "program_of p = \<lparr>hosts = (\<lambda>h. service_life (ws_services p h)), poller = ws_outbox p, todo = ws_agenda p, woken = ws_awake p\<rparr>"

definition hosted :: "('a, 'b, 'c, 'w) whole \<Rightarrow> bool" where
  "hosted p \<longleftrightarrow> (\<forall>h. service_host (ws_services p h) = h)"

lemma program_of_sel [simp]:
  "hosts (program_of p) h = service_life (ws_services p h)" "poller (program_of p) = ws_outbox p"
  "todo (program_of p) = ws_agenda p" "woken (program_of p) = ws_awake p"
  by (simp_all add: program_of_def)

lemma program_of_update [simp]:
  "program_of (put_service h s p) = set_host h (service_life s) (program_of p)"
  "program_of (p\<lparr>ws_agenda := as\<rparr>) = (program_of p)\<lparr>todo := as\<rparr>"
  "program_of (p\<lparr>ws_outbox := l\<rparr>) = (program_of p)\<lparr>poller := l\<rparr>"
  "program_of (p\<lparr>ws_awake := b\<rparr>) = (program_of p)\<lparr>woken := b\<rparr>"
  "program_of (p\<lparr>ws_fallen := b\<rparr>) = program_of p"
  by (auto simp: program_of_def put_service_def set_host_def)

lemma no_notice [simp]: "notice l = None \<Longrightarrow> l\<lparr>notice := None\<rparr> = l"
  by (cases l) simp

lemma service_up_calm: "service_up s \<Longrightarrow> \<not> stop_panic (service_life s)"
  by (cases s) (simp_all add: rl_up_def nl_up_def)

lemma whole_up_alive: "whole_up p \<Longrightarrow> alive (program_of p)"
  by (simp add: whole_up_def alive_def service_up_calm)

lemma hosted_step: "whole_step d wk p q \<Longrightarrow> hosted p \<Longrightarrow> hosted q"
  by (induction rule: whole_step.induct) (auto simp: hosted_def service_alone_def dest: service_step_host)

lemma fallen_stays: "whole_step d wk p q \<Longrightarrow> ws_fallen p \<Longrightarrow> ws_fallen q"
  by (induction rule: whole_step.induct) simp_all

text \<open>What a step of the protocol is when it starts, asks or takes the error out.\<close>

lemma step_that_starts: "server_step closes l m \<Longrightarrow> main_at l = Unstarted \<Longrightarrow> main_at m = Running \<Longrightarrow> m = l\<lparr>main_at := Running\<rparr>"
  by (induction rule: server_step.induct) auto

lemma step_that_asks: "server_step closes l m \<Longrightarrow> \<not> stop_asked l \<Longrightarrow> stop_asked m \<Longrightarrow> m = l\<lparr>stop_asked := True\<rparr>"
  by (induction rule: server_step.induct) auto

lemma step_that_takes: "server_step closes l m \<Longrightarrow> notice l = Some e \<Longrightarrow> notice m = None \<Longrightarrow> m = l\<lparr>notice := None\<rparr>"
  by (induction rule: server_step.induct) auto

lemma service_follows:
  assumes "hosted p" and "service_step d (ws_services p h) s"
  shows "service_life s = service_life (ws_services p h) \<or>
    server_step (closes_stop h) (service_life (ws_services p h)) (service_life s)"
  using assms by (intro served.follows) (simp add: hosted_def)

lemma whole_step_follows:
  assumes "whole_step d wk p q" and "hosted p" and "\<not> ws_fallen q"
  shows "program_of q = program_of p \<or> program_step wk (program_of p) (program_of q)"
  using assms
proof (induction rule: whole_step.induct)
  case (service_works p h s)
  with service_follows [of p d h s] have "service_life s = service_life (ws_services p h) \<or>
      own_step (closes_stop h) (service_life (ws_services p h)) (service_life s)"
    by (auto simp: service_alone_def works_alone_def own_step_def)
  then show ?case
  proof
    assume "service_life s = service_life (ws_services p h)"
    then show ?thesis by (simp flip: program_of_sel(1))
  next
    assume "own_step (closes_stop h) (service_life (ws_services p h)) (service_life s)"
    with service_works(1) show ?thesis by (auto intro: program_step.host_works whole_up_alive)
  qed
next
  case (outbox_works p l)
  then show ?case by (auto intro: program_step.poller_works whole_up_alive)
next
  case (starts p h as s)
  with service_follows [of p d h s] step_that_starts [of "closes_stop h" "service_life (ws_services p h)" "service_life s"]
  have "service_life s = (service_life (ws_services p h))\<lparr>main_at := Running\<rparr>" by auto
  with starts program_step.starts [of "program_of p" h as wk] show ?case by (simp add: whole_up_alive)
next
  case (starts_outbox p as l)
  with program_step.starts_poller [of "program_of p" as wk l] show ?case by (simp add: whole_up_alive)
next
  case (signalled p as)
  with program_step.wakes [of "program_of p" as "Interrupted ''terminated''" wk] show ?case
    by (simp add: whole_up_alive ready_def take_notice_def)
next
  case (hears p as h e s)
  with service_follows [of p d h s] step_that_takes [of "closes_stop h" "service_life (ws_services p h)" "service_life s" e]
  have "service_life s = (service_life (ws_services p h))\<lparr>notice := None\<rparr>" by auto
  with hears program_step.wakes [of "program_of p" as "notify_at h (Some e)" wk] show ?case
    by (simp add: whole_up_alive ready_def take_notice_def)
next
  case (hears_nil p as h)
  then have "(hosts (program_of p) h)\<lparr>notice := None\<rparr> = hosts (program_of p) h" by simp
  then have "take_notice (notify_at h None) (program_of p) = program_of p" by (simp add: take_notice_def del: program_of_sel)
  with hears_nil program_step.wakes [of "program_of p" as "notify_at h None" wk] show ?case
    by (simp add: whole_up_alive ready_def)
next
  case (asks p h as s)
  with service_follows [of p d h s] step_that_asks [of "closes_stop h" "service_life (ws_services p h)" "service_life s"]
  have "service_life s = (service_life (ws_services p h))\<lparr>stop_asked := True\<rparr>" by auto
  with asks program_step.asks [of "program_of p" h as wk] show ?case by (simp add: whole_up_alive)
next
  case (shuts p h as s r)
  then have "service_down s \<noteq> service_down (ws_services p h)" by simp
  with service_shuts [OF shuts(3)] have "service_life s = service_life (ws_services p h)"
    "wait_result (service_life (ws_services p h)) \<noteq> None" by simp_all
  with shuts program_step.shut [of "program_of p" h as wk] show ?case
    by (simp add: whole_up_alive flip: program_of_sel(1))
next
  case (stops_outbox p as l)
  with program_step.stops_poller [of "program_of p" as wk l] show ?case by (simp add: whole_up_alive)
next
  case (outbox_stopped p as)
  with program_step.poller_stopped [of "program_of p" as wk] show ?case by (simp add: whole_up_alive)
next
  case (cancels p as)
  with program_step.cancels [of "program_of p" as wk] show ?case by (simp add: whole_up_alive)
next
  case (closes p a as)
  with program_step.closes [of "program_of p" a as wk] show ?case by (simp add: whole_up_alive)
qed simp

lemma whole_run_follows:
  assumes "whole_run d wk p q" and "hosted p"
  shows "hosted q \<and> (\<not> ws_fallen q \<longrightarrow> program_run wk (program_of p) (program_of q))"
  using assms(1)
proof (induction rule: rtranclp_induct)
  case (step q r)
  with hosted_step [OF step(2)] whole_step_follows [OF step(2)] fallen_stays [OF step(2)] show ?case
    by (metis rtranclp.rtrancl_into_rtrancl)
qed (simp add: assms(2))

lemma hosted_new: "hosted (new_whole cfg an w (new_service w1 w2 w3))"
proof -
  have "service_host (new_service w1 w2 w3 h) = h" for h by (cases h) simp_all
  then show ?thesis by (simp add: hosted_def new_whole_def)
qed

lemma program_of_new: "program_of (new_whole cfg an w (new_service w1 w2 w3)) = new_program cfg an w"
proof -
  have "service_life (new_service w1 w2 w3 h) = new_life_of_server" for h by (cases h) simp_all
  then show ?thesis by (simp add: program_of_def new_whole_def new_program_def)
qed

text \<open>Each server, taken alone, keeps to the protocol, also after \<open>Run\<close> has panicked.\<close>

lemma service_moves:
  assumes "whole_step d wk p q"
  shows "ws_services q h = ws_services p h \<or> service_step d (ws_services p h) (ws_services q h)"
  using assms by (induction rule: whole_step.induct) (auto simp: service_alone_def)

lemma service_run_follows:
  assumes "whole_run d wk p q" and "hosted p"
  shows "server_run (closes_stop h) (service_life (ws_services p h)) (service_life (ws_services q h))"
  using assms(1)
proof (induction rule: rtranclp_induct)
  case (step q r)
  have "hosted q" using whole_run_follows [OF step(1) assms(2)] by simp
  with service_moves [OF step(2), of h] service_follows [of q d h "ws_services r h"] step.IH show ?case
    by (auto intro: server_run.more)
qed (rule server_run.here)

section \<open>After the closing\<close>

text \<open>
  What a server did between two states, once its \<open>Shutdown\<close> is over: nothing; only the callback of the NATS
  server that was in progress may still answer.
\<close>

fun only_late :: "('a, 'b, 'c) service \<Rightarrow> ('a, 'b, 'c) service \<Rightarrow> bool" where
  "only_late (RmqService l) s = (case s of
     RmqService m \<Rightarrow> rl_served m = rl_served l \<and> rl_world m = rl_world l | _ \<Rightarrow> False)"
| "only_late (NatsService l) s = (case s of
     NatsService m \<Rightarrow> nl_callback m = nl_callback l \<and> nl_answered m = nl_answered l \<or>
       nl_callback m = None \<and> (\<exists>msg. nl_callback l = Some msg \<and> nl_answered m = nl_answered l @ [msg])
   | _ \<Rightarrow> False)"
| "only_late (GrpcService l) s = (case s of
     GrpcService m \<Rightarrow> hl_calls m = hl_calls l \<and> hl_log m = hl_log l | _ \<Rightarrow> False)"
| "only_late (HttpService l) s = (case s of
     HttpService m \<Rightarrow> hl_calls m = hl_calls l \<and> hl_log m = hl_log l | _ \<Rightarrow> False)"

lemma only_late_refl [simp]: "only_late s s"
  by (cases s) simp_all

lemma only_late_trans: "only_late s t \<Longrightarrow> only_late t u \<Longrightarrow> only_late s u"
  by (cases s; cases t; cases u) auto

fun nothing_waits :: "('a, 'b, 'c) service \<Rightarrow> bool" where
  "nothing_waits (NatsService l) \<longleftrightarrow> nl_pending l = []"
| "nothing_waits s \<longleftrightarrow> True"

definition service_closed :: "('a, 'b, 'c) service \<Rightarrow> bool" where
  "service_closed s \<longleftrightarrow> service_down s \<noteq> NotShut \<and> nothing_waits s \<and> stop_asked (service_life s) \<and>
     wait_result (service_life s) \<noteq> None \<and> (\<exists>r. main_at (service_life s) = main_phase.Finished r)"

lemma report_step_finished: "report_step l m \<Longrightarrow> main_at l = main_phase.Finished r \<Longrightarrow> m = l\<lparr>notice := None\<rparr>"
  by (induction rule: report_step.induct) simp_all

lemma wait_step_finished: "wait_step l m \<Longrightarrow> wait_result l \<noteq> None \<Longrightarrow> P"
  by (induction rule: wait_step.induct) simp_all

lemma service_closed_step:
  assumes "service_step d s t" and "service_closed s"
  shows "service_closed t \<and> only_late s t"
  using assms
proof (induction rule: service_step.induct)
  case (rmq l m)
  then show ?case
    by (cases rule: rmq_life_step.cases)
      (auto simp: service_closed_def close_stop_def dest: report_step_finished elim: wait_step_finished)
next
  case (nats l m)
  then show ?case
    by (cases rule: nats_life_step.cases)
      (auto simp: service_closed_def close_stop_def dest: report_step_finished elim: wait_step_finished)
next
  case (grpc l m)
  then show ?case
    by (cases rule: grpc_life_step.cases)
      (auto simp: service_closed_def dest: report_step_finished elim: wait_step_finished)
next
  case (http l m)
  then show ?case
    by (cases rule: http_life_step.cases)
      (auto simp: service_closed_def dest: report_step_finished elim: wait_step_finished)
qed

text \<open>A \<open>Shutdown\<close> is over once, and no request waits for the server then.\<close>

lemma down_stays:
  assumes "service_step d s t" and "service_down s \<noteq> NotShut"
  shows "service_down t = service_down s"
  using assms
proof (induction rule: service_step.induct)
  case (rmq l m)
  then show ?case by (cases rule: rmq_life_step.cases) (auto dest: rl_frames(1,2) simp: rl_frames(3))
next
  case (nats l m)
  then show ?case by (cases rule: nats_life_step.cases) (auto dest: nl_frames(1,2) simp: nl_frames(3))
next
  case (grpc l m)
  then show ?case by (cases rule: grpc_life_step.cases) (auto elim: report_step.cases wait_step.cases)
next
  case (http l m)
  then show ?case by (cases rule: http_life_step.cases) (auto elim: report_step.cases wait_step.cases)
qed

lemma nothing_waits_step:
  assumes "service_step d s t" and "service_down s \<noteq> NotShut \<longrightarrow> nothing_waits s"
  shows "service_down t \<noteq> NotShut \<longrightarrow> nothing_waits t"
  using assms
proof (induction rule: service_step.induct)
  case (nats l m)
  then show ?case
    by (cases rule: nats_life_step.cases) (auto dest: nl_frames(1,2) simp: nl_frames(3))
qed simp_all

definition agenda_ok :: "('a, 'b, 'c, 'w) whole \<Rightarrow> bool" where
  "agenda_ok p \<longleftrightarrow> (if ws_fallen p then set (ws_agenda p) \<subseteq> {CancelContext, ClosePostgres}
     else \<forall>h. service_down (ws_services p h) = NotShut \<longleftrightarrow> shutdown_of h \<in> set (ws_agenda p))"

definition whole_inv :: "bool \<Rightarrow> ('a, 'b, 'c, 'w) whole \<Rightarrow> bool" where
  "whole_inv e p \<longleftrightarrow> hosted p \<and> (\<forall>h. service_down (ws_services p h) \<noteq> NotShut \<longrightarrow> nothing_waits (ws_services p h)) \<and>
     agenda_ok p \<and> (\<not> ws_fallen p \<longrightarrow> program_inv e (program_of p))"

text \<open>Only the end of a \<open>Shutdown\<close> changes how it ended.\<close>

lemma down_changes:
  assumes "service_step d s t"
  shows "wait_result (service_life s) = None \<Longrightarrow> service_down t = service_down s"
    and "service_life t \<noteq> service_life s \<Longrightarrow> service_down t = service_down s"
  using service_shuts [OF assms] by metis+

lemma agenda_ok_step:
  assumes "whole_step d wk p q" and "agenda_ok p" and "\<not> ws_fallen p \<longrightarrow> program_inv e (program_of p)"
  shows "agenda_ok q"
  using assms
proof (induction rule: whole_step.induct)
  case (service_works p h s)
  then show ?case by (simp add: agenda_ok_def service_alone_def)
next
  case (starts p h as s)
  from starts(4,5) have "service_life s \<noteq> service_life (ws_services p h)" by force
  with starts down_changes(2) [OF starts(3)] show ?case by (auto simp: agenda_ok_def split: if_splits)
next
  case (hears p as h e s)
  from hears(4,6) have "service_life s \<noteq> service_life (ws_services p h)" by force
  with hears down_changes(2) [OF hears(5)] show ?case by (auto simp: agenda_ok_def)
next
  case (asks p h as s)
  from asks(5,6) have "service_life s \<noteq> service_life (ws_services p h)" by force
  with asks down_changes(2) [OF asks(4)] show ?case by (auto simp: agenda_ok_def)
next
  case (shuts p h as s r)
  then have "\<not> ws_fallen p" by (cases h) (auto simp: agenda_ok_def)
  with shuts suffix_facts(1) [of "shutdown_of h # as" e] show ?case by (auto simp: agenda_ok_def program_inv_def)
next
  case (shuts_on_nil p h as s)
  show ?case by (auto simp: agenda_ok_def deferred_def)
next
  case (closes p a as)
  then show ?case by (auto simp: agenda_ok_def split: if_splits)
qed (auto simp: agenda_ok_def split: if_splits)

lemma whole_inv_step:
  assumes "whole_step d wk p q" and "whole_inv e p"
  shows "whole_inv e q"
proof -
  have "service_down (ws_services q h) \<noteq> NotShut \<longrightarrow> nothing_waits (ws_services q h)" for h
    using service_moves [OF assms(1), of h] nothing_waits_step [of d "ws_services p h" "ws_services q h"] assms(2)
    by (auto simp: whole_inv_def)
  moreover have "program_inv e (program_of q)" if "\<not> ws_fallen q"
    using whole_step_follows [OF assms(1) _ that] fallen_stays [OF assms(1)] that assms(2)
      program_inv_step [of wk "program_of p" "program_of q" e]
    by (auto simp: whole_inv_def)
  ultimately show ?thesis
    using hosted_step [OF assms(1)] agenda_ok_step [OF assms(1), of e] assms(2) by (auto simp: whole_inv_def)
qed

lemma whole_inv_run: "whole_run d wk p q \<Longrightarrow> whole_inv e p \<Longrightarrow> whole_inv e q"
  by (induction rule: rtranclp_induct) (auto intro: whole_inv_step)

lemma whole_inv_new:
  assumes "ws_agenda (new_whole cfg an w (new_service w1 w2 w3)) \<noteq> []"
  shows "whole_inv (cfg_Outbox_Enabled cfg) (new_whole cfg an w (new_service w1 w2 w3))"
proof -
  let ?p = "new_whole cfg an w (new_service w1 w2 w3)" and ?e = "cfg_Outbox_Enabled cfg"
  have todo: "todo (new_program cfg an w) = ws_agenda ?p" using program_of_new [of cfg an w w1 w2 w3] by (simp flip: program_of_sel(3))
  then have start: "ws_agenda ?p = control_text ?e"
    using assms control_Run [of cfg an] by (simp add: new_program_def)
  have "shutdown_of h \<in> set (control_text ?e)" for h by (cases h) (simp_all add: control_text_def)
  moreover have "service_down (new_service w1 w2 w3 h) = NotShut" for h
    by (cases h) (simp_all add: new_host_life_def server_life.defs)
  ultimately show ?thesis
    using program_inv_new [of cfg an w] assms
    by (simp add: whole_inv_def hosted_new program_of_new todo agenda_ok_def start) (simp add: new_whole_def)
qed

text \<open>Without a \<open>Shutdown\<close> left \<open>Run\<close> cannot panic.\<close>

lemma agenda_only_shrinks:
  assumes "whole_run d wk p q" and "\<forall>h. shutdown_of h \<notin> set (ws_agenda p)"
  shows "set (ws_agenda q) \<subseteq> set (ws_agenda p) \<and> ws_fallen q = ws_fallen p"
  using assms(1)
proof (induction rule: rtranclp_induct)
  case (step q r)
  then have "\<forall>h. shutdown_of h \<notin> set (ws_agenda q)" using assms(2) by blast
  with step(2) have "set (ws_agenda r) \<subseteq> set (ws_agenda q) \<and> ws_fallen r = ws_fallen q"
    by (induction rule: whole_step.induct) auto
  with step.IH show ?case by auto
qed simp

lemma services_rest:
  assumes "whole_run d wk p q" and "service_closed (ws_services p h)"
  shows "service_closed (ws_services q h) \<and> only_late (ws_services p h) (ws_services q h)"
  using assms(1)
proof (induction rule: rtranclp_induct)
  case (step q r)
  with service_moves [OF step(2), of h] service_closed_step [of d "ws_services q h" "ws_services r h"] show ?case
    by (auto intro: only_late_trans)
qed (simp add: assms(2))

section \<open>The way down\<close>

text \<open>The server with another life of its goroutine: reporting and waiting change nothing else.\<close>

definition with_life :: "server_life \<Rightarrow> 'a server_life_scheme \<Rightarrow> 'a server_life_scheme" where
  "with_life l k = k\<lparr>main_at := main_at l, notice := notice l, note_closed := note_closed l, wait_result := wait_result l\<rparr>"

fun set_life :: "server_life \<Rightarrow> ('a, 'b, 'c) service \<Rightarrow> ('a, 'b, 'c) service" where
  "set_life l (RmqService k) = RmqService (with_life l k)"
| "set_life l (NatsService k) = NatsService (with_life l k)"
| "set_life l (GrpcService k) = GrpcService (with_life l k)"
| "set_life l (HttpService k) = HttpService (with_life l k)"

lemma report_with_life:
  assumes "report_step l m" and "main_at k = main_at l" and "notice k = notice l" and "note_closed k = note_closed l"
    and "wait_result k = wait_result l"
  shows "report_step k (with_life m k)"
  using assms
proof (induction rule: report_step.induct)
  case (send l e)
  then have "with_life (l\<lparr>main_at := Signalled e, notice := Some e\<rparr>) k = k\<lparr>main_at := Signalled e, notice := Some e\<rparr>"
    by (cases k) (simp add: with_life_def)
  with send report_step.send [of k e] show ?case by simp
next
  case (close_and_leave l e)
  then have "with_life (l\<lparr>main_at := main_phase.Finished (Some e), note_closed := True\<rparr>) k =
      k\<lparr>main_at := main_phase.Finished (Some e), note_closed := True\<rparr>"
    by (cases k) (simp add: with_life_def)
  with close_and_leave report_step.close_and_leave [of k e] show ?case by simp
next
  case (take_note l e)
  then have "with_life (l\<lparr>notice := None\<rparr>) k = k\<lparr>notice := None\<rparr>" by (cases k) (simp add: with_life_def)
  with take_note report_step.take_note [of k e] show ?case by simp
qed

lemma wait_with_life:
  assumes "stop_asked k" and "wait_result k = None" and "main_at k = main_phase.Finished r" and "main_at l = main_at k"
    and "notice l = notice k" and "note_closed l = note_closed k"
  shows "wait_step k (with_life (l\<lparr>wait_result := Some r\<rparr>) k)"
proof -
  have "with_life (l\<lparr>wait_result := Some r\<rparr>) k = k\<lparr>wait_result := Some r\<rparr>" using assms(4-6) by (cases k) (simp add: with_life_def)
  with wait_step.wait_ends [OF assms(1-3)] show ?thesis by simp
qed

lemma note_closed_calm [simp]: "note_closed (calm_life l) = note_closed l"
  by (simp add: calm_life_def)

lemma set_life_sel:
  assumes "stop_asked l = stop_asked (service_life s)" and "stop_panic l = stop_panic (service_life s)"
  shows "service_life (set_life l s) = l"
  using assms by (cases s) (simp_all add: with_life_def server_life.equality)

lemma with_life_rest [simp]:
  "rl_down (with_life l k) = rl_down k" "rl_world (with_life l k) = rl_world k" "rl_crashed (with_life l k) = rl_crashed k"
  "nl_down (with_life l n) = nl_down n" "nl_crashed (with_life l n) = nl_crashed n" "hl_down (with_life l h) = hl_down h"
  "stop_panic (with_life l u) = stop_panic u"
  by (simp_all add: with_life_def)

lemma set_life_rest [simp]: "service_down (set_life l s) = service_down s" "service_up (set_life l s) = service_up s"
  by (cases s; simp add: rl_up_def nl_up_def)+

lemma service_reports: "report_step (service_life s) l \<Longrightarrow> service_up s \<Longrightarrow> service_step d s (set_life l s)"
  by (cases s) (auto intro!: service_step.intros rmq_life_step.reports nats_life_step.reports grpc_life_step.reports
    http_life_step.reports elim: report_with_life)

lemma service_waits:
  assumes "stop_asked (service_life s)" and "wait_result (service_life s) = None"
    and "main_at (service_life s) = main_phase.Finished r" and "service_up s"
  shows "service_step d s (set_life ((service_life s)\<lparr>wait_result := Some r\<rparr>) s)"
  using assms
  by (cases s) (auto intro!: service_step.intros rmq_life_step.waits nats_life_step.waits grpc_life_step.waits
    http_life_step.waits wait_with_life)

text \<open>Steps of a server that keep it up and do not lose its connection.\<close>

fun connection_lost :: "('a, 'b, 'c) service \<Rightarrow> bool" where
  "connection_lost (RmqService l) \<longleftrightarrow> conn_Connection (fst (sw_net (rl_world l))) = None"
| "connection_lost s \<longleftrightarrow> False"

text \<open>The HTTP server was asked to stop before it listened.\<close>

fun deaf :: "('a, 'b, 'c) service \<Rightarrow> bool" where
  "deaf (HttpService l) \<longleftrightarrow> main_at l = Running \<and> stop_asked l \<and> \<not> hl_heard l"
| "deaf s \<longleftrightarrow> False"

text \<open>No step loses the connection or makes the HTTP server deaf.\<close>

definition no_worse :: "('a, 'b, 'c) service \<Rightarrow> ('a, 'b, 'c) service \<Rightarrow> bool" where
  "no_worse s t \<longleftrightarrow> (connection_lost t \<longrightarrow> connection_lost s) \<and> (deaf t \<longrightarrow> deaf s)"

definition calm_step ::
  "('a, 'u, 'b, 'v, 'c) deployment \<Rightarrow> ('a, 'b, 'c) service \<Rightarrow> ('a, 'b, 'c) service \<Rightarrow> bool" where
  "calm_step d s t \<longleftrightarrow> service_alone d s t \<and> service_up t \<and> no_worse s t"

lemma connection_lost_set_life [simp]: "connection_lost (set_life l s) \<longleftrightarrow> connection_lost s"
  by (cases s) simp_all

lemma with_life_host [simp]: "main_at (with_life l k) = main_at l" "stop_asked (with_life l k) = stop_asked k"
  "hl_heard (with_life l h) = hl_heard h"
  by (simp_all add: with_life_def)

lemma deaf_set_life: "main_at l = Running \<longrightarrow> main_at (service_life s) = Running \<Longrightarrow> deaf (set_life l s) \<Longrightarrow> deaf s"
  by (cases s) auto

lemma calm_set_life:
  assumes "service_step d s (set_life l s)" and "works_alone (service_life s) l" and "service_up s"
    and "main_at l = Running \<longrightarrow> main_at (service_life s) = Running"
  shows "calm_step d s (set_life l s)"
  using assms(1-3) set_life_sel [of l s] deaf_set_life [OF assms(4)]
  by (simp add: calm_step_def service_alone_def works_alone_def no_worse_def)

lemma finished_calms:
  assumes "main_at (service_life s) = main_phase.Finished r" and "stop_asked (service_life s)" and "service_up s"
  shows "\<exists>t. (calm_step d)\<^sup>*\<^sup>* s t \<and> wait_result (service_life t) \<noteq> None"
proof (cases "wait_result (service_life s)")
  case None
  let ?l = "(service_life s)\<lparr>wait_result := Some r\<rparr>"
  have "calm_step d s (set_life ?l s)"
    using service_waits [OF assms(2) None assms(1,3)] assms(3) by (intro calm_set_life) (simp_all add: works_alone_def)
  then show ?thesis using set_life_sel [of ?l s] by (intro exI [of _ "set_life ?l s"]) auto
qed auto

lemma signalled_calms:
  assumes "main_at (service_life s) = Signalled e" and "stop_asked (service_life s)" and "service_up s"
  shows "\<exists>t. (calm_step d)\<^sup>*\<^sup>* s t \<and> wait_result (service_life t) \<noteq> None"
proof -
  let ?l = "(service_life s)\<lparr>main_at := main_phase.Finished (Some e), note_closed := True\<rparr>" let ?s = "set_life ?l s"
  have l: "service_life ?s = ?l" by (rule set_life_sel) simp_all
  have "service_step d s ?s" using assms by (intro service_reports report_step.close_and_leave) simp_all
  then have "calm_step d s ?s" using assms by (intro calm_set_life) (simp_all add: works_alone_def)
  moreover obtain t where "(calm_step d)\<^sup>*\<^sup>* ?s t" "wait_result (service_life t) \<noteq> None"
    using finished_calms [of ?s "Some e" d] assms l by auto
  ultimately show ?thesis by (meson converse_rtranclp_into_rtranclp)
qed

lemma failing_calms:
  assumes "main_at (service_life s) = Failing e" and "room_for_error (service_life s)" and "stop_asked (service_life s)"
    and "service_up s"
  shows "\<exists>t. (calm_step d)\<^sup>*\<^sup>* s t \<and> wait_result (service_life t) \<noteq> None"
proof -
  let ?l = "(service_life s)\<lparr>main_at := Signalled e, notice := Some e\<rparr>" let ?s = "set_life ?l s"
  have l: "service_life ?s = ?l" by (rule set_life_sel) simp_all
  have "notice (service_life s) = None" using assms(1,2) by (auto simp: room_for_error_def)
  then have "service_step d s ?s" "works_alone (service_life s) ?l"
    using assms by (auto intro: service_reports report_step.send simp: works_alone_def)
  then have "calm_step d s ?s" using assms(4) by (rule calm_set_life) simp
  moreover obtain t where "(calm_step d)\<^sup>*\<^sup>* ?s t" "wait_result (service_life t) \<noteq> None"
    using signalled_calms [of ?s e d] assms l by auto
  ultimately show ?thesis by (meson converse_rtranclp_into_rtranclp)
qed

text \<open>
  The goroutine itself comes to its end when it is asked to: with nil, or, for a NATS server that has no
  subscription yet, with the error of subscribing.
\<close>

lemma calm_stepI:
  assumes "service_step d s t" and "service_up t" and "works_alone (service_life s) (service_life t)" and "service_down t = service_down s"
    and "no_worse s t"
  shows "calm_step d s t"
  using assms by (simp add: calm_step_def service_alone_def)

lemma running_ends:
  assumes "main_at (service_life s) = Running" and "stop_asked (service_life s)" and "service_up s" and "\<not> deaf s"
  shows "\<exists>t r. (calm_step d)\<^sup>*\<^sup>* s t \<and> stop_asked (service_life t) \<and> service_up t \<and>
    notice (service_life t) = notice (service_life s) \<and>
    (main_at (service_life t) = main_phase.Finished r \<or> (\<exists>e. main_at (service_life t) = Failing e))"
proof (cases s)
  case (RmqService l)
  let ?t = "RmqService (l\<lparr>main_at := main_phase.Finished None\<rparr>)"
  have "calm_step d s ?t" using assms RmqService
    by (intro calm_stepI) (auto simp: works_alone_def no_worse_def rl_up_def intro!: service_step.rmq rmq_life_step.told_to_stop)
  then show ?thesis using assms RmqService by (intro exI [of _ ?t] exI [of _ None]) (auto simp: rl_up_def)
next
  case (HttpService l)
  let ?t = "HttpService (l\<lparr>main_at := main_phase.Finished None\<rparr>)"
  have "calm_step d s ?t" using assms HttpService
    by (intro calm_stepI) (auto simp: works_alone_def no_worse_def intro!: service_step.http http_life_step.Listen_returns)
  then show ?thesis using assms HttpService by (intro exI [of _ ?t] exI [of _ None]) auto
next
  case (GrpcService l)
  let ?c = "Listen (dp_grpc_address d)"
  let ?ok = "\<lambda>k. (calm_step d)\<^sup>*\<^sup>* s (GrpcService k) \<and> main_at k = Running \<and> stop_asked k \<and> notice k = notice l"
  obtain k where k: "?ok k" "?c \<in> set (hl_calls k)"
  proof (cases "?c \<in> set (hl_calls l)")
    case False
    let ?k = "l\<lparr>hl_calls := hl_calls l @ [?c]\<rparr>"
    have "calm_step d s (GrpcService ?k)" using assms GrpcService False
      by (intro calm_stepI) (auto simp: works_alone_def no_worse_def intro!: service_step.grpc grpc_life_step.listens)
    with that [of ?k] assms GrpcService show ?thesis by auto
  qed (use that [of l] assms GrpcService in auto)
  obtain m where m: "?ok m" "Serve \<in> set (hl_calls m)"
  proof (cases "Serve \<in> set (hl_calls k)")
    case False
    let ?m = "k\<lparr>hl_calls := hl_calls k @ [Serve]\<rparr>"
    have "calm_step d (GrpcService k) (GrpcService ?m)" using k False
      by (intro calm_stepI) (auto simp: works_alone_def no_worse_def intro!: service_step.grpc grpc_life_step.Listen_returns)
    with that [of ?m] k show ?thesis by (auto intro: rtranclp.rtrancl_into_rtrancl)
  qed (use that [of k] k in auto)
  let ?t = "GrpcService (m\<lparr>main_at := main_phase.Finished None\<rparr>)"
  have "calm_step d (GrpcService m) ?t" using m
    by (intro calm_stepI) (auto simp: works_alone_def no_worse_def intro!: service_step.grpc grpc_life_step.Serve_returns)
  with m GrpcService show ?thesis
    by (intro exI [of _ ?t] exI [of _ None]) (auto intro: rtranclp.rtrancl_into_rtrancl)
next
  case (NatsService l)
  obtain r n where n: "nats_subscribe (dp_subject d) (sw_net (nl_world l)) = (r, n)" by (metis prod.exhaust)
  let ?rest = "\<lambda>m. NatsService (m\<lparr>main_at := main_phase.Finished None\<rparr>)"
  have ends: "calm_step d (NatsService m) (?rest m)"
    if "main_at m = Running" "stop_asked m" "nl_up m" "nl_subscription m \<noteq> None" for m
    using that by (intro calm_stepI) (auto simp: works_alone_def no_worse_def nl_up_def intro!: service_step.nats nats_life_step.told_to_stop)
  show ?thesis
  proof (cases "nl_subscription l")
    case (Some h)
    with ends [of l] assms NatsService show ?thesis
      by (intro exI [of _ "?rest l"] exI [of _ None]) (auto simp: nl_up_def)
  next
    case None
    show ?thesis
    proof (cases r)
      case (Inl e)
      let ?m = "l\<lparr>nl_world := (nl_world l)\<lparr>sw_net := n\<rparr>, main_at := Failing e\<rparr>"
      have "calm_step d s (NatsService ?m)" using assms NatsService None Inl n
        by (intro calm_stepI) (auto simp: works_alone_def no_worse_def nl_up_def intro!: service_step.nats nats_life_step.cannot_subscribe)
      then show ?thesis using assms NatsService by (intro exI [of _ "NatsService ?m"]) (auto simp: nl_up_def)
    next
      case (Inr h)
      let ?m = "l\<lparr>nl_world := (nl_world l)\<lparr>sw_net := n\<rparr>, nl_subscription := Some h\<rparr>"
      have "calm_step d s (NatsService ?m)" using assms NatsService None Inr n
        by (intro calm_stepI) (auto simp: works_alone_def no_worse_def nl_up_def intro!: service_step.nats nats_life_step.subscribes)
      with ends [of ?m] assms NatsService show ?thesis
        by (intro exI [of _ "?rest ?m"] exI [of _ None]) (auto simp: nl_up_def intro: rtranclp.rtrancl_into_rtrancl)
    qed
  qed
qed

lemma service_calms:
  assumes "room_for_error (service_life s)" and "stop_asked (service_life s)" and "service_up s" and "main_at (service_life s) \<noteq> Unstarted"
    and "\<not> deaf s"
  shows "\<exists>t. (calm_step d)\<^sup>*\<^sup>* s t \<and> wait_result (service_life t) \<noteq> None"
proof (cases "main_at (service_life s)")
  case Running
  from running_ends [OF this assms(2,3,5)] obtain t r where t: "(calm_step d)\<^sup>*\<^sup>* s t" "stop_asked (service_life t)" "service_up t"
    "notice (service_life t) = notice (service_life s)"
    "main_at (service_life t) = main_phase.Finished r \<or> (\<exists>e. main_at (service_life t) = Failing e)" by blast
  have "room_for_error (service_life t)" using t(4) assms(1) Running by (simp add: room_for_error_def)
  with t finished_calms [of t r d] failing_calms [of t _ d] obtain u where
    "(calm_step d)\<^sup>*\<^sup>* t u" "wait_result (service_life u) \<noteq> None" by blast
  with t(1) show ?thesis by (blast intro: rtranclp_trans)
qed (use assms finished_calms signalled_calms failing_calms in blast)+

text \<open>A server that has not been asked to stop can come to listen.\<close>

fun listening :: "('a, 'b, 'c) service \<Rightarrow> bool" where
  "listening (HttpService l) \<longleftrightarrow> main_at l = Running \<longrightarrow> hl_open l"
| "listening s \<longleftrightarrow> True"

lemma service_listens:
  assumes "service_up s" and "\<not> stop_asked (service_life s)"
  shows "\<exists>t. (calm_step d)\<^sup>*\<^sup>* s t \<and> listening t \<and> service_life t = service_life s"
proof (cases "listening s")
  case False
  then obtain l where l: "s = HttpService l" "main_at l = Running" by (cases s) auto
  let ?c = "Listen (hs_address (dp_http d))"
  let ?k = "if ?c \<in> set (hl_calls l) then l else l\<lparr>hl_calls := hl_calls l @ [?c]\<rparr>" let ?m = "?k\<lparr>hl_open := True\<rparr>"
  have k: "calm_life ?k = calm_life l" "hl_down ?k = hl_down l" "?c \<in> set (hl_calls ?k)" "main_at ?k = Running" "\<not> stop_asked ?k"
    using l assms by simp_all
  have "(calm_step d)\<^sup>*\<^sup>* s (HttpService ?k)"
  proof (cases "?c \<in> set (hl_calls l)")
    case False
    with assms l k have "calm_step d s (HttpService ?k)"
      by (intro calm_stepI) (auto simp: works_alone_def no_worse_def intro!: service_step.http http_life_step.listens)
    then show ?thesis by simp
  qed (simp add: l)
  also have "calm_step d (HttpService ?k) (HttpService ?m)" using assms l k
    by (intro calm_stepI) (auto simp: works_alone_def no_worse_def intro!: service_step.http http_life_step.opens)
  finally show ?thesis using l k by (intro exI [of _ "HttpService ?m"]) simp
qed auto

text \<open>What \<open>Run\<close> asks of a server can be done; the end of \<open>Shutdown\<close> panics only over a connection that was lost.\<close>

lemma service_stepI:
  "rmq_life_step (dp_queue_name d) (dp_rmq d) l m \<Longrightarrow> P (RmqService m) \<Longrightarrow> \<exists>t. service_step d (RmqService l) t \<and> P t"
  "nats_life_step (dp_subject d) (dp_connection d) (dp_nats d) k n \<Longrightarrow> P (NatsService n) \<Longrightarrow> \<exists>t. service_step d (NatsService k) t \<and> P t"
  "grpc_life_step (dp_grpc_address d) (dp_log d) g g' \<Longrightarrow> P (GrpcService g') \<Longrightarrow> \<exists>t. service_step d (GrpcService g) t \<and> P t"
  "http_life_step (dp_http d) (dp_log d) h h' \<Longrightarrow> P (HttpService h') \<Longrightarrow> \<exists>t. service_step d (HttpService h) t \<and> P t"
  by (blast intro: service_step.intros)+

lemma service_starts:
  assumes "main_at (service_life s) = Unstarted" and "\<not> stop_asked (service_life s)" and "service_up s"
    and "dp_rmq d = rmq_server_of routes marshal"
  shows "\<exists>t. service_step d s t \<and> service_up t \<and> main_at (service_life t) = Running \<and> no_worse s t"
proof (cases s)
  case (RmqService l)
  show ?thesis unfolding RmqService
    by (rule service_stepI(1) [OF rmq_life_step.Start])
      (use assms RmqService in \<open>simp_all add: rl_up_def no_worse_def rmq_server_of_sel server_logger.info_sel\<close>)
next
  case (NatsService l)
  show ?thesis unfolding NatsService
    by (rule service_stepI(2) [OF nats_life_step.Start]) (use assms NatsService in \<open>simp_all add: nl_up_def no_worse_def\<close>)
next
  case (GrpcService l)
  show ?thesis unfolding GrpcService
    by (rule service_stepI(3) [OF grpc_life_step.Start]) (use assms GrpcService in \<open>simp_all add: no_worse_def\<close>)
next
  case (HttpService l)
  show ?thesis unfolding HttpService
    by (rule service_stepI(4) [OF http_life_step.Start]) (use assms HttpService in \<open>simp_all add: no_worse_def\<close>)
qed

lemma service_asked:
  assumes "\<not> stop_asked (service_life s)" and "service_up s" and "listening s"
  shows "\<exists>t. service_step d s t \<and> service_up t \<and> stop_asked (service_life t) \<and> no_worse s t"
proof (cases s)
  case (RmqService l)
  show ?thesis unfolding RmqService
    by (rule service_stepI(1) [OF rmq_life_step.stops]) (use assms RmqService in \<open>simp_all add: rl_up_def no_worse_def close_stop_def\<close>)
next
  case (NatsService l)
  show ?thesis unfolding NatsService
    by (rule service_stepI(2) [OF nats_life_step.stops]) (use assms NatsService in \<open>simp_all add: nl_up_def no_worse_def close_stop_def\<close>)
next
  case (GrpcService l)
  show ?thesis unfolding GrpcService
    by (rule service_stepI(3) [OF grpc_life_step.stops]) (use assms GrpcService in \<open>simp_all add: no_worse_def\<close>)
next
  case (HttpService l)
  show ?thesis unfolding HttpService
    by (rule service_stepI(4) [OF http_life_step.stops [where r = None]]) (use assms HttpService in \<open>simp_all add: no_worse_def\<close>)
qed

lemma rmq_Shutdown_connection:
  "rmq_Shutdown (logger_of server_log) h r w = (res, w') \<Longrightarrow> fst (sw_net w') = fst (sw_net w)"
  by (auto simp: rmq_Shutdown_def collect_split rmq_ask_def ask_def Let_def server_logger.log_sel server_logger.info_sel
      split: prod.splits option.splits)

lemma service_shut_ends:
  assumes "wait_result (service_life s) = Some r" and "service_down s = NotShut" and "service_up s"
    and "dp_rmq d = rmq_server_of routes marshal"
  shows "\<exists>t. service_step d s t \<and> service_up t \<and> no_worse s t \<and>
    ((\<exists>res. service_down t = Shut res) \<or> service_down t = ShutOnNil \<and> connection_lost t)"
proof (cases s)
  case (RmqService l)
  show ?thesis
  proof (cases "conn_Connection (fst (sw_net (rl_world l)))")
    case None
    then show ?thesis unfolding RmqService
      by (intro service_stepI(1) [OF rmq_life_step.shuts_nil]) (use assms RmqService in \<open>simp_all add: rl_up_def no_worse_def\<close>)
  next
    case (Some h)
    obtain res w where w: "rmq_Shutdown (rs_logger (dp_rmq d)) h r (rl_world l) = (res, w)" by (metis prod.exhaust)
    then have "fst (sw_net w) = fst (sw_net (rl_world l))"
      using assms(4) rmq_Shutdown_connection [of h r "rl_world l" res w] by (simp add: rmq_server_of_sel)
    with Some have "conn_Connection (fst (sw_net w)) = Some h" by simp
    with w Some show ?thesis unfolding RmqService
      by (intro service_stepI(1) [OF rmq_life_step.shuts [where h = h and r = r and res = res and w = w]])
        (use assms RmqService in \<open>simp_all add: rl_up_def no_worse_def\<close>)
  qed
next
  case (NatsService l)
  obtain res w where "nats_Shutdown (ns_logger (dp_nats d)) (nl_subscription l) (dp_connection d) r (nl_world l) = (res, w)"
    by (metis prod.exhaust)
  then show ?thesis unfolding NatsService
    by (intro service_stepI(2) [OF nats_life_step.shuts]) (use assms NatsService in \<open>simp_all add: nl_up_def no_worse_def\<close>)
next
  case (GrpcService l)
  obtain res w where "grpc_Shutdown (dp_log d) r (hl_log l) = (res, w)" by (metis prod.exhaust)
  then show ?thesis unfolding GrpcService
    by (intro service_stepI(3) [OF grpc_life_step.shuts]) (use assms GrpcService in \<open>simp_all add: no_worse_def\<close>)
next
  case (HttpService l)
  obtain res w where "http_Shutdown (dp_log d) (hl_stop l) r (hl_log l) = (res, w)" by (metis prod.exhaust)
  then show ?thesis unfolding HttpService
    by (intro service_stepI(4) [OF http_life_step.shuts]) (use assms HttpService in \<open>simp_all add: no_worse_def\<close>)
qed

text \<open>Steps of the parts are steps of the whole.\<close>

lemma whole_up_put: "whole_up p \<Longrightarrow> service_up s \<Longrightarrow> whole_up (put_service h s p)"
  by (simp add: whole_up_def)

lemma put_again [simp]: "put_service h s (put_service h t p) = put_service h s p" "put_service h (ws_services p h) p = p"
  by (simp_all add: put_service_def)

lemma services_calm:
  assumes "(calm_step d)\<^sup>*\<^sup>* (ws_services p h) s" and "whole_up p"
  shows "whole_run d wk p (put_service h s p) \<and> whole_up (put_service h s p)"
  using assms(1)
proof (induction rule: rtranclp_induct)
  case (step s t)
  have "whole_step d wk (put_service h s p) (put_service h t (put_service h s p))"
    using step by (intro whole_step.service_works) (simp_all add: calm_step_def)
  moreover have "whole_up (put_service h t (put_service h s p))"
    using step whole_up_put [of "put_service h s p" t h] by (simp add: calm_step_def)
  ultimately show ?case using step.IH by (auto intro: rtranclp.rtrancl_into_rtrancl)
qed (simp add: assms(2))

lemma outbox_calms:
  assumes "(own_life_step wk)\<^sup>*\<^sup>* (ws_outbox p) l" and "whole_up p" and "crash l = None"
  shows "whole_run d wk p (p\<lparr>ws_outbox := l\<rparr>)"
  using assms(1,3)
proof (induction rule: rtranclp_induct)
  case (step l m)
  then have "crash l = None" by (auto simp: own_life_step_def dest: crashed_stays)
  with step assms(2) have "whole_step d wk (p\<lparr>ws_outbox := l\<rparr>) ((p\<lparr>ws_outbox := l\<rparr>)\<lparr>ws_outbox := m\<rparr>)"
    by (intro whole_step.outbox_works) (simp_all add: whole_up_def)
  with step \<open>crash l = None\<close> show ?case by (auto intro: rtranclp.rtrancl_into_rtrancl)
qed simp

lemma host_of_whole: "whole_inv e p \<Longrightarrow> \<not> ws_fallen p \<Longrightarrow> host_ok (ws_agenda p) h (service_life (ws_services p h))"
  using program_of_sel(1) [of p h] by (simp add: whole_inv_def program_inv_def)

lemma down_of_whole:
  "whole_inv e p \<Longrightarrow> \<not> ws_fallen p \<Longrightarrow> shutdown_of h \<in> set (ws_agenda p) \<Longrightarrow> service_down (ws_services p h) = NotShut"
  by (simp add: whole_inv_def agenda_ok_def)

lemma host_is: "whole_inv e p \<Longrightarrow> service_host (ws_services p h) = h"
  by (simp add: whole_inv_def hosted_def)

text \<open>\<open>Run\<close> fell, if at all, over the lost connection of the RabbitMQ server, whose goroutine has finished.\<close>

definition falls_over_nil :: "('a, 'b, 'c, 'w) whole \<Rightarrow> bool" where
  "falls_over_nil p \<longleftrightarrow> (ws_fallen p \<longrightarrow> service_closed (ws_services p RmqHost) \<and> connection_lost (ws_services p RmqHost))"

lemma nil_is_lost:
  assumes "service_step d s t" and "service_down s = NotShut" and "service_down t = ShutOnNil"
  shows "connection_lost t \<and> nothing_waits t \<and> service_host t = RmqHost"
  using assms
proof (induction rule: service_step.induct)
  case (rmq l m)
  then show ?case by (cases rule: rmq_life_step.cases) (auto dest: rl_frames(1,2) simp: rl_frames(3))
next
  case (nats l m)
  then show ?case by (cases rule: nats_life_step.cases) (auto dest: nl_frames(1,2) simp: nl_frames(3))
next
  case (grpc l m)
  then show ?case by (cases rule: grpc_life_step.cases) (auto elim: report_step.cases wait_step.cases)
next
  case (http l m)
  then show ?case by (cases rule: http_life_step.cases) (auto elim: report_step.cases wait_step.cases)
qed

lemma lost_stays: "only_late s t \<Longrightarrow> connection_lost s \<Longrightarrow> connection_lost t"
  by (cases s; cases t) simp_all

lemma falls_over_nil_step:
  assumes "whole_step d wk p q" and "whole_inv e p" and "falls_over_nil p"
  shows "falls_over_nil q"
proof (cases "ws_fallen p")
  case True
  with assms(3) have "service_closed (ws_services p RmqHost)" "connection_lost (ws_services p RmqHost)"
    by (simp_all add: falls_over_nil_def)
  then show ?thesis
    using service_moves [OF assms(1), of RmqHost] service_closed_step [of d "ws_services p RmqHost" "ws_services q RmqHost"]
      lost_stays [of "ws_services p RmqHost" "ws_services q RmqHost"] by (auto simp: falls_over_nil_def)
next
  case False
  from assms(1,2) False show ?thesis
  proof (induction rule: whole_step.induct)
    case (shuts_on_nil p h as s)
    then have "service_down s \<noteq> service_down (ws_services p h)" by simp
    note life = service_shuts [OF shuts_on_nil(3) this]
    have "service_closed s"
      using host_of_whole [OF shuts_on_nil(6,7), of h] life nil_is_lost [OF shuts_on_nil(3-5)] shuts_on_nil(5)
      by (auto simp: service_closed_def host_ok_def)
    moreover have "h = RmqHost"
      using nil_is_lost [OF shuts_on_nil(3-5)] service_step_host [OF shuts_on_nil(3)] host_is [OF shuts_on_nil(6)] by simp
    ultimately show ?case using nil_is_lost [OF shuts_on_nil(3-5)] by (simp add: falls_over_nil_def)
  qed (simp_all add: falls_over_nil_def)
qed

lemma falls_over_nil_run: "whole_run d wk p q \<Longrightarrow> whole_inv e p \<Longrightarrow> falls_over_nil p \<Longrightarrow> falls_over_nil q"
  by (induction rule: rtranclp_induct) (auto intro: falls_over_nil_step whole_inv_run)

text \<open>What is gained by a way down that does not lose the connection or the stop of the HTTP server.\<close>

definition keeps_link :: "('a, 'b, 'c, 'w) whole \<Rightarrow> ('a, 'b, 'c, 'w) whole \<Rightarrow> bool" where
  "keeps_link p q \<longleftrightarrow> (\<not> ws_fallen p \<and> \<not> connection_lost (ws_services p RmqHost) \<longrightarrow>
     \<not> ws_fallen q \<and> \<not> connection_lost (ws_services q RmqHost)) \<and>
     (\<not> deaf (ws_services p HttpHost) \<longrightarrow> \<not> deaf (ws_services q HttpHost))"

lemma keeps_link_trans: "keeps_link p q \<Longrightarrow> keeps_link q r \<Longrightarrow> keeps_link p r"
  by (simp add: keeps_link_def)

lemma keeps_link_put: "no_worse (ws_services p h) s \<Longrightarrow> keeps_link p (put_service h s p)"
  by (auto simp: keeps_link_def no_worse_def)

lemma calm_run_link: "(calm_step d)\<^sup>*\<^sup>* s t \<Longrightarrow> no_worse s t"
  by (induction rule: rtranclp_induct) (auto simp: calm_step_def no_worse_def)

lemma deaf_is_http: "deaf s \<Longrightarrow> service_host s = HttpHost"
  by (cases s) simp_all

lemma whole_shuts:
  assumes "whole_up p" and "whole_inv e p" and "ws_agenda p = shutdown_of h # as" and "dp_rmq d = rmq_server_of routes marshal"
    and "\<not> deaf (ws_services p HttpHost)"
  shows "\<exists>q. whole_run d wk p q \<and> whole_up q \<and> length (ws_agenda q) \<le> length as \<and> keeps_link p q"
proof -
  have standing: "\<not> ws_fallen p" using assms(2,3) by (cases h) (auto simp: whole_inv_def agenda_ok_def)
  obtain p1 where p1: "whole_run d wk p p1" "whole_up p1" "ws_agenda p1 = ws_agenda p" "\<not> ws_fallen p1" "h = HttpHost \<longrightarrow> ws_awake p1"
    "keeps_link p p1"
  proof (cases "h = HttpHost \<and> \<not> ws_awake p")
    case True
    with assms whole_step.signalled [of p as d wk] standing that [of "p\<lparr>ws_awake := True\<rparr>"] show ?thesis
      by (auto simp: whole_up_def keeps_link_def)
  qed (use assms(1) standing that in \<open>auto simp: keeps_link_def\<close>)
  obtain p2 where p2: "whole_run d wk p1 p2" "whole_up p2" "ws_agenda p2 = ws_agenda p" "\<not> ws_fallen p2"
    "stop_asked (service_life (ws_services p2 h))" "keeps_link p1 p2"
  proof (cases "stop_asked (service_life (ws_services p1 h))")
    case False
    have "service_up (ws_services p1 h)" using p1(2) by (simp add: whole_up_def)
    with False service_listens obtain u where u: "(calm_step d)\<^sup>*\<^sup>* (ws_services p1 h) u" "listening u"
      "service_life u = service_life (ws_services p1 h)" by blast
    let ?p = "put_service h u p1"
    have run: "whole_run d wk p1 ?p" "whole_up ?p" using services_calm [OF u(1) p1(2)] by blast+
    have "service_up u" using run(2) by (metis whole_up_def put_service_sel(1) fun_upd_same)
    with False u service_asked [of u d] obtain s where s: "service_step d u s" "service_up s" "stop_asked (service_life s)"
      "no_worse u s" by auto
    have "whole_step d wk ?p (put_service h s ?p)"
      using run(2) p1 assms(3) False s u(3) by (intro whole_step.asks) simp_all
    moreover have "no_worse (ws_services p1 h) s" using calm_run_link [OF u(1)] s(4) by (auto simp: no_worse_def)
    ultimately show ?thesis using that [of "put_service h s ?p"] run p1 s keeps_link_put [of p1 h s]
      by (auto simp: whole_up_put intro: rtranclp.rtrancl_into_rtrancl)
  qed (use p1 that in \<open>auto simp: keeps_link_def\<close>)
  have inv2: "whole_inv e p2" using whole_inv_run [OF rtranclp_trans [OF p1(1) p2(1)] assms(2)] .
  with host_of_whole [of e p2 h] p2(4) assms(3) p2(3) suffix_facts(1,2) [of "ws_agenda p2" e] have
    "room_for_error (service_life (ws_services p2 h))" "main_at (service_life (ws_services p2 h)) \<noteq> Unstarted"
    by (auto simp: host_ok_def whole_inv_def program_inv_def)
  moreover have "\<not> deaf (ws_services p2 h)"
    using assms(5) p1(6) p2(6) deaf_is_http [of "ws_services p2 h"] host_is [OF inv2, of h] by (auto simp: keeps_link_def)
  ultimately obtain s where s: "(calm_step d)\<^sup>*\<^sup>* (ws_services p2 h) s" "wait_result (service_life s) \<noteq> None"
    using service_calms p2(2,5) by (metis whole_up_def)
  let ?p3 = "put_service h s p2"
  have link3: "keeps_link p2 ?p3" using calm_run_link [OF s(1)] by (rule keeps_link_put)
  have p3: "whole_run d wk p2 ?p3" "whole_up ?p3" using services_calm [OF s(1) p2(2)] by blast+
  have inv3: "whole_inv e ?p3" using whole_inv_run [OF p3(1) inv2] .
  from down_of_whole [OF inv3, of h] have "service_down s = NotShut" using p2 assms(3) by simp
  moreover have "service_up s" using p3(2) by (metis whole_up_def put_service_sel(1) fun_upd_same)
  ultimately obtain t where t: "service_step d s t" "service_up t" "no_worse s t"
    "(\<exists>res. service_down t = Shut res) \<or> service_down t = ShutOnNil \<and> connection_lost t"
    using service_shut_ends [of s _ d] s(2) assms(4) by blast
  have link4: "keeps_link ?p3 (put_service h t ?p3)" using t(3) by (intro keeps_link_put) simp
  have "\<exists>q. whole_step d wk ?p3 q \<and> whole_up q \<and> length (ws_agenda q) \<le> length as \<and> keeps_link ?p3 q"
    using t(4)
  proof
    assume "\<exists>res. service_down t = Shut res"
    then obtain res where "service_down t = Shut res" by blast
    with whole_step.shuts [of ?p3 h as d t res wk] p2 p3(2) t assms(3) \<open>service_down s = NotShut\<close> link4 show ?thesis
      by (intro exI [of _ "(put_service h t ?p3)\<lparr>ws_agenda := as\<rparr>"]) (auto simp: whole_up_def keeps_link_def)
  next
    assume nil: "service_down t = ShutOnNil \<and> connection_lost t"
    have "h = RmqHost" using nil host_is [OF inv3, of h] service_step_host [OF t(1)] by (cases t) auto
    with nil whole_step.shuts_on_nil [of ?p3 h as d t wk] p2 p3(2) t assms(3) \<open>service_down s = NotShut\<close> link4 show ?thesis
      by (intro exI [of _ "(put_service h t ?p3)\<lparr>ws_agenda := deferred as, ws_fallen := True\<rparr>"])
        (auto simp: whole_up_def deferred_def keeps_link_def)
  qed
  with p1 p2 p3 link3 show ?thesis by (meson keeps_link_trans rtranclp_trans rtranclp.rtrancl_into_rtrancl)
qed

lemma whole_stops:
  assumes "whole_up p" and "whole_inv e p" and "ws_agenda p = StopWorker # as" and "0 < pollInterval wk"
  shows "\<exists>q. whole_run d wk p q \<and> whole_up q \<and> ws_agenda q = as \<and> keeps_link p q"
proof -
  have standing: "\<not> ws_fallen p" using assms(2,3) by (auto simp: whole_inv_def agenda_ok_def)
  with assms suffix_facts(1,3,4) [of "ws_agenda p" e] have
    "life_inv (ws_outbox p)" "length (runs (ws_outbox p)) = 1" "stop_calls (ws_outbox p) \<le> 1" "crash (ws_outbox p) = None"
    by (auto simp: whole_inv_def program_inv_def poller_ok_def whole_up_def le_Suc_eq)
  then obtain l m where l: "l = ws_outbox p \<or> stop_calls (ws_outbox p) = 0 \<and> life_step wk (ws_outbox p) l \<and> stop_calls l = 1"
    "crash l = None" and m: "(own_life_step wk)\<^sup>*\<^sup>* l m" "Returned \<in> set (stops m)" "crash m = None"
    using Stop_life [of "ws_outbox p" wk] assms(4) by blast
  have "whole_run d wk p (p\<lparr>ws_outbox := l\<rparr>)"
    using l(1) assms(1,3) whole_step.stops_outbox [of p as wk l d] by auto
  moreover have "whole_run d wk (p\<lparr>ws_outbox := l\<rparr>) (p\<lparr>ws_outbox := m\<rparr>)"
    using outbox_calms [of wk "p\<lparr>ws_outbox := l\<rparr>" m d] m assms(1) l(2) by (simp add: whole_up_def)
  moreover have "whole_step d wk (p\<lparr>ws_outbox := m\<rparr>) (p\<lparr>ws_outbox := m, ws_agenda := as\<rparr>)"
    using whole_step.outbox_stopped [of "p\<lparr>ws_outbox := m\<rparr>" as d wk] assms m by (simp add: whole_up_def)
  ultimately show ?thesis
    using m(3) assms(1) standing by (intro exI [of _ "p\<lparr>ws_outbox := m, ws_agenda := as\<rparr>"])
      (auto simp: whole_up_def keeps_link_def intro: rtranclp_trans rtranclp.rtrancl_into_rtrancl)
qed

lemma whole_starts:
  assumes "whole_up p" and "whole_inv e p" and "ws_agenda p = start_of h # as" and "dp_rmq d = rmq_server_of routes marshal"
  shows "\<exists>q. whole_run d wk p q \<and> whole_up q \<and> ws_agenda q = as \<and> keeps_link p q"
proof -
  have standing: "\<not> ws_fallen p" using assms(2,3) by (cases h) (auto simp: whole_inv_def agenda_ok_def)
  with assms host_of_whole [of e p h] suffix_facts(2) [of "ws_agenda p" e h] have
    "main_at (service_life (ws_services p h)) = Unstarted" "\<not> stop_asked (service_life (ws_services p h))"
    by (auto simp: host_ok_def whole_inv_def program_inv_def)
  moreover from this service_starts obtain s where
    "service_step d (ws_services p h) s" "service_up s" "main_at (service_life s) = Running" "no_worse (ws_services p h) s"
    using assms(1,4) by (metis whole_up_def)
  moreover from this(4) have "keeps_link p (put_service h s p)" by (rule keeps_link_put)
  ultimately show ?thesis using assms(1,3) standing whole_step.starts [of p h as d s wk]
    by (intro exI [of _ "put_service h s (p\<lparr>ws_agenda := as\<rparr>)"]) (auto simp: whole_up_def keeps_link_def)
qed

lemma whole_simple:
  assumes "whole_up p" and "ws_agenda p = a # as" and "a \<in> {StartWorker, CancelContext, ClosePublisher, ClosePostgres}"
  shows "\<exists>q. whole_run d wk p q \<and> whole_up q \<and> ws_agenda q = as \<and> keeps_link p q"
proof -
  let ?l = "(ws_outbox p)\<lparr>runs := runs (ws_outbox p) @ [Spawned],
    world := lg_Info (worker_log wk) ''eventbus worker - started'' [] (world (ws_outbox p))\<rparr>"
  from assms(3) consider "a = StartWorker" | "a = CancelContext" | "a = ClosePublisher \<or> a = ClosePostgres" by blast
  then show ?thesis
  proof cases
    case 1
    have "whole_step d wk p (p\<lparr>ws_outbox := ?l, ws_agenda := as\<rparr>)"
      using assms 1 life_step.Start [of "ws_outbox p" wk] by (intro whole_step.starts_outbox) (simp_all add: whole_up_def)
    then show ?thesis using assms(1)
      by (intro exI [of _ "p\<lparr>ws_outbox := ?l, ws_agenda := as\<rparr>"]) (auto simp: whole_up_def keeps_link_def)
  next
    case 2
    with assms whole_step.cancels [of p as d wk] show ?thesis
      by (intro exI [of _ "p\<lparr>ws_outbox := (ws_outbox p)\<lparr>ctx_done := True\<rparr>, ws_agenda := as\<rparr>"]) (auto simp: whole_up_def keeps_link_def)
  next
    case 3
    with assms whole_step.closes [of p a as d wk] show ?thesis
      by (intro exI [of _ "p\<lparr>ws_agenda := as\<rparr>"]) (auto simp: whole_up_def keeps_link_def)
  qed
qed

lemma whole_advances:
  assumes "whole_up p" and "whole_inv e p" and "ws_agenda p = a # as" and "e \<longrightarrow> 0 < pollInterval wk"
    and "dp_rmq d = rmq_server_of routes marshal" and "\<not> deaf (ws_services p HttpHost)"
  shows "\<exists>q. whole_run d wk p q \<and> whole_up q \<and> length (ws_agenda q) \<le> length as \<and> keeps_link p q"
proof -
  have "a \<in> set (control_text e) \<or> a \<in> {CancelContext, ClosePostgres}"
    using assms(2,3) suffix_facts(4) [of "ws_agenda p" e]
    by (auto simp: whole_inv_def agenda_ok_def program_inv_def split: if_splits)
  then consider h where "a = start_of h" | h where "a = shutdown_of h" | "a = StopWorker"
    | "a \<in> {StartWorker, CancelContext, ClosePublisher, ClosePostgres}"
    using text_cases by blast
  then show ?thesis
  proof cases
    case 1
    with whole_starts [OF assms(1,2), of h as d routes marshal wk] assms(3,5) show ?thesis by auto
  next
    case 2
    with whole_shuts [OF assms(1,2), of h as d routes marshal wk] assms(3,5,6) show ?thesis by simp
  next
    case 3
    have "e"
    proof (rule ccontr)
      assume "\<not> e"
      with assms(2,3) 3 have "StopWorker \<in> set (control_text e)"
        using suffix_facts(4) [of "ws_agenda p" e] by (auto simp: whole_inv_def agenda_ok_def program_inv_def suffix_def)
      with \<open>\<not> e\<close> show False by (simp add: control_text_def)
    qed
    with whole_stops [OF assms(1,2), of as wk d] assms(3,4) 3 show ?thesis by auto
  next
    case 4
    from whole_simple [OF assms(1,3) 4, of d wk] show ?thesis by auto
  qed
qed

lemma whole_ends:
  assumes "whole_up p" and "whole_inv e p" and "e \<longrightarrow> 0 < pollInterval wk" and "dp_rmq d = rmq_server_of routes marshal"
    and "\<not> deaf (ws_services p HttpHost)"
  shows "\<exists>q. whole_run d wk p q \<and> whole_up q \<and> ws_agenda q = [] \<and> keeps_link p q"
  using assms(1,2,5)
proof (induction "length (ws_agenda p)" arbitrary: p rule: less_induct)
  case less
  show ?case
  proof (cases "ws_agenda p")
    case (Cons a as)
    from whole_advances [OF less.prems(1,2) Cons assms(3,4) less.prems(3)] obtain q where
      q: "whole_run d wk p q" "whole_up q" "length (ws_agenda q) \<le> length as" "keeps_link p q" by blast
    then have "\<not> deaf (ws_services q HttpHost)" using less.prems(3) by (simp add: keeps_link_def)
    with less.hyps [of q] q Cons whole_inv_run [OF q(1) less.prems(2)] show ?thesis
      by (auto intro: rtranclp_trans keeps_link_trans)
  qed (use less.prems in \<open>auto simp: keeps_link_def\<close>)
qed

lemma agenda_new: "ws_agenda (new_whole cfg an w services) = todo (new_program cfg an w)"
  by (simp add: new_whole_def new_program_def)

lemma standing_new [simp]: "\<not> ws_fallen (new_whole cfg an w services)" "ws_services (new_whole cfg an w services) = services"
  by (simp_all add: new_whole_def)

text \<open>A run that never starts anything has nothing to take down.\<close>

lemma whole_without_agenda:
  assumes "whole_run d wk (new_whole cfg an w services) p" and "todo (new_program cfg an w) = []"
  shows "ws_agenda p = [] \<and> \<not> ws_fallen p"
  using agenda_only_shrinks [OF assms(1)] assms(2) by (simp add: agenda_new)

text \<open>The worker as \<open>Run\<close> makes it from the configuration.\<close>

definition configured_worker :: "config \<Rightarrow> (uuid \<Rightarrow> string) \<Rightarrow> outbox_system worker" where
  "configured_worker cfg txt = outbox_worker_of (cfg_RMQ_EventExchange cfg) txt
     [WithPollInterval (poll_interval cfg), WithBatchSize (cfg_Outbox_BatchSize cfg), WithMaxRetries (cfg_Outbox_MaxRetries cfg)]"

lemma configured_worker_sel:
  "pollInterval (configured_worker cfg txt) = poll_interval cfg" "batchSize (configured_worker cfg txt) = cfg_Outbox_BatchSize cfg"
  "maxRetries (configured_worker cfg txt) = cfg_Outbox_MaxRetries cfg"
  by (simp_all add: configured_worker_def outbox_worker_of_def new_worker_def)

section \<open>Properties\<close>

text \<open>
  C25. The program with its four servers in full refines the program in which a server is only a
  goroutine, its \<open>notify\<close> and its \<open>Shutdown\<close>: as long as \<open>Run\<close> has not panicked, each of its runs is a
  run of that program; and each server keeps to one protocol in every run, whatever the transports, the
  drivers and the other parts do, so that a goroutine that fails can always send its error.
\<close>

theorem whole_program_refines:
  assumes "whole_run d wk (new_whole cfg an w (new_service w1 w2 w3)) p"
  shows "(\<not> ws_fallen p \<longrightarrow> program_run wk (new_program cfg an w) (program_of p)) \<and>
    (\<forall>h. server_run (closes_stop h) new_life_of_server (service_life (ws_services p h))) \<and>
    (\<forall>h e. main_at (service_life (ws_services p h)) = Failing e \<longrightarrow> notice (service_life (ws_services p h)) = None)"
proof -
  let ?n = "new_whole cfg an w (new_service w1 w2 w3)"
  have "service_life (ws_services ?n h) = new_life_of_server" for h by (cases h) simp_all
  with service_run_follows [OF assms hosted_new] have
    run: "server_run (closes_stop h) new_life_of_server (service_life (ws_services p h))" for h by metis
  from room_for_error_run [OF run] have "room_for_error (service_life (ws_services p h))" for h by simp
  with run whole_run_follows [OF assms hosted_new] show ?thesis
    by (auto simp: program_of_new room_for_error_def) (metis main_phase.distinct option.exhaust)+
qed

text \<open>
  C22. The whole program, with the outbox worker \<open>Run\<close> makes from the configuration, can be brought down when
  the poll interval is positive or the outbox is off: from every state it can reach in which neither a handler nor
  the worker has panicked and the HTTP server was not asked to stop before it listened, it can go on so that
  \<open>Run\<close> comes to its end; without a panic unless the RabbitMQ server has lost its connection. \<open>Run\<close> panics
  only over such a connection, after the goroutine of that server has finished. (With an interval that is not
  positive the ticker panics, and a stop asked before the HTTP server listens is lost, see
  \<open>stop_before_listening_is_lost\<close>: then \<open>Run\<close> waits for ever.)
\<close>

theorem whole_program_can_be_brought_down:
  assumes "whole_run d (configured_worker cfg txt) (new_whole cfg an w (new_service w1 w2 w3)) p" and "whole_up p"
    and "cfg_Outbox_Enabled cfg \<longrightarrow> 0 < poll_interval cfg" and "\<not> deaf (ws_services p HttpHost)"
    and "dp_rmq d = rmq_server_of routes marshal"
  shows "(\<exists>q. whole_run d (configured_worker cfg txt) p q \<and> whole_up q \<and> ws_agenda q = [] \<and>
      (\<not> ws_fallen p \<and> \<not> connection_lost (ws_services p RmqHost) \<longrightarrow> \<not> ws_fallen q)) \<and>
    (ws_fallen p \<longrightarrow> connection_lost (ws_services p RmqHost) \<and>
      (\<exists>r. main_at (service_life (ws_services p RmqHost)) = main_phase.Finished r))"
proof (cases "todo (new_program cfg an w) = []")
  case True
  with whole_without_agenda [OF assms(1)] assms(2) show ?thesis by auto
next
  case False
  then have new: "whole_inv (cfg_Outbox_Enabled cfg) (new_whole cfg an w (new_service w1 w2 w3))"
    by (intro whole_inv_new) (simp add: agenda_new)
  have "falls_over_nil p" using falls_over_nil_run [OF assms(1) new] by (simp add: falls_over_nil_def)
  moreover have "cfg_Outbox_Enabled cfg \<longrightarrow> 0 < pollInterval (configured_worker cfg txt)"
    using assms(3) by (simp add: configured_worker_sel)
  then obtain q where "whole_run d (configured_worker cfg txt) p q" "whole_up q" "ws_agenda q = []" "keeps_link p q"
    using whole_ends [OF assms(2) whole_inv_run [OF assms(1) new] _ assms(5,4)] by blast
  ultimately show ?thesis by (auto simp: falls_over_nil_def keeps_link_def service_closed_def)
qed


section \<open>A sample, and the fall of \<open>Run\<close>\<close>

definition sample_deployment :: "(nat, bytes, nat, nat, nat rmq_world) deployment" where
  "sample_deployment = \<lparr>dp_queue_name = (\<lambda>n. ''''), dp_rmq = rmq_server_of echo_routes Inr, dp_subject = ''rpc'',
     dp_connection = 0, dp_nats = nats_server_of nats_routes (\<lambda>n. Inr ''0''), dp_grpc_address = '':8081'',
     dp_http = new_http_server [], dp_log = logger_of server_log\<rparr>"

abbreviation sample_whole :: "(nat, nat, nat rmq_world, outbox_system) whole" where
  "sample_whole \<equiv> new_whole sample_config sample_answers sample_system (new_service linked_world quiet_nats echo_world)"

lemma sample_whole_facts:
  "ws_agenda sample_whole = control_text True" "whole_up sample_whole" "\<not> connection_lost (ws_services sample_whole RmqHost)"
  "whole_inv True sample_whole" "dp_rmq sample_deployment = rmq_server_of echo_routes Inr"
  "\<not> deaf (ws_services sample_whole HttpHost)"
proof -
  have "service_up (new_service linked_world quiet_nats echo_world h)" for h by (cases h) simp_all
  then show "whole_up sample_whole" by (simp add: whole_up_def) (simp add: new_whole_def new_life_def)
  show agenda: "ws_agenda sample_whole = control_text True" by (simp add: agenda_new sample_program)
  then show "whole_inv True sample_whole"
    using whole_inv_new [of sample_config sample_answers sample_system linked_world quiet_nats echo_world]
    by (simp add: control_text_def sample_config_def)
qed (simp_all add: linked_world_def sample_deployment_def new_host_life_def new_life_of_server_def server_life.defs)

lemma sample_whole_ends:
  obtains q where "whole_run sample_deployment demo_worker sample_whole q" and "whole_up q" and "ws_agenda q = []"
    and "\<not> ws_fallen q"
proof -
  have "True \<longrightarrow> 0 < pollInterval demo_worker" by simp
  from whole_ends [OF sample_whole_facts(2,4) this sample_whole_facts(5,6)] sample_whole_facts(3) that show thesis
    by (auto simp: keeps_link_def)
qed

lemma whole_program_refines_witness:
  "\<exists>q :: (nat, nat, nat rmq_world, outbox_system) whole. ws_agenda q = [] \<and>
     program_run demo_worker (new_program sample_config sample_answers sample_system) (program_of q)"
  using whole_program_refines sample_whole_ends by metis

lemma whole_program_can_be_brought_down_witness:
  "\<exists>q. whole_run sample_deployment (configured_worker sample_config (\<lambda>u. '''')) sample_whole q \<and> ws_agenda q = [] \<and> \<not> ws_fallen q"
proof -
  have "cfg_Outbox_Enabled sample_config \<longrightarrow> 0 < poll_interval sample_config" by (simp add: sample_config_def poll_interval_def)
  from whole_program_can_be_brought_down
    [OF rtranclp.rtrancl_refl sample_whole_facts(2) this sample_whole_facts(6,5)] sample_whole_facts(3)
  show ?thesis by auto
qed


text \<open>
  When the connection is lost by the time its \<open>Shutdown\<close> has waited, \<open>Run\<close> can only fall: the NATS server is not
  shut down, the worker not stopped and the publisher not closed, and the pool is closed under them.
\<close>

lemma Run_falls_over_a_lost_connection:
  assumes "whole_step d wk p q" and "ws_agenda p = ShutdownRmq # as" and "whole_inv e p"
    and "connection_lost (ws_services p RmqHost)" and "service_closed (ws_services q RmqHost)"
  shows "ws_fallen q \<and> ws_agenda q = deferred as"
proof -
  have standing: "\<not> ws_fallen p" using assms(2,3) by (auto simp: whole_inv_def agenda_ok_def)
  have down: "service_down (ws_services p RmqHost) = NotShut"
    using down_of_whole [OF assms(3) standing, of RmqHost] assms(2) by simp
  obtain l where l: "ws_services p RmqHost = RmqService l" using assms(4) by (cases "ws_services p RmqHost") simp_all
  have heads: "ShutdownRmq = shutdown_of h \<longleftrightarrow> h = RmqHost" for h by (cases h) simp_all
  from assms(1,2,4,5) down l show ?thesis
  proof (induction rule: whole_step.induct)
    case (shuts p h as s r)
    then show ?case
      by (auto simp: heads elim!: rmq_serviceE rmq_life_step.cases dest: rl_frames(1,2) simp: rl_frames(3))
  qed (auto simp: heads service_closed_def service_alone_def dest: down_changes(2) split: if_splits)
qed

lemma deferred_after_rmq: "deferred [ShutdownNats, StopWorker, ClosePublisher, CancelContext, ClosePostgres] = [CancelContext, ClosePostgres]"
  by (simp add: deferred_def)

end
