(* ===== verification/Spec2Isabelle.thy ===== *)
theory Spec2Isabelle
  imports AppError HttpErrors OutboxSystem WorkerLifecycle NotificationSystem Redact LoggerFamily Configuration
    RpcFlow ServerLife Subscriber EventFlow HttpServer ProgramLife
begin

text \<open>
  A verification library for the back end in this repository: a Go service that keeps domain events
  in a transactional outbox, moves them to RabbitMQ, notifies users in the application, by push
  and by email, serves remote calls over RabbitMQ and NATS, and answers errors over HTTP.

  THE PARTS AND HOW THEY INTERACT. Use cases call repositories; repositories build SQL with
  squirrel and run it with pgx. A domain event is stored in the table \<open>outbox_events\<close>. The outbox worker
  polls that table, publishes each row to a topic exchange, on a channel that confirms nothing, and marks the
  row as published or failed. The notification service reads the user's
  preferences, stores in-app notifications, sends push messages through FCM and mail through SMTP,
  and writes one row of the delivery log for each attempt. Other programs call this one over RabbitMQ
  or NATS and are called by its client; what is published on the exchange comes back to a subscriber,
  whose worker so far only logs it. \<open>Run\<close> makes these parts, starts them and takes them down.
  Everything logs through \<open>pkg/logger\<close>,
  with redaction and sampling as helpers, and reports errors of \<open>pkg/apperror\<close>.

  THEORIES AND SOURCES.
  \<^item> \<open>Prelude\<close>: bytes, identifiers, instants in nanoseconds and what a column keeps of them, calls that may
    panic, and the lemmas on rows that are selected, updated, ordered or deleted by a condition.
  \<^item> \<open>GoErrors\<close>: the values of Go's type error: \<open>errors.New\<close>, \<open>%w\<close>, \<open>errors.Join\<close>, \<open>errors.Is\<close> and
    \<open>errors.As\<close>.
  \<^item> \<open>AppError\<close>: \<open>pkg/apperror/error.go\<close>. The maps of fields live in a heap, because two options of
    one call, or the caller, may share one.
  \<^item> \<open>HttpErrors\<close>: \<open>internal/controller/http/v1/error.go\<close> and \<open>response/error.go\<close>.
  \<^item> \<open>Entities\<close>: \<open>internal/entity/event\<close> and \<open>internal/entity/notification\<close>.
  \<^item> \<open>Database\<close>: what the repositories use of PostgreSQL, pgx and squirrel: tables as lists of rows,
    the clock, and for each call whether the builder, the driver, the scan or the connection fails.
    The failures are functions of the state, so a theorem about all states covers every failure. So are the
    order of rows that tie in an \<open>ORDER BY\<close>, which each query has for itself, and what a \<open>JSONB\<close> column
    makes of a document; a \<open>TIMESTAMPTZ\<close> column keeps microseconds. That an insert checks its primary key is
    PostgreSQL's behaviour, not the program's.
  \<^item> \<open>RepoContracts\<close>: \<open>internal/repo/contracts.go\<close>, one record of operations per interface.
  \<^item> \<open>OutboxRepo\<close>, \<open>NotificationRepo\<close>, \<open>PushTokenRepo\<close>, \<open>PreferencesRepo\<close>: the files of
    \<open>internal/repo/persistent\<close>; the last one also holds the delivery log.
  \<^item> \<open>LogInterface\<close>, \<open>Logger\<close>, \<open>Redact\<close>, \<open>Sampler\<close>, \<open>LoggerFamily\<close>: \<open>pkg/logger\<close>; the last one has the
    loggers as values, with those derived by the methods \<open>With...\<close>.
  \<^item> \<open>EventWorker\<close>: the outbox worker of \<open>pkg/eventbus/worker.go\<close> against its interfaces.
    \<open>OutboxSystem\<close>: the worker on the repository, the publisher of \<open>pkg/eventbus/rabbitmq.go\<close> and the
    logger, as \<open>internal/app/app.go\<close> wires it; a message handed over to the channel may still never arrive. \<open>WorkerLifecycle\<close>: \<open>Start\<close>, \<open>run\<close> and \<open>Stop\<close> as steps of
    goroutines.
  \<^item> \<open>Notify\<close>: \<open>pkg/notify/smtp.go\<close> and \<open>fcm.go\<close>, with the writer through which \<open>net/smtp\<close> sends the data. \<open>NotificationService\<close>: the use cases and the service of
    \<open>internal/usecase/notification\<close>. \<open>NotificationSystem\<close>: the service on the repositories and senders.
  \<^item> \<open>Retry\<close>: remote systems as the list of calls they were asked and a function that answers them by
    number, and the loop that repeats an attempt. \<open>AmqpConnection\<close>: \<open>pkg/rabbitmq/rmq_rpc/connection.go\<close>
    and the constructors and \<open>Close\<close> of \<open>pkg/eventbus\<close>. \<open>Startup\<close>: \<open>pkg/postgres\<close> and
    \<open>internal/app/migrate.go\<close>.
  \<^item> \<open>RpcProtocol\<close>: the texts both transports share. \<open>RpcClient\<close> and \<open>RpcCalls\<close>: the client of
    \<open>pkg/rabbitmq/rmq_rpc/client\<close>, its goroutines as steps, and what holds of every run. \<open>RpcServer\<close>: one
    delivery at \<open>pkg/rabbitmq/rmq_rpc/server\<close>. \<open>RpcFlow\<close>: client, broker and server side by side. \<open>NatsRpc\<close>:
    server and client of \<open>pkg/nats/nats_rpc\<close>, and any number of callers beside broker and server.
  \<^item> \<open>Servers\<close>: the constructors of the HTTP, gRPC, NATS and RabbitMQ servers, the protocol their
    goroutine, \<open>notify\<close> and \<open>Shutdown\<close> share, and the loop of the last. \<open>ServerLife\<close>: each of the four in full,
    with its driver, its log and its connection. \<open>HttpServer\<close>: the middleware, router and probes of
    \<open>internal/controller/http\<close>.
  \<^item> \<open>Subscriber\<close>: \<open>pkg/eventbus/rabbitmq_subscriber.go\<close> and the worker of
    \<open>internal/usecase/notification/worker.go\<close>. \<open>EventFlow\<close>: both halves of the event bus side by side, with the
    broker between them: an exchange, one bound queue, its unacknowledged deliveries. \<open>App\<close>: \<open>config/config.go\<close>, \<open>internal/app/app.go\<close> and
    \<open>cmd/app/main.go\<close>. \<open>Configuration\<close>: the tags of \<open>config/config.go\<close>. \<open>AppLife\<close>: the thread of \<open>Run\<close> among the goroutines of the servers and the worker,
    each server by its protocol only. \<open>ProgramLife\<close>: the same with the servers of \<open>ServerLife\<close> in full.

  WHAT THE LEMMAS SHOW. For the outbox: a store is all or nothing, a fetch is complete and oldest
  first, a stored event is kept as a row until the channel took it without an error, only such rows are marked,
  the count of failures in a row is bounded, the outbox drains while the environment answers and no row is
  exhausted, and exhausted rows can block it; that a row marked as published may never have reached the broker is a
  lemma. Over the whole way: what the consumer handles was stored; while everything answers, nothing is lost on
  the way and no row is exhausted, what is unpublished or waits in the queue can be handled; and the cancelled
  consumer comes to rest.
  For the life cycle: no cycle after \<open>Stop\<close>, no panic when started and stopped once with a positive interval and
  a batch that can be allocated, \<open>Stop\<close> can return. For notifications: no channel that is switched off does anything, only active tokens are
  addressed, the audit trail agrees with the result, a mail is handed over at most once and only
  over TLS. For the repositories: round trips up to what the columns keep, paging while \<open>created_at\<close> tells
  the rows apart, counts, uniqueness of devices and users.
  For errors: frame and content of the constructors, the response depends only on kind, code and
  message. For remote calls: while replies are not repeated the client panics only over a connection or channel that
  is nil, a call gets its own reply or a failure of its own side, the table of calls does not grow, a registered
  call can be answered; the servers answer once, in order, and acknowledge afterwards; over RabbitMQ, from one
  end to the other, and over NATS a remote call is a local call. For connections: an attempt loop succeeds
  exactly when one attempt does, and a failing constructor leaves nothing open. For servers: one protocol for
  all four, an error never waits for a listener, the RabbitMQ server shuts down gracefully, the NATS
  server leaves at most one callback behind. For HTTP: one access line for each request, with its
  identifier, also when the handler panics, and with the status before \<open>fiber\<close> handles a returned error. For the program: whatever fails on the way down, every
  part that was started is taken down, in one order; \<open>Run\<close> hears of every failure of a server and of nothing
  else; it can be brought down when the poll interval is positive and HTTP was not asked to stop before it
  listened, with a panic only over a lost connection of RabbitMQ; when the pool is closed without a panic
  nothing is served any more; and with its servers in full it refines the
  program with their protocols. For logging: levels, redaction of keys, cards and addresses, the bounds of
  the sampler in every interleaving, and the one budget of derived loggers.

  INTERFACES. \<open>quiet_logger\<close>, \<open>outbox_worker\<close>, \<open>healthy_worker\<close>, \<open>notification_service\<close>,
  \<open>outbox_contract\<close>, \<open>kept_by_attempts\<close>, \<open>owned_connection\<close>, \<open>serving\<close>, \<open>rmq_serving\<close>,
  \<open>nats_serving\<close> and \<open>hosted_server\<close> are locales: the operations a component calls, or the steps it
  takes, and the laws it relies on. Each is interpreted on the operations of this program in the theory
  that wires the components.

  BOUNDS. No definition has fuel. Slices have the largest capacity \<open>max_slice\<close> of the state, and
  allocating beyond it panics. The sampler counts in \<open>int64\<close>; its bound is stated for fewer than
  2 ^ 63 increments and a clock below 2 ^ 63 nanoseconds. Regular expressions run on a matcher that is structural in the
  expression and bounded by the length of the text.

  The loops that retry are structural in the number of attempts left. Delays are recorded and
  time-outs may strike at any moment.

  NOT MODELLED. What only hands over to a library: \<open>fiber\<close>, the serving of gRPC and its reflection, metrics
  and the API pages, the parsing of the environment, a parameter with what its documentation promises, and
  JSON, whose encoder and decoder are parameters.
  Generated code under \<open>docs\<close>, and mocks. How the broker matches routing keys is a parameter of \<open>EventFlow\<close>,
  and which subject a NATS request is answered on one of \<open>NatsRpc\<close>.
  \<open>AppLife\<close> sees of a server its goroutine and \<open>notify\<close>, not its transport; that \<open>Shutdown\<close> panics over a nil
  connection is in \<open>ServerLife\<close> and \<open>ProgramLife\<close>. There each server has its own copy of the log. The end
  of the process with \<open>Run\<close> is not a step: goroutines may go on afterwards. A reconnection of the RPC client is one
  step for each attempt, within which nobody reads the connection; that of the server, whose goroutine alone uses
  the connection until \<open>Shutdown\<close>, is one step. \<open>Unsubscribe\<close> and \<open>Close\<close> of the NATS server are one step. Data
  races in the sense of the memory model of Go are not modelled. Of the location of an instant nothing is kept.
\<close>

end
